(* ===== verification/Prelude.thy ===== *)
theory Prelude
  imports Main "HOL-Library.Multiset"
begin

text \<open>
  What every component shares: Go's \<open>int64\<close> arithmetic with its wrap-around,
  \<open>time.Duration\<close> differences with their saturation, byte strings, and the generic
  lemmas on lists and maps that the component proofs use.

  Conventions of the development.  A Go \<open>int\<close> or \<open>int64\<close> is an \<open>int\<close> and every
  addition or subtraction of the code that could leave the 64-bit range goes through
  \<open>wrap64\<close>.  A \<open>time.Time\<close> is the number of nanoseconds since the Unix epoch and a
  \<open>time.Duration\<close> a number of nanoseconds.  An operation that reads the clock takes
  the reading as its argument \<open>now\<close>; the readings made inside one call are equal.
  Byte slices and Go strings are both lists of 8-bit characters.
\<close>

named_theorems go_simps "equations that evaluate the Go runtime primitives"

type_synonym bytes = string
type_synonym time = int
type_synonym duration = int

section \<open>64-bit integers\<close>

definition in64 :: "int \<Rightarrow> bool" where
  "in64 x \<longleftrightarrow> - (2 ^ 63) \<le> x \<and> x < 2 ^ 63"

definition wrap64 :: "int \<Rightarrow> int" where
  "wrap64 x = (x + 2 ^ 63) mod 2 ^ 64 - 2 ^ 63"

lemma wrap64_id [go_simps]: "in64 x \<Longrightarrow> wrap64 x = x"
  by (simp add: in64_def wrap64_def)

lemma in64_wrap64 [simp, intro]: "in64 (wrap64 x)"
  by (simp add: in64_def wrap64_def)

lemma wrap64_nonneg: "0 \<le> x \<Longrightarrow> x < 2 ^ 63 \<Longrightarrow> wrap64 x = x"
  by (rule wrap64_id) (simp add: in64_def)

section \<open>Time\<close>

definition max_duration :: duration where
  "max_duration = 2 ^ 63 - 1"

definition time_sub :: "time \<Rightarrow> time \<Rightarrow> duration" where
  \<comment> \<open>\<open>Time.Sub\<close> saturates at the largest and the smallest duration\<close>
  "time_sub t u = max (- (2 ^ 63)) (min max_duration (t - u))"

definition second :: duration where
  "second = 1000000000"

definition minute :: duration where
  "minute = 60 * second"

definition hour :: duration where
  "hour = 60 * minute"

lemma time_sub_self [simp]: "time_sub t t = 0"
  by (simp add: time_sub_def max_duration_def)

lemma time_sub_mono: "t \<le> t' \<Longrightarrow> time_sub t u \<le> time_sub t' u"
  by (auto simp: time_sub_def max_duration_def)

lemma time_sub_le_iff:
  assumes "in64 d"
  shows "d < time_sub t u \<longleftrightarrow> d < t - u \<and> d \<noteq> max_duration"
  using assms by (auto simp: time_sub_def max_duration_def in64_def)

lemma time_sub_nonneg [simp]: "0 \<le> time_sub t u \<longleftrightarrow> u \<le> t"
  by (auto simp: time_sub_def max_duration_def)

section \<open>Lists and maps\<close>

lemma remove1_filter_distinct: "distinct xs \<Longrightarrow> remove1 x xs = filter (\<lambda>y. y \<noteq> x) xs"
  by (induction xs) (auto intro!: filter_True [symmetric])

lemma sum_list_remove1:
  fixes f :: "'a \<Rightarrow> int"
  assumes "x \<in> set xs"
  shows "sum_list (map f (remove1 x xs)) = sum_list (map f xs) - f x"
  using assms by (induction xs) auto

lemma sum_list_map_nonneg:
  fixes f :: "'a \<Rightarrow> int"
  assumes "\<And>x. x \<in> set xs \<Longrightarrow> 0 \<le> f x"
  shows "0 \<le> sum_list (map f xs)"
  using assms by (induction xs) auto

lemma map_remove1_distinct:
  assumes "distinct xs" and "\<And>y. y \<in> set xs \<Longrightarrow> f y = f x \<longleftrightarrow> y = x"
  shows "map f (remove1 x xs) = filter (\<lambda>v. v \<noteq> f x) (map f xs)"
proof -
  have "filter (\<lambda>y. y \<noteq> x) xs = filter (\<lambda>y. f y \<noteq> f x) xs"
    by (rule filter_cong) (simp_all add: assms(2))
  then show ?thesis
    by (simp add: remove1_filter_distinct [OF assms(1)] filter_map comp_def)
qed

lemma remove1_last_distinct:
  assumes "distinct xs" and "xs \<noteq> []"
  shows "remove1 (last xs) xs = butlast xs"
proof -
  have "xs = butlast xs @ [last xs]" using assms(2) by simp
  then obtain ys y where xs: "xs = ys @ [y]" by blast
  with assms(1) have "y \<notin> set ys" by auto
  then show ?thesis by (simp add: xs remove1_append)
qed

lemma length_remove1_last: "xs \<noteq> [] \<Longrightarrow> length (remove1 (last xs) xs) < length xs"
  by (simp add: length_remove1)

text \<open>Removing the first element that satisfies a predicate.\<close>

fun remove_first :: "('a \<Rightarrow> bool) \<Rightarrow> 'a list \<Rightarrow> 'a list" where
  "remove_first P [] = []"
| "remove_first P (x # xs) = (if P x then xs else x # remove_first P xs)"

lemma remove_first_keeps: "x \<in> set xs \<Longrightarrow> \<not> P x \<Longrightarrow> x \<in> set (remove_first P xs)"
  by (induction xs) auto

lemma set_remove_first_subset: "set (remove_first P xs) \<subseteq> set xs"
  by (induction xs) auto

lemma distinct_remove_first: "distinct (map f xs) \<Longrightarrow> distinct (map f (remove_first P xs))"
proof (induction xs)
  case (Cons x xs)
  then show ?case using set_remove_first_subset [of P xs] by auto
qed simp

text \<open>The strings of a list with a separator between them.\<close>

fun join_with :: "string \<Rightarrow> string list \<Rightarrow> string" where
  "join_with sep [] = []"
| "join_with sep [x] = x"
| "join_with sep (x # y # xs) = x @ sep @ join_with sep (y # xs)"

text \<open>\<open>filepath.Ext\<close> of a file name: from the last dot of the name on, empty when it has none.\<close>

definition path_ext :: "string \<Rightarrow> string" where
  "path_ext name =
     (if CHR ''.'' \<in> set name then CHR ''.'' # rev (takeWhile (\<lambda>c. c \<noteq> CHR ''.'') (rev name)) else [])"

section \<open>Decimal text of an integer, as \<open>%d\<close> prints it\<close>

definition digit_char :: "nat \<Rightarrow> char" where
  "digit_char n = ''0123456789'' ! n"

fun show_nat :: "nat \<Rightarrow> string" where
  "show_nat n = (if n < 10 then [digit_char n] else show_nat (n div 10) @ [digit_char (n mod 10)])"

declare show_nat.simps [simp del]

definition show_int :: "int \<Rightarrow> string" where
  "show_int i = (if i < 0 then CHR ''-'' # show_nat (nat (- i)) else show_nat (nat i))"

lemma show_nat_not_Nil [simp]: "show_nat n \<noteq> []"
  by (subst show_nat.simps) simp

lemma show_int_not_Nil [simp]: "show_int i \<noteq> []"
  by (simp add: show_int_def)

end
