(* ===== verification/CacheSpec.thy ===== *)
theory CacheSpec
  imports Prelude
begin

text \<open>
  What the relay node relies on when it uses a content cache: the interface as a locale
  and the lemmas a client needs, proved once from the laws.  \<open>content\<close> is what the
  cache holds for a key: the data, when it was stored and for how long it is valid.  A
  cache may forget an entry at any \<open>put\<close>, but it never invents or alters one.
\<close>

type_synonym cached = "bytes \<times> time \<times> duration"

definition live :: "time \<Rightarrow> cached \<Rightarrow> bool" where
  "live now v = (case v of (_, created, ttl) \<Rightarrow> \<not> (0 < ttl \<and> ttl < time_sub now created))"

lemma live_just_stored: "0 \<le> ttl \<Longrightarrow> live now (d, now, ttl)"
  by (simp add: live_def)

lemma live_within_ttl: "time_sub now created \<le> ttl \<Longrightarrow> live now (d, created, ttl)"
  by (simp add: live_def)

datatype cache_call = CallGet time string | CallPut time string bytes duration

fun cache_run ::
    "(time \<Rightarrow> 'c \<Rightarrow> string \<Rightarrow> 'c \<times> bytes option) \<Rightarrow>
     (time \<Rightarrow> 'c \<Rightarrow> string \<Rightarrow> bytes \<Rightarrow> duration \<Rightarrow> 'c) \<Rightarrow> 'c \<Rightarrow> cache_call list \<Rightarrow> 'c" where
  "cache_run get put c [] = c"
| "cache_run get put c (CallGet now k # xs) = cache_run get put (fst (get now c k)) xs"
| "cache_run get put c (CallPut now k d ttl # xs) = cache_run get put (put now c k d ttl) xs"

text \<open>The last value written under each key by a sequence of calls.\<close>

fun last_writes :: "(string \<rightharpoonup> cached) \<Rightarrow> cache_call list \<Rightarrow> (string \<rightharpoonup> cached)" where
  "last_writes w [] = w"
| "last_writes w (CallGet now k # xs) = last_writes w xs"
| "last_writes w (CallPut now k d ttl # xs) = last_writes (w(k \<mapsto> (d, now, ttl))) xs"

fun call_fits :: "int \<Rightarrow> cache_call \<Rightarrow> bool" where
  "call_fits cap (CallGet now k) = True"
| "call_fits cap (CallPut now k d ttl) = (max 0 cap + int (length d) < 2 ^ 63)"

locale content_cache =
  fixes cinv :: "'c \<Rightarrow> bool"
    and cap :: "'c \<Rightarrow> int"
    and content :: "'c \<Rightarrow> string \<Rightarrow> cached option"
    and cget :: "time \<Rightarrow> 'c \<Rightarrow> string \<Rightarrow> 'c \<times> bytes option"
    and cput :: "time \<Rightarrow> 'c \<Rightarrow> string \<Rightarrow> bytes \<Rightarrow> duration \<Rightarrow> 'c"
  assumes get_inv: "cinv c \<Longrightarrow> cinv (fst (cget now c k))"
    and get_cap: "cinv c \<Longrightarrow> cap (fst (cget now c k)) = cap c"
    and get_result: "cinv c \<Longrightarrow> snd (cget now c k) =
      (case content c k of None \<Rightarrow> None | Some v \<Rightarrow> if live now v then Some (fst v) else None)"
    and get_content: "cinv c \<Longrightarrow> content (fst (cget now c k)) k' =
      (case content c k of
         None \<Rightarrow> content c k'
       | Some v \<Rightarrow> if k' = k \<and> \<not> live now v then None else content c k')"
    and put_inv: "cinv c \<Longrightarrow> max 0 (cap c) + int (length d) < 2 ^ 63 \<Longrightarrow> cinv (cput now c k d ttl)"
    and put_cap: "cinv c \<Longrightarrow> max 0 (cap c) + int (length d) < 2 ^ 63 \<Longrightarrow>
      cap (cput now c k d ttl) = cap c"
    and put_same: "cinv c \<Longrightarrow> max 0 (cap c) + int (length d) < 2 ^ 63 \<Longrightarrow>
      content (cput now c k d ttl) k =
        (if cap c < int (length d) then None else Some (d, now, ttl))"
    and put_other: "cinv c \<Longrightarrow> max 0 (cap c) + int (length d) < 2 ^ 63 \<Longrightarrow> k' \<noteq> k \<Longrightarrow>
      content (cput now c k d ttl) k' = Some v \<Longrightarrow> content c k' = Some v"
begin

lemma put_then_get:
  assumes "cinv c" and "max 0 (cap c) + int (length d) < 2 ^ 63"
    and "int (length d) \<le> cap c" and "live now' (d, now, ttl)"
  shows "snd (cget now' (cput now c k d ttl) k) = Some d"
  using assms by (simp add: get_result put_inv put_same)

lemma get_twice:
  assumes "cinv c" and "snd (cget now c k) = Some d"
  shows "snd (cget now (fst (cget now c k)) k) = Some d"
  using assms by (auto simp: get_result get_inv get_content split: option.splits if_splits)

lemma get_content_le: "cinv c \<Longrightarrow> content (fst (cget now c k)) \<subseteq>\<^sub>m content c"
  by (auto simp: map_le_def get_content dom_def split: option.splits if_splits)

lemma put_content_le:
  assumes "cinv c" and "max 0 (cap c) + int (length d) < 2 ^ 63"
  shows "content (cput now c k d ttl) \<subseteq>\<^sub>m (content c)(k \<mapsto> (d, now, ttl))"
  using assms put_other [OF assms] by (auto simp: map_le_def dom_def put_same split: if_splits)

lemma run_inv_coherent:
  assumes "cinv c" and "list_all (call_fits (cap c)) xs" and "content c \<subseteq>\<^sub>m w"
  shows "cinv (cache_run cget cput c xs) \<and> content (cache_run cget cput c xs) \<subseteq>\<^sub>m last_writes w xs"
  using assms
proof (induction xs arbitrary: c w)
  case (Cons x xs)
  show ?case
  proof (cases x)
    case (CallGet now k)
    have "content (fst (cget now c k)) \<subseteq>\<^sub>m w"
      using get_content_le [OF Cons.prems(1)] Cons.prems(3) by (rule map_le_trans)
    with Cons CallGet show ?thesis by (simp add: get_inv get_cap)
  next
    case (CallPut now k d ttl)
    then have room: "max 0 (cap c) + int (length d) < 2 ^ 63" using Cons.prems(2) by simp
    have "(content c)(k \<mapsto> (d, now, ttl)) \<subseteq>\<^sub>m w(k \<mapsto> (d, now, ttl))"
      by (rule map_le_upd) (rule Cons.prems)
    then have "content (cput now c k d ttl) \<subseteq>\<^sub>m w(k \<mapsto> (d, now, ttl))"
      using put_content_le [OF Cons.prems(1) room] by (rule map_le_trans [rotated])
    moreover have "cinv (cput now c k d ttl)" "list_all (call_fits (cap (cput now c k d ttl))) xs"
      using Cons.prems(1,2) room CallPut by (simp_all add: put_inv put_cap)
    ultimately show ?thesis
      unfolding CallPut cache_run.simps last_writes.simps by (intro Cons.IH)
  qed
qed simp

lemma run_get_last_write:
  assumes "cinv c" and "list_all (call_fits (cap c)) xs" and "content c = Map.empty"
    and "snd (cget now (cache_run cget cput c xs) k) = Some d"
  shows "\<exists>created ttl. last_writes Map.empty xs k = Some (d, created, ttl)
    \<and> live now (d, created, ttl)"
proof -
  have run: "cinv (cache_run cget cput c xs)"
      "content (cache_run cget cput c xs) \<subseteq>\<^sub>m last_writes Map.empty xs"
    using run_inv_coherent [OF assms(1,2), of Map.empty] assms(3) by simp_all
  obtain v where "content (cache_run cget cput c xs) k = Some v" "live now v" "d = fst v"
    using assms(4) by (auto simp: get_result run(1) split: option.splits if_splits)
  then show ?thesis
    using run(2) by (cases v) (auto simp: map_le_def dom_def)
qed

end

end
