(* ===== verification/Float64.thy ===== *)
theory Float64
  imports Prelude Complex_Main "HOL-Library.Log_Nat" "HOL-Library.Signed_Division"
begin

text \<open>
  Go's \<open>float64\<close> arithmetic as the rate limiter and the statistics use it.  A finite float
  is the rational number it stands for; every operation computes the exact result and rounds
  it with \<open>fl\<close>, round to nearest with ties to even at 53 bits, gradual underflow below
  \<open>2^-1022\<close>.  Overflow to infinity is not modelled (no operation of the code comes near
  \<open>2^1023\<close> from its \<open>int64\<close> inputs and its configuration), and a division by zero is
  excluded by the code or made explicit where it can happen.
\<close>

section \<open>Rounding\<close>

definition exponent :: "rat \<Rightarrow> int" where
  "exponent x =
     (case quotient_of x of (p, q) \<Rightarrow>
        let e = bitlen p - bitlen q in if x < 2 powi e then e - 1 else e)"

definition round_even :: "rat \<Rightarrow> int" where
  "round_even x =
     (let n = \<lfloor>x\<rfloor>; d = x - of_int n
      in if d < 1 / 2 \<or> d = 1 / 2 \<and> even n then n else n + 1)"

definition ulp :: "rat \<Rightarrow> rat" where
  "ulp x = 2 powi (max (exponent x) (- 1022) - 52)"

definition fl_pos :: "rat \<Rightarrow> rat" where
  "fl_pos x = of_int (round_even (x / ulp x)) * ulp x"

definition fl :: "rat \<Rightarrow> rat" where
  "fl x = (if x = 0 then 0 else if 0 < x then fl_pos x else - fl_pos (- x))"

lemma powi_add: "(2::rat) powi a * 2 powi b = 2 powi (a + b)"
  by (simp add: power_int_add)

lemma exponent_bounds:
  assumes "0 < x"
  shows "2 powi exponent x \<le> x" "x < 2 powi (exponent x + 1)"
proof -
  obtain p q where pq: "quotient_of x = (p, q)" by (cases "quotient_of x")
  have q: "0 < q" and x: "x = of_int p / of_int q"
    using quotient_of_denom_pos [OF pq] quotient_of_div [OF pq] by simp_all
  have p: "0 < p" using assms q by (simp add: x zero_less_divide_iff)
  have pw: "2 powi (bitlen n - 1) \<le> (of_int n :: rat)" "(of_int n :: rat) < 2 powi (bitlen n)"
    if "0 < n" for n
  proof -
    have "1 \<le> bitlen n" using that bitlen_eq_zero_iff [of n] bitlen_nonneg [of n] by linarith
    then show "2 powi (bitlen n - 1) \<le> (of_int n :: rat)" "(of_int n :: rat) < 2 powi (bitlen n)"
      using bitlen_bounds [OF that]
      by (simp_all add: power_int_nonneg_exp)
  qed
  let ?e = "bitlen p - bitlen q"
  have "2 powi (?e - 1) = (2 powi (bitlen p - 1) / 2 powi bitlen q :: rat)"
    by (simp flip: power_int_diff add: algebra_simps)
  also have "\<dots> \<le> of_int p / of_int q"
    using pw [OF p] pw [OF q] q p by (intro frac_le) (simp_all add: less_imp_le)
  finally have lo: "2 powi (?e - 1) \<le> x" by (simp add: x)
  have "of_int p / of_int q < (2 powi bitlen p / 2 powi (bitlen q - 1) :: rat)"
    using pw [OF p] pw [OF q] q p by (intro frac_less) simp_all
  also have "\<dots> = 2 powi (?e + 1)"
    by (simp flip: power_int_diff add: algebra_simps)
  finally have hi: "x < 2 powi (?e + 1)" by (simp add: x)
  have e: "exponent x = (if x < 2 powi ?e then ?e - 1 else ?e)"
    by (simp add: exponent_def pq Let_def)
  show "2 powi exponent x \<le> x" "x < 2 powi (exponent x + 1)"
    using lo hi by (auto simp: e not_less)
qed

lemma exponent_ge: "0 < x \<Longrightarrow> 2 powi k \<le> x \<Longrightarrow> k \<le> exponent x"
proof (rule ccontr)
  assume "0 < x" "2 powi k \<le> x" "\<not> k \<le> exponent x"
  then have "(2::rat) powi (exponent x + 1) \<le> 2 powi k" by (intro power_int_increasing) simp_all
  with exponent_bounds(2) [OF \<open>0 < x\<close>] \<open>2 powi k \<le> x\<close> show False by linarith
qed

lemma exponent_less: "0 < x \<Longrightarrow> x < 2 powi k \<Longrightarrow> exponent x < k"
proof (rule ccontr)
  assume "0 < x" "x < 2 powi k" "\<not> exponent x < k"
  then have "(2::rat) powi k \<le> 2 powi (exponent x)" by (intro power_int_increasing) simp_all
  with exponent_bounds(1) [OF \<open>0 < x\<close>] \<open>x < 2 powi k\<close> show False by linarith
qed

lemma exponent_mono: "0 < x \<Longrightarrow> x \<le> y \<Longrightarrow> exponent x \<le> exponent y"
  using exponent_bounds(1) [of x] by (intro exponent_ge) linarith+

lemma ulp_pos [simp]: "0 < ulp x"
  by (simp add: ulp_def)

lemma round_even_near: "\<bar>of_int (round_even x) - x\<bar> \<le> 1 / 2"
proof -
  have "of_int \<lfloor>x\<rfloor> \<le> x" "x < of_int \<lfloor>x\<rfloor> + 1" by linarith+
  then show ?thesis by (auto simp: round_even_def Let_def abs_le_iff field_simps)
qed

lemma round_even_int [simp]: "round_even (of_int n) = n"
  by (simp add: round_even_def)

lemma round_even_mono: "x \<le> y \<Longrightarrow> round_even x \<le> round_even y"
proof -
  assume "x \<le> y"
  then have f: "\<lfloor>x\<rfloor> \<le> \<lfloor>y\<rfloor>" by (rule floor_mono)
  show ?thesis
  proof (cases "\<lfloor>x\<rfloor> = \<lfloor>y\<rfloor>")
    case True
    then show ?thesis using \<open>x \<le> y\<close> by (auto simp: round_even_def Let_def)
  next
    case False
    then show ?thesis using f by (auto simp: round_even_def Let_def)
  qed
qed

lemma fl_pos_nonneg: "0 < x \<Longrightarrow> 0 \<le> fl_pos x"
  using round_even_mono [of 0 "x / ulp x"] round_even_int [of 0]
  by (simp add: fl_pos_def less_imp_le)

lemma fl_pos_le:
  assumes "x \<le> of_int n * ulp x"
  shows "fl_pos x \<le> of_int n * ulp x"
proof -
  have "x / ulp x \<le> of_int n" using assms by (simp add: pos_divide_le_eq)
  then have "round_even (x / ulp x) \<le> n" using round_even_mono round_even_int by metis
  then show ?thesis by (simp add: fl_pos_def mult_right_mono less_imp_le)
qed

lemma fl_pos_ge:
  assumes "of_int n * ulp x \<le> x"
  shows "of_int n * ulp x \<le> fl_pos x"
proof -
  have "of_int n \<le> x / ulp x" using assms by (simp add: pos_le_divide_eq)
  then have "n \<le> round_even (x / ulp x)" using round_even_mono round_even_int by metis
  then show ?thesis by (simp add: fl_pos_def mult_right_mono less_imp_le)
qed

lemma ulp_scale: "of_int (2 ^ n) * ulp x = 2 powi (max (exponent x) (- 1022) - 52 + int n)"
proof -
  have "of_int (2 ^ n) * ulp x = 2 powi (int n) * 2 powi (max (exponent x) (- 1022) - 52)"
    by (simp add: ulp_def)
  also have "\<dots> = 2 powi (int n + (max (exponent x) (- 1022) - 52))"
    by (rule power_int_add [symmetric]) simp
  finally show ?thesis by (simp only: add.commute)
qed

lemma fl_pos_mono:
  assumes "0 < x" and "x \<le> y"
  shows "fl_pos x \<le> fl_pos y"
proof (cases "ulp x = ulp y")
  case True
  have "x / ulp y \<le> y / ulp y" using assms by (simp add: divide_right_mono less_imp_le)
  then have "(of_int (round_even (x / ulp y)) :: rat) \<le> of_int (round_even (y / ulp y))"
    using round_even_mono by simp
  then show ?thesis by (simp add: fl_pos_def True mult_right_mono less_imp_le)
next
  case False
  let ?kx = "max (exponent x) (- 1022)"
  have y: "0 < y" using assms by linarith
  have "?kx \<noteq> max (exponent y) (- 1022)" using False by (auto simp: ulp_def)
  then have k: "?kx < exponent y" and my: "max (exponent y) (- 1022) = exponent y"
    using exponent_mono [OF assms] by (auto simp: max_def split: if_splits)
  have top: "of_int (2 ^ 53) * ulp x = 2 powi (?kx + 1)" "of_int (2 ^ 52) * ulp y = 2 powi exponent y"
    unfolding ulp_scale my by (simp_all add: add.commute)
  have "2 powi (exponent x + 1) \<le> (2 powi (?kx + 1) :: rat)" by (intro power_int_increasing) simp_all
  then have "x \<le> of_int (2 ^ 53) * ulp x" using exponent_bounds(2) [OF assms(1)] unfolding top by linarith
  then have "fl_pos x \<le> of_int (2 ^ 53) * ulp x" by (rule fl_pos_le)
  also have "\<dots> \<le> of_int (2 ^ 52) * ulp y" unfolding top using k by (intro power_int_increasing) (linarith, simp)
  also have "\<dots> \<le> fl_pos y"
    by (rule fl_pos_ge) (use exponent_bounds(1) [OF y] in \<open>simp only: top\<close>)
  finally show ?thesis .
qed

lemma fl_0 [simp]: "fl 0 = 0"
  by (simp add: fl_def)

lemma fl_minus: "fl (- x) = - fl x"
  by (simp add: fl_def)

lemma fl_nonneg [simp]: "0 \<le> x \<Longrightarrow> 0 \<le> fl x"
  by (simp add: fl_def fl_pos_nonneg)

lemma fl_mono: "x \<le> y \<Longrightarrow> fl x \<le> fl y"
  using fl_pos_nonneg [of "- x"] fl_pos_nonneg [of y] fl_pos_mono [of x y] fl_pos_mono [of "- y" "- x"]
  by (auto simp: fl_def)

lemma fl_half_ulp:
  assumes "0 < x"
  shows "\<bar>fl x - x\<bar> \<le> ulp x / 2"
proof -
  have "x / ulp x * ulp x = x" using ulp_pos [of x] by (metis less_irrefl nonzero_divide_eq_eq)
  then have "\<bar>of_int (round_even (x / ulp x)) * ulp x - x\<bar> = \<bar>of_int (round_even (x / ulp x)) - x / ulp x\<bar> * ulp x"
    using ulp_pos [of x] by (metis abs_mult abs_of_pos left_diff_distrib)
  also have "\<dots> \<le> 1 / 2 * ulp x"
    using round_even_near by (rule mult_right_mono) (simp add: less_imp_le)
  finally show ?thesis using assms by (simp add: fl_def fl_pos_def)
qed

lemma half_ulp_normal:
  assumes "0 < x" and "- 1022 \<le> exponent x"
  shows "ulp x / 2 \<le> x * (1 / 2 ^ 53)"
proof -
  have "ulp x / 2 = 2 powi (exponent x) * (1 / 2 ^ 53)"
    using assms(2) by (simp add: ulp_def power_int_diff)
  also have "\<dots> \<le> x * (1 / 2 ^ 53)"
    using exponent_bounds(1) [OF assms(1)] by (rule mult_right_mono) simp
  finally show ?thesis .
qed

lemma fl_error:
  assumes "0 \<le> x"
  shows "\<bar>fl x - x\<bar> \<le> x * (1 / 2 ^ 53) + 1 / 2 ^ 1000"
proof (cases "x = 0")
  case False
  with assms have x: "0 < x" by simp
  have "ulp x / 2 \<le> x * (1 / 2 ^ 53) + 1 / 2 ^ 1000"
  proof (cases "- 1022 \<le> exponent x")
    case True
    have "x * (1 / 2 ^ 53) \<le> x * (1 / 2 ^ 53) + 1 / 2 ^ 1000" by simp
    with half_ulp_normal [OF x True] show ?thesis by (rule order_trans)
  next
    case False
    then have "ulp x / 2 = 2 powi (- 1074) / 2" by (simp add: ulp_def)
    also have "\<dots> \<le> 1 / 2 ^ 1000" by (simp add: power_int_minus field_simps)
    finally show ?thesis using x by (simp add: add_increasing)
  qed
  with fl_half_ulp [OF x] show ?thesis by (rule order_trans)
qed simp

lemma fl_rel_error:
  assumes "1 / 2 ^ 100 \<le> x"
  shows "\<bar>fl x - x\<bar> \<le> x * (1 / 2 ^ 53)"
proof -
  have x: "0 < x" using assms by (rule less_le_trans [rotated]) simp
  have "(2::rat) powi (- 1022) \<le> 2 powi (- 100)" by (rule power_int_increasing) simp_all
  also have "\<dots> \<le> x" using assms by (simp add: power_int_minus)
  finally have "- 1022 \<le> exponent x" by (rule exponent_ge [OF x])
  with fl_half_ulp [OF x] half_ulp_normal [OF x] show ?thesis by linarith
qed

lemma fl_exact: "0 < x \<Longrightarrow> x / ulp x = of_int n \<Longrightarrow> fl x = x"
proof -
  assume x: "0 < x" and n: "x / ulp x = of_int n"
  have "fl x = of_int n * ulp x" using x by (simp add: fl_def fl_pos_def n)
  also have "\<dots> = x" using n ulp_pos [of x] by (metis less_irrefl nonzero_divide_eq_eq)
  finally show ?thesis .
qed

lemma fl_grid_pos:
  assumes "0 < k" and "k < 2 ^ 53" and "- 1074 \<le> m"
  shows "fl (of_int k * 2 powi m) = of_int k * 2 powi m"
proof -
  let ?v = "of_int k * 2 powi m :: rat"
  have v: "0 < ?v" using assms(1) by simp
  have "(of_int k :: rat) < of_int (2 ^ 53)" using assms(2) by (simp only: of_int_less_iff)
  then have "?v < of_int (2 ^ 53) * 2 powi m" by (rule mult_strict_right_mono) simp
  also have "\<dots> = 2 powi 53 * 2 powi m" by simp
  also have "\<dots> = 2 powi (53 + m)" by (rule powi_add)
  finally have "exponent ?v < 53 + m" by (rule exponent_less [OF v])
  then have e: "max (exponent ?v) (- 1022) - 52 \<le> m" using assms(3) by simp
  define d where "d = nat (m - (max (exponent ?v) (- 1022) - 52))"
  have "2 powi m = (2 ^ d * ulp ?v :: rat)"
    unfolding ulp_def using e by (simp add: d_def power_int_nonneg_exp [symmetric] powi_add)
  moreover have "c * P / U = c * 2 ^ d" if "P = 2 ^ d * U" "0 < U" for c P U :: rat
    using that by simp
  ultimately have "?v / ulp ?v = of_int k * 2 ^ d" using ulp_pos by blast
  then have "?v / ulp ?v = of_int (k * 2 ^ d)" by simp
  with v show ?thesis by (rule fl_exact)
qed

lemma fl_grid:
  assumes "\<bar>k\<bar> \<le> 2 ^ 53" and "- 1074 \<le> m"
  shows "fl (of_int k * 2 powi m) = of_int k * 2 powi m"
proof -
  have pos: "fl (of_int j * 2 powi m) = of_int j * 2 powi m" if "0 < j" "j \<le> 2 ^ 53" for j
  proof (cases "j = 2 ^ 53")
    case True
    have "(of_int j * 2 powi m :: rat) = of_int (2 ^ 52) * 2 powi (1 + m)"
      by (simp add: True power_int_add)
    then show ?thesis using fl_grid_pos [of "2 ^ 52" "1 + m"] assms(2) by simp
  next
    case False
    then show ?thesis using fl_grid_pos [of j m] that assms(2) by simp
  qed
  have "k = 0 \<or> 0 < k \<or> 0 < - k" by linarith
  then show ?thesis
  proof (elim disjE)
    assume "0 < - k"
    then show ?thesis using pos [of "- k"] fl_minus [of "of_int k * 2 powi m"] assms(1) by simp
  qed (use pos [of k] assms(1) in simp_all)
qed

lemma fl_of_int:
  assumes "\<bar>n\<bar> < 2 ^ 53"
  shows "fl (of_int n) = of_int n"
  using fl_grid [of n 0] assms by simp

text \<open>A rounded value is a float: rounding it again changes nothing.\<close>

lemma fl_pos_idem: "0 < x \<Longrightarrow> fl (fl_pos x) = fl_pos x"
proof -
  assume x: "0 < x"
  have "2 powi (exponent x + 1) \<le> (2 powi (max (exponent x) (- 1022) - 52 + int 53) :: rat)"
    by (intro power_int_increasing) simp_all
  then have "x \<le> of_int (2 ^ 53) * ulp x"
    using exponent_bounds(2) [OF x] unfolding ulp_scale by linarith
  then have "x / ulp x \<le> of_int (2 ^ 53)" by (simp add: pos_divide_le_eq)
  then have "round_even (x / ulp x) \<le> 2 ^ 53" using round_even_mono round_even_int by metis
  moreover have "0 \<le> round_even (x / ulp x)"
    using round_even_mono [of 0 "x / ulp x"] round_even_int [of 0] x by (simp add: less_imp_le)
  ultimately show ?thesis
    unfolding fl_pos_def ulp_def by (intro fl_grid) simp_all
qed

lemma fl_idem [simp]: "fl (fl x) = fl x"
  using fl_pos_idem [of x] fl_pos_idem [of "- x"] by (auto simp: fl_def [of x] fl_minus)

lemma fl_numeral:
  "numeral w < (2 ^ 53 :: int) \<Longrightarrow> fl (numeral w) = numeral w"
  using fl_of_int [of "numeral w"] by simp

lemma fl_1 [simp]: "fl 1 = 1"
  using fl_of_int [of 1] by simp

section \<open>Operations\<close>

type_synonym float64 = rat

definition f_add :: "float64 \<Rightarrow> float64 \<Rightarrow> float64" where "f_add x y = fl (x + y)"
definition f_sub :: "float64 \<Rightarrow> float64 \<Rightarrow> float64" where "f_sub x y = fl (x - y)"
definition f_mul :: "float64 \<Rightarrow> float64 \<Rightarrow> float64" where "f_mul x y = fl (x * y)"
definition f_div :: "float64 \<Rightarrow> float64 \<Rightarrow> float64" where "f_div x y = fl (x / y)"
definition f_of_int :: "int \<Rightarrow> float64" where "f_of_int n = fl (of_int n)"

lemma f_of_int_mono: "m \<le> n \<Longrightarrow> f_of_int m \<le> f_of_int n"
  by (simp add: f_of_int_def fl_mono)

text \<open>\<open>int64(x)\<close> truncates; outside the range the result depends on the platform.\<close>

definition int64_of_float :: "float64 \<Rightarrow> int option" where
  "int64_of_float x = (let n = (if 0 \<le> x then \<lfloor>x\<rfloor> else \<lceil>x\<rceil>) in if in64 n then Some n else None)"

text \<open>\<open>Duration.Seconds()\<close>: whole seconds plus the rest divided by \<open>1e9\<close>.\<close>

definition duration_seconds :: "duration \<Rightarrow> float64" where
  "duration_seconds d =
     f_add (f_of_int (d sdiv second)) (f_div (f_of_int (d smod second)) (of_int second))"

lemma sdiv_smod_nonneg:
  assumes "0 \<le> d"
  shows "d sdiv second = d div second" "d smod second = d mod second"
  using assms by (simp_all add: signed_divide_int_def signed_modulo_int_def second_def sgn_if
      minus_div_mult_eq_mod)

lemma duration_seconds_nonneg: "0 \<le> d \<Longrightarrow> 0 \<le> duration_seconds d"
  by (simp add: duration_seconds_def f_add_def f_div_def f_of_int_def sdiv_smod_nonneg)
    (simp add: second_def)

lemma scaled_sum: "F \<le> f + f * e \<Longrightarrow> 0 \<le> a \<Longrightarrow> 0 \<le> e \<Longrightarrow> a + F \<le> (a + f) * (1 + e)" for a :: rat
  using mult_nonneg_nonneg [of a e] unfolding distrib_left distrib_right mult_1_right by linarith

lemma compound_error:
  fixes s u :: rat
  assumes "0 \<le> s" and "0 \<le> u" and "u \<le> 1"
  shows "s * (1 + u) + s * (1 + u) * u \<le> s * (1 + 3 * u)"
proof -
  have "(1 + u) + (1 + u) * u \<le> 1 + 3 * u"
    using mult_left_mono [OF assms(3,2)] by (simp add: distrib_right)
  from mult_left_mono [OF this assms(1)] show ?thesis by (simp add: distrib_left distrib_right mult.assoc)
qed

lemma duration_seconds_le:
  assumes "0 \<le> d" and "in64 d"
  shows "duration_seconds d \<le> of_int d / of_int second * (1 + 3 / 2 ^ 53)"
proof -
  let ?q = "d div second" and ?m = "d mod second"
  have q: "0 \<le> ?q" "?q < 2 ^ 53" and m: "0 \<le> ?m" "?m < second" and d: "d = ?q * second + ?m"
    using assms by (simp_all add: in64_def second_def)
  have fq: "f_of_int ?q = of_int ?q" using q by (simp add: f_of_int_def fl_of_int)
  have fm: "f_of_int ?m = of_int ?m" using m by (simp add: f_of_int_def fl_of_int second_def)
  let ?f = "(of_int ?m / of_int second :: rat)"
  have f0: "0 \<le> ?f" using m by (simp add: second_def)
  have small: "1 / 2 ^ 100 \<le> (1 / of_int second :: rat)" by (simp add: second_def)
  have f: "f_div (of_int ?m) (of_int second) \<le> ?f + ?f * (1 / 2 ^ 53)"
  proof (cases "?m = 0")
    case False
    with m have "(1 :: rat) \<le> of_int ?m" by simp
    then have "1 / of_int second \<le> ?f" by (rule divide_right_mono) (simp add: second_def)
    with small have "1 / 2 ^ 100 \<le> ?f" by (rule order_trans)
    from fl_rel_error [OF this] show ?thesis by (simp add: f_div_def abs_le_iff)
  qed (simp add: f_div_def)
  let ?s = "of_int ?q + ?f"
  have od: "(of_int d :: rat) = of_int ?q * of_int second + of_int ?m" by (metis d of_int_add of_int_mult)
  have s: "?s = of_int d / of_int second"
    unfolding od by (simp add: second_def add_divide_distrib)
  have ineq: "of_int ?q + f_div (of_int ?m) (of_int second) \<le> ?s * (1 + 1 / 2 ^ 53)"
    using scaled_sum [OF f] q(1) by simp
  have "duration_seconds d = fl (of_int ?q + f_div (of_int ?m) (of_int second))"
    using assms(1) by (simp add: duration_seconds_def sdiv_smod_nonneg fq fm f_add_def)
  also have "\<dots> \<le> fl (?s * (1 + 1 / 2 ^ 53))" by (rule fl_mono [OF ineq])
  also have "\<dots> \<le> ?s * (1 + 3 / 2 ^ 53)"
  proof (cases "d = 0")
    case False
    with assms(1) have "(1 :: rat) \<le> of_int d" by simp
    then have "1 / of_int second \<le> ?s" unfolding s by (rule divide_right_mono) (simp add: second_def)
    with small have "1 / 2 ^ 100 \<le> ?s" by (rule order_trans)
    moreover have "0 \<le> ?s" using q(1) f0 by simp
    then have "?s * 1 \<le> ?s * (1 + 1 / 2 ^ 53)" by (rule mult_left_mono [rotated]) simp
    then have "?s \<le> ?s * (1 + 1 / 2 ^ 53)" by (simp only: mult_1_right)
    ultimately have big: "1 / 2 ^ 100 \<le> ?s * (1 + 1 / 2 ^ 53)" by (rule order_trans)
    have "fl (?s * (1 + 1 / 2 ^ 53)) \<le> ?s * (1 + 1 / 2 ^ 53) + ?s * (1 + 1 / 2 ^ 53) * (1 / 2 ^ 53)"
      using fl_rel_error [OF big] by linarith
    also have "\<dots> \<le> ?s * (1 + 3 * (1 / 2 ^ 53))"
      by (rule compound_error [OF \<open>0 \<le> ?s\<close>]) simp_all
    finally show ?thesis by (simp only: times_divide_eq_right mult_1_right)
  qed (simp add: s)
  finally show ?thesis by (simp only: s)
qed

text \<open>The two error constants of the model, with the facts the bounds below need.\<close>

definition fl_unit :: rat where "fl_unit = 1 / 2 ^ 53"
definition fl_tiny :: rat where "fl_tiny = 1 / 2 ^ 1000"

lemma fl_unit: "0 \<le> fl_unit" "9 * fl_unit \<le> 1 / 2 ^ 49" "fl_unit \<le> 1 / 100"
  by (simp_all add: fl_unit_def)

lemma fl_tiny: "0 \<le> fl_tiny" "4 * fl_tiny \<le> 1 / 2 ^ 49"
proof -
  have "4 * fl_tiny \<le> 4 * (1 / 2 ^ 100)"
    unfolding fl_tiny_def by (intro mult_left_mono divide_left_mono power_increasing) simp_all
  then show "4 * fl_tiny \<le> 1 / 2 ^ 49" by simp
qed (simp add: fl_tiny_def)

lemma fl_upper: "0 \<le> x \<Longrightarrow> fl x \<le> x + x * fl_unit + fl_tiny"
  using fl_error [of x] unfolding fl_unit_def fl_tiny_def by linarith

end
