(* ===== verification/LruCache.thy ===== *)
theory LruCache
  imports CacheSpec Float64
begin

text \<open>
  The size-bounded LRU cache of \<open>internal/relay/cache.go\<close>.  Go keeps the items in a
  \<open>container/list\<close> list and finds them through a map from keys to list elements; an
  element is a pointer.  The model keeps the pointers: \<open>items\<close> is the list of element
  addresses from front to back, \<open>elems\<close> the \<open>*CacheItem\<close> each address holds,
  \<open>lookup\<close> the map, and \<open>next_elem\<close> the next address \<open>PushFront\<close> allocates.
  \<open>lru_inv\<close> says how the three agree; \<open>entries\<close> reads the cache as a list of entries,
  most recently used first, and the \<open>spec_\<close> functions say what each operation does to
  that list.
\<close>

section \<open>State\<close>

record cache_item =
  ci_Key :: string
  ci_Data :: bytes
  ci_Size :: int
  ci_CreatedAt :: time
  ci_AccessedAt :: time
  ci_TTL :: duration

record lru_cache =
  capacity :: int
  currentSize :: int
  items :: "nat list"
  lookup :: "string \<rightharpoonup> nat"
  hits :: int
  misses :: int
  elems :: "nat \<Rightarrow> cache_item"
  next_elem :: nat

definition zero_item :: cache_item where
  "zero_item = \<lparr>ci_Key = [], ci_Data = [], ci_Size = 0, ci_CreatedAt = 0,
     ci_AccessedAt = 0, ci_TTL = 0\<rparr>"

definition NewLRUCache :: "int \<Rightarrow> lru_cache" where
  "NewLRUCache capacityBytes = \<lparr>capacity = capacityBytes, currentSize = 0, items = [],
     lookup = Map.empty, hits = 0, misses = 0, elems = (\<lambda>_. zero_item), next_elem = 0\<rparr>"

section \<open>Operations\<close>

definition removeElement :: "lru_cache \<Rightarrow> nat \<Rightarrow> lru_cache" where
  "removeElement c e =
     (let item = elems c e
      in c\<lparr>items := remove1 e (items c),
           lookup := (lookup c)(ci_Key item := None),
           currentSize := wrap64 (currentSize c - ci_Size item)\<rparr>)"

definition evictOldest :: "lru_cache \<Rightarrow> lru_cache" where
  "evictOldest c =
     (case items c of [] \<Rightarrow> c | _ \<Rightarrow> removeElement c (last (items c)))"

lemma items_removeElement [simp]: "items (removeElement c e) = remove1 e (items c)"
  by (simp add: removeElement_def Let_def)

lemma length_items_evictOldest:
  "items c \<noteq> [] \<Longrightarrow> length (items (evictOldest c)) < length (items c)"
  by (auto simp: evictOldest_def length_remove1 split: list.splits)

text \<open>The loop of \<open>PutWithTTL\<close>: \<open>for c.currentSize+size > c.capacity && c.items.Len() > 0\<close>.\<close>

function evict_until :: "lru_cache \<Rightarrow> int \<Rightarrow> lru_cache" where
  "evict_until c sz =
     (if capacity c < wrap64 (currentSize c + sz) \<and> items c \<noteq> []
      then evict_until (evictOldest c) sz else c)"
  by pat_completeness auto
termination
  by (relation "measure (\<lambda>(c, _). length (items c))") (auto intro: length_items_evictOldest)

declare evict_until.simps [simp del]

definition expired :: "time \<Rightarrow> cache_item \<Rightarrow> bool" where
  "expired now item \<longleftrightarrow> 0 < ci_TTL item \<and> ci_TTL item < time_sub now (ci_CreatedAt item)"

definition LRU_Get :: "time \<Rightarrow> lru_cache \<Rightarrow> string \<Rightarrow> lru_cache \<times> bytes option" where
  "LRU_Get now c key =
     (case lookup c key of
        None \<Rightarrow> (c\<lparr>misses := wrap64 (misses c + 1)\<rparr>, None)
      | Some e \<Rightarrow>
          (let item = elems c e
           in if expired now item
              then (let c' = removeElement c e
                    in (c'\<lparr>misses := wrap64 (misses c' + 1)\<rparr>, None))
              else (c\<lparr>items := e # remove1 e (items c),
                      elems := (elems c)(e := item\<lparr>ci_AccessedAt := now\<rparr>),
                      hits := wrap64 (hits c + 1)\<rparr>, Some (ci_Data item))))"

definition drop_existing :: "lru_cache \<Rightarrow> string \<Rightarrow> lru_cache" where
  "drop_existing c key =
     (case lookup c key of
        None \<Rightarrow> c
      | Some e \<Rightarrow>
          c\<lparr>currentSize := wrap64 (currentSize c - ci_Size (elems c e)),
            items := remove1 e (items c),
            lookup := (lookup c)(key := None)\<rparr>)"

definition push_item :: "lru_cache \<Rightarrow> cache_item \<Rightarrow> lru_cache" where
  "push_item c item =
     (let e = next_elem c
      in c\<lparr>next_elem := Suc e, elems := (elems c)(e := item), items := e # items c,
           lookup := (lookup c)(ci_Key item \<mapsto> e),
           currentSize := wrap64 (currentSize c + ci_Size item)\<rparr>)"

definition LRU_PutWithTTL ::
    "time \<Rightarrow> lru_cache \<Rightarrow> string \<Rightarrow> bytes \<Rightarrow> duration \<Rightarrow> lru_cache" where
  "LRU_PutWithTTL now c key data ttl =
     (let sz = int (length data);
          c1 = drop_existing c key;
          c2 = evict_until c1 sz
      in if capacity c2 < sz then c2
         else push_item c2 \<lparr>ci_Key = key, ci_Data = data, ci_Size = sz,
                ci_CreatedAt = now, ci_AccessedAt = now, ci_TTL = ttl\<rparr>)"

definition LRU_Put :: "time \<Rightarrow> lru_cache \<Rightarrow> string \<Rightarrow> bytes \<Rightarrow> lru_cache" where
  "LRU_Put now c key data = LRU_PutWithTTL now c key data 0"

definition LRU_Delete :: "lru_cache \<Rightarrow> string \<Rightarrow> lru_cache \<times> bool" where
  "LRU_Delete c key =
     (case lookup c key of None \<Rightarrow> (c, False) | Some e \<Rightarrow> (removeElement c e, True))"

definition LRU_Clear :: "lru_cache \<Rightarrow> lru_cache" where
  "LRU_Clear c = c\<lparr>items := [], lookup := Map.empty, currentSize := 0\<rparr>"

definition LRU_Size :: "lru_cache \<Rightarrow> int" where
  "LRU_Size c = currentSize c"

definition LRU_Len :: "lru_cache \<Rightarrow> int" where
  "LRU_Len c = int (length (items c))"

definition LRU_Capacity :: "lru_cache \<Rightarrow> int" where
  "LRU_Capacity c = capacity c"

text \<open>\<open>CleanupExpired\<close> first collects the expired elements from back to front, then removes them.\<close>

definition LRU_CleanupExpired :: "time \<Rightarrow> lru_cache \<Rightarrow> lru_cache \<times> int" where
  "LRU_CleanupExpired now c =
     (let toRemove = filter (\<lambda>e. expired now (elems c e)) (rev (items c))
      in (foldl removeElement c toRemove, int (length toRemove)))"

definition LRU_Keys :: "lru_cache \<Rightarrow> string list" where
  "LRU_Keys c = map (\<lambda>e. ci_Key (elems c e)) (items c)"

record cache_stats =
  cs_Hits :: int
  cs_Misses :: int
  cs_HitRate :: float64
  cs_CurrentSize :: int
  cs_Capacity :: int
  cs_ItemCount :: int

definition LRU_Stats :: "lru_cache \<Rightarrow> cache_stats" where
  "LRU_Stats c =
     (let tot = wrap64 (hits c + misses c)
      in \<lparr>cs_Hits = hits c, cs_Misses = misses c,
          cs_HitRate = (if 0 < tot then f_div (f_of_int (hits c)) (f_of_int tot) else 0),
          cs_CurrentSize = currentSize c, cs_Capacity = capacity c, cs_ItemCount = int (length (items c))\<rparr>)"

definition LRU_Contains :: "lru_cache \<Rightarrow> string \<Rightarrow> bool" where
  "LRU_Contains c key \<longleftrightarrow> lookup c key \<noteq> None"

section \<open>Invariant and abstraction\<close>

definition lru_inv :: "lru_cache \<Rightarrow> bool" where
  "lru_inv c \<longleftrightarrow>
     distinct (items c)
     \<and> (\<forall>e \<in> set (items c). e < next_elem c)
     \<and> (\<forall>k e. lookup c k = Some e \<longleftrightarrow> e \<in> set (items c) \<and> ci_Key (elems c e) = k)
     \<and> (\<forall>e \<in> set (items c). ci_Size (elems c e) = int (length (ci_Data (elems c e))))
     \<and> currentSize c = (\<Sum>e\<leftarrow>items c. ci_Size (elems c e))
     \<and> (items c = [] \<or> currentSize c \<le> capacity c)
     \<and> capacity c < 2 ^ 63"

type_synonym entry = "string \<times> bytes \<times> time \<times> duration"

definition entry_of :: "cache_item \<Rightarrow> entry" where
  "entry_of item = (ci_Key item, ci_Data item, ci_CreatedAt item, ci_TTL item)"

definition entries :: "lru_cache \<Rightarrow> entry list" where
  "entries c = map (\<lambda>e. entry_of (elems c e)) (items c)"

definition entry_size :: "entry \<Rightarrow> int" where
  "entry_size x = int (length (fst (snd x)))"

definition total_size :: "entry list \<Rightarrow> int" where
  "total_size xs = sum_list (map entry_size xs)"

definition without :: "string \<Rightarrow> entry list \<Rightarrow> entry list" where
  "without k = filter (\<lambda>x. fst x \<noteq> k)"

lemma fst_entry_of [simp]: "fst (entry_of item) = ci_Key item"
  by (simp add: entry_of_def)

lemma entry_size_entry_of: "entry_size (entry_of item) = int (length (ci_Data item))"
  by (simp add: entry_size_def entry_of_def)

lemma entry_size_nonneg [simp]: "0 \<le> entry_size x"
  by (simp add: entry_size_def)

lemma total_size_nonneg [simp]: "0 \<le> total_size xs"
  by (simp add: total_size_def sum_list_map_nonneg)

lemma total_size_simps [simp]:
  "total_size [] = 0" "total_size (x # xs) = entry_size x + total_size xs"
  "total_size (xs @ ys) = total_size xs + total_size ys"
  by (simp_all add: total_size_def)

lemma total_size_filter_le: "total_size (filter P xs) \<le> total_size xs"
  by (induction xs) (auto intro: add_increasing)

lemma lru_invD:
  assumes "lru_inv c"
  shows "distinct (items c)" "e \<in> set (items c) \<Longrightarrow> e < next_elem c"
    "lookup c k = Some e \<longleftrightarrow> e \<in> set (items c) \<and> ci_Key (elems c e) = k"
    "e \<in> set (items c) \<Longrightarrow> ci_Size (elems c e) = int (length (ci_Data (elems c e)))"
    "items c = [] \<or> currentSize c \<le> capacity c" "capacity c < 2 ^ 63"
    "currentSize c = (\<Sum>e\<leftarrow>items c. ci_Size (elems c e))"
  using assms by (auto simp: lru_inv_def)

lemma lru_inv_total: "lru_inv c \<Longrightarrow> currentSize c = total_size (entries c)"
  by (auto simp: lru_inv_def entries_def total_size_def comp_def entry_size_entry_of
      intro!: arg_cong [where f = sum_list] map_cong)

lemma lru_inv_key_inj:
  assumes "lru_inv c" and "e \<in> set (items c)" and "e' \<in> set (items c)"
  shows "ci_Key (elems c e') = ci_Key (elems c e) \<longleftrightarrow> e' = e"
  using lru_invD(3) [OF assms(1)] assms(2,3) by (metis option.inject)

lemma lru_inv_size_in64:
  assumes "lru_inv c"
  shows "0 \<le> currentSize c" "currentSize c < 2 ^ 63"
  using lru_inv_total [OF assms] lru_invD(5,6) [OF assms] lru_invD(7) [OF assms] by auto

lemma entries_keys: "map fst (entries c) = LRU_Keys c"
  by (simp add: entries_def LRU_Keys_def)

lemma lru_inv_distinct_keys: "lru_inv c \<Longrightarrow> distinct (LRU_Keys c)"
  unfolding LRU_Keys_def distinct_map inj_on_def
  using lru_invD(1) lru_inv_key_inj by blast

lemma lookup_SomeD:
  assumes "lru_inv c" and "lookup c k = Some e"
  shows "e \<in> set (items c)" and "ci_Key (elems c e) = k"
  using lru_invD(3) [OF assms(1), THEN iffD1, OF assms(2)] by simp_all

lemma lookup_NoneD:
  assumes "lru_inv c" and "lookup c k = None" and "e \<in> set (items c)"
  shows "ci_Key (elems c e) \<noteq> k"
  using lru_invD(3) [OF assms(1), of k e] assms(2,3) by simp

lemma lookup_entries:
  assumes "lru_inv c"
  shows "map_of (entries c) k = map_option (\<lambda>e. snd (entry_of (elems c e))) (lookup c k)"
proof (cases "lookup c k")
  case None
  have "k \<notin> set (LRU_Keys c)"
    using lookup_NoneD [OF assms None] by (auto simp: LRU_Keys_def)
  then have "k \<notin> fst ` set (entries c)"
    by (simp flip: entries_keys)
  then show ?thesis using None by (simp add: map_of_eq_None_iff)
next
  case (Some e)
  note e = lookup_SomeD [OF assms Some]
  have "entry_of (elems c e) \<in> set (entries c)"
    using e(1) by (simp add: entries_def)
  then have "(k, snd (entry_of (elems c e))) \<in> set (entries c)"
    using e(2) by (simp add: entry_of_def)
  then have "map_of (entries c) k = Some (snd (entry_of (elems c e)))"
    using lru_inv_distinct_keys [OF assms] by (simp add: entries_keys)
  then show ?thesis using Some by simp
qed

section \<open>Removing one element\<close>

lemma removeElement_entries:
  assumes "lru_inv c" and "e \<in> set (items c)"
  shows "entries (removeElement c e) = without (ci_Key (elems c e)) (entries c)"
proof -
  have "remove1 e (items c) = filter (\<lambda>y. ci_Key (elems c y) \<noteq> ci_Key (elems c e)) (items c)"
    using assms by (auto simp: remove1_filter_distinct lru_invD(1) lru_inv_key_inj intro!: filter_cong)
  then show ?thesis
    by (simp add: entries_def without_def removeElement_def Let_def filter_map comp_def)
qed

lemma removeElement_currentSize:
  assumes "lru_inv c" and "e \<in> set (items c)"
  shows "currentSize (removeElement c e) = (\<Sum>x\<leftarrow>remove1 e (items c). ci_Size (elems c x))"
    and "0 \<le> currentSize (removeElement c e)"
    and "currentSize (removeElement c e) \<le> currentSize c"
proof -
  let ?s = "\<Sum>x\<leftarrow>remove1 e (items c). ci_Size (elems c x)"
  have s: "?s = currentSize c - ci_Size (elems c e)"
    using sum_list_remove1 [OF assms(2), of "\<lambda>x. ci_Size (elems c x)"] lru_invD(7) [OF assms(1)]
    by simp
  have "0 \<le> ?s"
    by (rule sum_list_map_nonneg) (auto simp: lru_invD(4) [OF assms(1)] dest: set_remove1_subset [THEN subsetD])
  moreover have "ci_Size (elems c e) \<ge> 0" using lru_invD(4) [OF assms] by simp
  ultimately have "wrap64 (currentSize c - ci_Size (elems c e)) = ?s" and "?s \<le> currentSize c"
    using s lru_inv_size_in64 [OF assms(1)] by (simp_all add: wrap64_nonneg)
  then show "currentSize (removeElement c e) = ?s" "0 \<le> currentSize (removeElement c e)"
    "currentSize (removeElement c e) \<le> currentSize c"
    using \<open>0 \<le> ?s\<close> by (simp_all add: removeElement_def Let_def)
qed

lemma removeElement_frame [simp]:
  "capacity (removeElement c e) = capacity c" "elems (removeElement c e) = elems c"
  "next_elem (removeElement c e) = next_elem c" "hits (removeElement c e) = hits c"
  "misses (removeElement c e) = misses c"
  "lookup (removeElement c e) = (lookup c)(ci_Key (elems c e) := None)"
  by (simp_all add: removeElement_def Let_def)

lemma removeElement_inv:
  assumes "lru_inv c" and "e \<in> set (items c)"
  shows "lru_inv (removeElement c e)"
proof -
  have lk: "lookup (removeElement c e) k = Some x \<longleftrightarrow>
      x \<in> set (remove1 e (items c)) \<and> ci_Key (elems c x) = k" for k x
    using lru_invD(1,3) [OF assms(1)] assms(2) lru_inv_key_inj [OF assms] by auto
  have "items c \<noteq> []" using assms(2) by auto
  then have "currentSize (removeElement c e) \<le> capacity c"
    using removeElement_currentSize(3) [OF assms] lru_invD(5) [OF assms(1)] by auto
  then show ?thesis
    using lk lru_invD(1,2,4,6) [OF assms(1)] removeElement_currentSize(1) [OF assms]
    unfolding lru_inv_def by (auto dest: set_remove1_subset [THEN subsetD])
qed

section \<open>The eviction loop\<close>

text \<open>\<open>fit b xs\<close> is the longest front part of \<open>xs\<close> whose entries take at most \<open>b\<close> bytes.\<close>

fun fit :: "int \<Rightarrow> entry list \<Rightarrow> entry list" where
  "fit b [] = []"
| "fit b (x # xs) = (if b < entry_size x then [] else x # fit (b - entry_size x) xs)"

lemma fit_all: "total_size xs \<le> b \<Longrightarrow> fit b xs = xs"
proof (induction xs arbitrary: b)
  case (Cons x xs)
  have "entry_size x + total_size xs \<le> b" using Cons.prems by simp
  then have "entry_size x \<le> b" using total_size_nonneg [of xs] by linarith
  with Cons show ?case by simp
qed simp

lemma fit_butlast: "b < total_size xs \<Longrightarrow> fit b xs = fit b (butlast xs)"
proof (induction xs arbitrary: b)
  case (Cons x xs)
  then show ?case by (cases "xs = []") auto
qed simp

lemma total_size_fit: "0 \<le> b \<Longrightarrow> total_size (fit b xs) \<le> b"
proof (induction xs arbitrary: b)
  case (Cons x xs)
  show ?case using Cons.IH [of "b - entry_size x"] Cons.prems by auto
qed simp

lemma fit_prefix: "\<exists>zs. xs = fit b xs @ zs"
  by (induction b xs rule: fit.induct) auto

lemma fit_maximal:
  "xs = fit b xs @ z # zs \<Longrightarrow> b < total_size (fit b xs) + entry_size z"
  by (induction b xs rule: fit.induct) (auto split: if_splits)

lemma evictOldest_inv: "lru_inv c \<Longrightarrow> lru_inv (evictOldest c)"
  by (auto simp: evictOldest_def removeElement_inv split: list.splits)

lemma evictOldest_entries:
  assumes "lru_inv c"
  shows "entries (evictOldest c) = butlast (entries c)"
proof (cases "items c = []")
  case False
  then have "evictOldest c = removeElement c (last (items c))"
    by (auto simp: evictOldest_def split: list.splits)
  then show ?thesis
    using remove1_last_distinct [OF lru_invD(1) [OF assms] False]
    by (simp add: entries_def map_butlast)
qed (simp add: evictOldest_def entries_def)

lemma evictOldest_frame [simp]:
  "capacity (evictOldest c) = capacity c" "elems (evictOldest c) = elems c"
  "next_elem (evictOldest c) = next_elem c" "hits (evictOldest c) = hits c"
  "misses (evictOldest c) = misses c"
  by (auto simp: evictOldest_def split: list.splits)

lemma evict_until_frame [simp]:
  "capacity (evict_until c sz) = capacity c \<and> hits (evict_until c sz) = hits c
   \<and> misses (evict_until c sz) = misses c \<and> elems (evict_until c sz) = elems c"
proof (induction c sz rule: evict_until.induct)
  case (1 c sz)
  then show ?case by (auto simp: evict_until.simps [of c sz])
qed

lemma evict_until_inv: "lru_inv c \<Longrightarrow> lru_inv (evict_until c sz)"
proof (induction c sz rule: evict_until.induct)
  case (1 c sz)
  then show ?case by (auto simp: evict_until.simps [of c sz] evictOldest_inv)
qed

lemma entries_Nil_iff: "entries c = [] \<longleftrightarrow> items c = []"
  by (simp add: entries_def)

lemma evict_until_entries:
  assumes "lru_inv c" and "0 \<le> sz" and "max 0 (capacity c) + sz < 2 ^ 63"
  shows "entries (evict_until c sz) = fit (capacity c - sz) (entries c)"
  using assms
proof (induction c sz rule: evict_until.induct)
  case (1 c sz)
  have cs: "currentSize c = total_size (entries c)"
    by (rule lru_inv_total) (rule 1)
  have "currentSize c \<le> max 0 (capacity c)"
    using lru_invD(5,7) [OF "1.prems"(1)] by (auto simp: max_def)
  then have w: "wrap64 (currentSize c + sz) = total_size (entries c) + sz"
    using 1 lru_inv_size_in64(1) [OF "1.prems"(1)] by (simp add: wrap64_nonneg cs)
  show ?case
  proof (cases "capacity c < wrap64 (currentSize c + sz) \<and> items c \<noteq> []")
    case True
    then have "entries (evict_until c sz) = fit (capacity c - sz) (entries (evictOldest c))"
      using "1.IH" [OF True] 1 by (simp add: evict_until.simps [of c sz] evictOldest_inv)
    also have "\<dots> = fit (capacity c - sz) (entries c)"
      using True w by (simp add: evictOldest_entries "1.prems"(1) fit_butlast [symmetric])
    finally show ?thesis .
  next
    case False
    then have "total_size (entries c) \<le> capacity c - sz \<or> entries c = []"
      using w by (auto simp: entries_Nil_iff)
    then have "fit (capacity c - sz) (entries c) = entries c"
      by (auto simp: fit_all)
    with False show ?thesis by (auto simp: evict_until.simps [of c sz])
  qed
qed

section \<open>What each operation does\<close>

definition entry_live :: "time \<Rightarrow> entry \<Rightarrow> bool" where
  "entry_live now x = (case x of (_, _, created, ttl) \<Rightarrow>
     \<not> (0 < ttl \<and> ttl < time_sub now created))"

definition spec_put ::
    "int \<Rightarrow> time \<Rightarrow> string \<Rightarrow> bytes \<Rightarrow> duration \<Rightarrow> entry list \<Rightarrow> entry list" where
  "spec_put cap now k d ttl xs =
     (if cap < int (length d) then []
      else (k, d, now, ttl) # fit (cap - int (length d)) (without k xs))"

definition spec_get :: "time \<Rightarrow> string \<Rightarrow> entry list \<Rightarrow> entry list \<times> bytes option" where
  "spec_get now k xs =
     (case map_of xs k of
        None \<Rightarrow> (xs, None)
      | Some v \<Rightarrow> if entry_live now (k, v) then ((k, v) # without k xs, Some (fst v))
                  else (without k xs, None))"

lemma expired_entry: "expired now item \<longleftrightarrow> \<not> entry_live now (entry_of item)"
  by (simp add: expired_def entry_live_def entry_of_def)

lemma key_entry_of: "(ci_Key item, snd (entry_of item)) = entry_of item"
  by (simp add: entry_of_def)

text \<open>\<open>drop_existing\<close> is \<open>removeElement\<close> of the element the key leads to.\<close>

lemma drop_existing_eq:
  assumes "lru_inv c"
  shows "drop_existing c k =
    (case lookup c k of None \<Rightarrow> c | Some e \<Rightarrow> removeElement c e)"
  using lookup_SomeD [OF assms]
  by (auto simp: drop_existing_def removeElement_def Let_def split: option.splits)

lemma without_absent: "k \<notin> fst ` set xs \<Longrightarrow> without k xs = xs"
  unfolding without_def by (rule filter_True) auto

lemma lookup_None_without:
  assumes "lru_inv c" and "lookup c k = None"
  shows "without k (entries c) = entries c"
proof (rule without_absent)
  have "map_of (entries c) k = None" by (simp add: lookup_entries assms)
  then show "k \<notin> fst ` set (entries c)" by (simp add: map_of_eq_None_iff)
qed

lemma drop_existing_correct:
  assumes "lru_inv c"
  shows "lru_inv (drop_existing c k)" "entries (drop_existing c k) = without k (entries c)"
    "capacity (drop_existing c k) = capacity c"
  using assms lookup_SomeD [OF assms]
  by (auto simp: drop_existing_eq [OF assms] removeElement_inv removeElement_entries
      lookup_None_without split: option.splits)

lemma lru_inv_stats [simp]: "lru_inv (c\<lparr>misses := m\<rparr>) = lru_inv c"
  by (simp add: lru_inv_def)

lemma entries_stats [simp]: "entries (c\<lparr>misses := m\<rparr>) = entries c"
  by (simp add: entries_def)

lemma push_item_inv:
  assumes inv: "lru_inv c" and sz: "ci_Size item = int (length (ci_Data item))"
    and fresh: "ci_Key item \<notin> set (LRU_Keys c)"
    and room: "currentSize c + ci_Size item \<le> capacity c"
  shows "lru_inv (push_item c item)" "entries (push_item c item) = entry_of item # entries c"
proof -
  define c' where "c' = push_item c item"
  let ?e = "next_elem c"
  have e: "?e \<notin> set (items c)" using lru_invD(2) [OF inv] by blast
  have "wrap64 (currentSize c + ci_Size item) = currentSize c + ci_Size item"
    using room sz lru_inv_size_in64 [OF inv] lru_invD(6) [OF inv] by (simp add: wrap64_nonneg)
  then have c': "items c' = ?e # items c" "lookup c' = (lookup c)(ci_Key item \<mapsto> ?e)"
      "currentSize c' = currentSize c + ci_Size item" "next_elem c' = Suc ?e"
      "capacity c' = capacity c" "elems c' ?e = item"
    by (simp_all add: c'_def push_item_def Let_def)
  have old: "elems c' x = elems c x" if "x \<in> set (items c)" for x
    using that e by (auto simp: c'_def push_item_def Let_def)
  have k: "ci_Key (elems c x) \<noteq> ci_Key item" if "x \<in> set (items c)" for x
    using that fresh unfolding LRU_Keys_def set_map by (metis imageI)
  have all: "(\<forall>x \<in> set (items c'). P x (elems c' x)) \<longleftrightarrow>
      P ?e item \<and> (\<forall>x \<in> set (items c). P x (elems c x))" for P
    using old by (simp add: c')
  have maps: "map (\<lambda>x. f (elems c' x)) (items c') = f item # map (\<lambda>x. f (elems c x)) (items c)"
    for f :: "cache_item \<Rightarrow> 'b"
    using old by (simp add: c')
  have lk: "lookup c' k' = Some x \<longleftrightarrow> x \<in> set (items c') \<and> ci_Key (elems c' x) = k'" for k' x
    using e k old lru_invD(3) [OF inv, of k' x] by (cases "x = ?e") (auto simp: c')
  show "entries (push_item c item) = entry_of item # entries c"
    unfolding c'_def [symmetric] entries_def by (rule maps)
  have "currentSize c' = (\<Sum>x\<leftarrow>items c'. ci_Size (elems c' x))"
    unfolding maps using lru_invD(7) [OF inv] by (simp add: c'(3))
  moreover have "\<forall>x \<in> set (items c'). x < next_elem c'"
    using lru_invD(2) [OF inv] by (auto simp: c' less_Suc_eq)
  moreover have "distinct (items c')" using e lru_invD(1) [OF inv] by (simp add: c')
  moreover have "\<forall>x \<in> set (items c'). ci_Size (elems c' x) = int (length (ci_Data (elems c' x)))"
    using sz lru_invD(4) [OF inv] all [of "\<lambda>_ y. ci_Size y = int (length (ci_Data y))"] by simp
  ultimately show "lru_inv (push_item c item)"
    unfolding c'_def [symmetric] lru_inv_def using lk room lru_invD(6) [OF inv]
    by (simp add: c'(3,5))
qed

lemma put_entries_aux:
  assumes inv: "lru_inv c" and room: "max 0 (capacity c) + int (length d) < 2 ^ 63"
  shows "lru_inv (LRU_PutWithTTL now c k d ttl)
    \<and> entries (LRU_PutWithTTL now c k d ttl) = spec_put (capacity c) now k d ttl (entries c)
    \<and> capacity (LRU_PutWithTTL now c k d ttl) = capacity c"
proof -
  define sz where "sz = int (length d)"
  define c2 where "c2 = evict_until (drop_existing c k) sz"
  note d = drop_existing_correct [OF inv, of k]
  have i2: "lru_inv c2" and cap2: "capacity c2 = capacity c"
    by (simp_all add: c2_def evict_until_inv d)
  have e2: "entries c2 = fit (capacity c - sz) (without k (entries c))"
    using evict_until_entries [OF d(1), of sz] room by (simp add: c2_def d(2,3) sz_def)
  show ?thesis
  proof (cases "capacity c < sz")
    case True
    then have "entries c2 = []"
      by (cases "without k (entries c)") (auto simp: e2 intro: less_le_trans [OF _ entry_size_nonneg])
    with True show ?thesis
      using i2 cap2
      by (simp add: LRU_PutWithTTL_def spec_put_def c2_def [symmetric] sz_def [symmetric] Let_def d(3))
  next
    case False
    define it where "it = \<lparr>ci_Key = k, ci_Data = d, ci_Size = sz, ci_CreatedAt = now,
      ci_AccessedAt = now, ci_TTL = ttl\<rparr>"
    have put: "LRU_PutWithTTL now c k d ttl = push_item c2 it"
      using False cap2
      by (simp add: LRU_PutWithTTL_def c2_def [symmetric] sz_def [symmetric] it_def Let_def d(3))
    have "set (LRU_Keys c2) \<subseteq> fst ` set (without k (entries c))"
      using fit_prefix [of "without k (entries c)" "capacity c - sz"]
      by (metis e2 entries_keys image_mono set_append set_map sup_ge1)
    then have fresh: "ci_Key it \<notin> set (LRU_Keys c2)"
      by (auto simp: it_def without_def)
    have "currentSize c2 + ci_Size it \<le> capacity c2"
      using total_size_fit [of "capacity c - sz" "without k (entries c)"] False
      by (simp add: lru_inv_total [OF i2] e2 it_def cap2)
    from push_item_inv [OF i2 _ fresh this] False show ?thesis
      by (simp add: put it_def sz_def e2 spec_put_def entry_of_def cap2)
        (simp add: push_item_def Let_def cap2)
  qed
qed

lemma move_to_front_inv:
  assumes inv: "lru_inv c" and e: "e \<in> set (items c)"
    and item: "entry_of item = entry_of (elems c e)" "ci_Size item = ci_Size (elems c e)"
    and c': "c' = c\<lparr>items := e # remove1 e (items c), elems := (elems c)(e := item), hits := h\<rparr>"
  shows "lru_inv c'"
    "entries c' = entry_of (elems c e) # without (ci_Key (elems c e)) (entries c)"
proof -
  have same: "entry_of (elems c' x) = entry_of (elems c x)" "ci_Size (elems c' x) = ci_Size (elems c x)"
    for x by (simp_all add: c' item)
  have key: "ci_Key (elems c' x) = ci_Key (elems c x)" "ci_Data (elems c' x) = ci_Data (elems c x)"
    for x using same(1) [of x] by (simp_all add: entry_of_def)
  have set': "set (items c') = set (items c)"
    using e lru_invD(1) [OF inv] by (auto simp: c')
  have "entries (removeElement c e) = map (\<lambda>x. entry_of (elems c x)) (remove1 e (items c))"
    by (simp add: entries_def)
  then show "entries c' = entry_of (elems c e) # without (ci_Key (elems c e)) (entries c)"
    using removeElement_entries [OF inv e] same(1)
    by (simp add: entries_def) (simp add: c' item)
  have "currentSize c' = (\<Sum>x\<leftarrow>items c'. ci_Size (elems c' x))"
    using sum_list_remove1 [OF e, of "\<lambda>x. ci_Size (elems c x)"] lru_invD(7) [OF inv]
    by (simp only: same(2)) (simp add: c')
  moreover have "lookup c' k = Some x \<longleftrightarrow> x \<in> set (items c') \<and> ci_Key (elems c' x) = k" for k x
    using lru_invD(3) [OF inv, of k x] by (simp only: set' key) (simp add: c')
  moreover have "distinct (items c')" "capacity c' = capacity c" "currentSize c' = currentSize c"
      "next_elem c' = next_elem c" "items c \<noteq> []"
    using lru_invD(1) [OF inv] e by (auto simp: c')
  ultimately show "lru_inv c'"
    using lru_invD(2,4,5,6) [OF inv] by (simp add: lru_inv_def set' key same(2))
qed

lemma get_entries_aux:
  assumes inv: "lru_inv c"
  shows "lru_inv (fst (LRU_Get now c k))
    \<and> (entries (fst (LRU_Get now c k)), snd (LRU_Get now c k)) = spec_get now k (entries c)
    \<and> capacity (fst (LRU_Get now c k)) = capacity c"
proof (cases "lookup c k")
  case None
  have "spec_get now k (entries c) = (entries c, None)"
    using None by (simp add: spec_get_def lookup_entries inv)
  then show ?thesis using None inv by (simp add: LRU_Get_def)
next
  case (Some e)
  note e = lookup_SomeD [OF inv Some]
  have m: "map_of (entries c) k = Some (snd (entry_of (elems c e)))"
    using Some by (simp add: lookup_entries inv)
  have k: "(k, snd (entry_of (elems c e))) = entry_of (elems c e)"
    using e(2) by (simp add: entry_of_def)
  show ?thesis
  proof (cases "expired now (elems c e)")
    case True
    have r: "LRU_Get now c k = ((removeElement c e)\<lparr>misses := wrap64 (misses c + 1)\<rparr>, None)"
      using Some True by (simp add: LRU_Get_def Let_def)
    have "lru_inv ((removeElement c e)\<lparr>misses := m\<rparr>)" for m
      using removeElement_inv [OF inv e(1)] by simp
    moreover have "entries ((removeElement c e)\<lparr>misses := m\<rparr>) = without k (entries c)" for m
      using removeElement_entries [OF inv e(1)] e(2) by simp
    moreover have "spec_get now k (entries c) = (without k (entries c), None)"
      using True m k by (simp add: spec_get_def expired_entry)
    ultimately show ?thesis by (simp add: r)
  next
    case False
    define c' where "c' = c\<lparr>items := e # remove1 e (items c),
      elems := (elems c)(e := (elems c e)\<lparr>ci_AccessedAt := now\<rparr>), hits := wrap64 (hits c + 1)\<rparr>"
    have r: "LRU_Get now c k = (c', Some (ci_Data (elems c e)))"
      using Some False by (simp add: LRU_Get_def Let_def c'_def)
    have "lru_inv c'" "entries c' = entry_of (elems c e) # without k (entries c)"
      using move_to_front_inv [OF inv e(1) _ _ c'_def] e(2) by (simp_all add: entry_of_def)
    moreover have "spec_get now k (entries c) =
        (entry_of (elems c e) # without k (entries c), Some (ci_Data (elems c e)))"
      using False m k by (simp add: spec_get_def expired_entry) (simp add: entry_of_def)
    ultimately show ?thesis by (simp add: r c'_def)
  qed
qed

section \<open>Delete, clear, expiry\<close>

lemma delete_entries:
  assumes inv: "lru_inv c"
  shows "lru_inv (fst (LRU_Delete c k))"
    "entries (fst (LRU_Delete c k)) = without k (entries c)"
    "snd (LRU_Delete c k) \<longleftrightarrow> k \<in> set (LRU_Keys c)"
proof -
  have "drop_existing c k = fst (LRU_Delete c k)"
    by (simp add: drop_existing_eq [OF inv] LRU_Delete_def split: option.splits)
  with drop_existing_correct [OF inv, of k]
  show "lru_inv (fst (LRU_Delete c k))" "entries (fst (LRU_Delete c k)) = without k (entries c)"
    by simp_all
  have "snd (LRU_Delete c k) \<longleftrightarrow> map_of (entries c) k \<noteq> None"
    by (simp add: lookup_entries inv LRU_Delete_def split: option.splits)
  also have "\<dots> \<longleftrightarrow> k \<in> set (LRU_Keys c)"
    by (simp add: map_of_eq_None_iff flip: entries_keys)
  finally show "snd (LRU_Delete c k) \<longleftrightarrow> k \<in> set (LRU_Keys c)" .
qed

lemma clear_inv: "lru_inv c \<Longrightarrow> lru_inv (LRU_Clear c) \<and> entries (LRU_Clear c) = []"
  by (simp add: lru_inv_def LRU_Clear_def entries_def)

lemma remove_many:
  assumes "lru_inv c" and "distinct es" and "set es \<subseteq> set (items c)"
  shows "lru_inv (foldl removeElement c es)
    \<and> items (foldl removeElement c es) = filter (\<lambda>e. e \<notin> set es) (items c)
    \<and> elems (foldl removeElement c es) = elems c
    \<and> capacity (foldl removeElement c es) = capacity c"
  using assms
proof (induction es arbitrary: c)
  case (Cons e es)
  have "set es \<subseteq> set (items (removeElement c e))"
    using Cons.prems lru_invD(1) [OF Cons.prems(1)] by auto
  then have IH: "lru_inv (foldl removeElement (removeElement c e) es)
      \<and> items (foldl removeElement (removeElement c e) es)
          = filter (\<lambda>x. x \<notin> set es) (items (removeElement c e))
      \<and> elems (foldl removeElement (removeElement c e) es) = elems c
      \<and> capacity (foldl removeElement (removeElement c e) es) = capacity c"
    using Cons.IH [of "removeElement c e"] Cons.prems by (simp add: removeElement_inv)
  have "filter (\<lambda>x. x \<notin> set es) (remove1 e (items c)) = filter (\<lambda>x. x \<notin> set (e # es)) (items c)"
    using lru_invD(1) [OF Cons.prems(1)]
    by (auto simp: remove1_filter_distinct intro!: filter_cong)
  with IH show ?case by simp
qed simp

lemma cleanup_entries:
  assumes inv: "lru_inv c"
  shows "lru_inv (fst (LRU_CleanupExpired now c))"
    "entries (fst (LRU_CleanupExpired now c)) = filter (entry_live now) (entries c)"
    "snd (LRU_CleanupExpired now c) = int (length (filter (\<lambda>x. \<not> entry_live now x) (entries c)))"
    "capacity (fst (LRU_CleanupExpired now c)) = capacity c"
proof -
  define dead where "dead = filter (\<lambda>e. expired now (elems c e)) (rev (items c))"
  have r: "LRU_CleanupExpired now c = (foldl removeElement c dead, int (length dead))"
    by (simp add: LRU_CleanupExpired_def dead_def Let_def)
  have "distinct dead" "set dead \<subseteq> set (items c)"
    using lru_invD(1) [OF inv] by (auto simp: dead_def)
  note m = remove_many [OF inv this]
  have "filter (\<lambda>e. e \<notin> set dead) (items c) = filter (\<lambda>e. \<not> expired now (elems c e)) (items c)"
    by (rule filter_cong) (auto simp: dead_def)
  then show "entries (fst (LRU_CleanupExpired now c)) = filter (entry_live now) (entries c)"
    using m by (simp add: r entries_def filter_map comp_def expired_entry)
  show "lru_inv (fst (LRU_CleanupExpired now c))"
    "capacity (fst (LRU_CleanupExpired now c)) = capacity c"
    using m by (simp_all add: r)
  show "snd (LRU_CleanupExpired now c) = int (length (filter (\<lambda>x. \<not> entry_live now x) (entries c)))"
    by (simp add: r dead_def entries_def filter_map comp_def expired_entry flip: rev_filter)
qed

section \<open>The interface, provided\<close>

definition lru_content :: "lru_cache \<Rightarrow> string \<Rightarrow> cached option" where
  "lru_content c k = map_of (entries c) k"

lemma entry_live_live: "entry_live now (k, v) = live now v"
  by (simp add: entry_live_def live_def split: prod.splits)

lemma map_of_without: "map_of (without k xs) k' = (if k' = k then None else map_of xs k')"
  by (induction xs) (auto simp: without_def)

lemma map_of_fit: "distinct (map fst xs) \<Longrightarrow> map_of (fit b xs) k = Some v \<Longrightarrow> map_of xs k = Some v"
proof (induction b xs rule: fit.induct)
  case (2 b x xs)
  then show ?case by (cases x) (auto split: if_splits)
qed simp

interpretation lru: content_cache lru_inv capacity lru_content LRU_Get LRU_PutWithTTL
proof unfold_locales
  fix c k now
  assume inv: "lru_inv c"
  note g = get_entries_aux [OF inv, of now k]
  then show "lru_inv (fst (LRU_Get now c k))" "capacity (fst (LRU_Get now c k)) = capacity c"
    by simp_all
  have g': "entries (fst (LRU_Get now c k)) = fst (spec_get now k (entries c))"
      "snd (LRU_Get now c k) = snd (spec_get now k (entries c))"
    using g by (metis fst_conv, metis snd_conv)
  show "snd (LRU_Get now c k) = (case lru_content c k of None \<Rightarrow> None
      | Some v \<Rightarrow> if live now v then Some (fst v) else None)"
    by (simp add: g' spec_get_def lru_content_def entry_live_live split: option.splits)
  show "lru_content (fst (LRU_Get now c k)) k' = (case lru_content c k of
         None \<Rightarrow> lru_content c k'
       | Some v \<Rightarrow> if k' = k \<and> \<not> live now v then None else lru_content c k')" for k'
    by (auto simp: lru_content_def g' spec_get_def entry_live_live map_of_without split: option.splits)
next
  fix c and d :: bytes and now k ttl
  assume inv: "lru_inv c" and room: "max 0 (capacity c) + int (length d) < 2 ^ 63"
  note p = put_entries_aux [OF inv room, of now k ttl]
  then show "lru_inv (LRU_PutWithTTL now c k d ttl)"
    "capacity (LRU_PutWithTTL now c k d ttl) = capacity c"
    by simp_all
  show "lru_content (LRU_PutWithTTL now c k d ttl) k =
      (if capacity c < int (length d) then None else Some (d, now, ttl))"
    using p by (simp add: lru_content_def spec_put_def)
  have dk: "distinct (map fst (without k (entries c)))"
    using lru_inv_distinct_keys [OF inv]
    by (simp add: without_def entries_keys [symmetric] distinct_map_filter)
  show "lru_content c k' = Some v"
    if "k' \<noteq> k" "lru_content (LRU_PutWithTTL now c k d ttl) k' = Some v" for k' v
    using that p map_of_fit [OF dk, of "capacity c - int (length d)" k' v]
    by (auto simp: lru_content_def spec_put_def map_of_without split: if_splits)
qed

lemma NewLRUCache_inv: "cap < 2 ^ 63 \<Longrightarrow> lru_inv (NewLRUCache cap)"
  by (simp add: lru_inv_def NewLRUCache_def)

lemma NewLRUCache_entries [simp]: "entries (NewLRUCache cap) = []"
  by (simp add: entries_def NewLRUCache_def)

lemma NewLRUCache_capacity [simp]: "capacity (NewLRUCache cap) = cap"
  by (simp add: NewLRUCache_def)

lemma one_put_cache:
  assumes "cap < 2 ^ 62" and "int (length d) \<le> cap"
  shows "lru_inv (LRU_PutWithTTL now (NewLRUCache cap) k d ttl)"
    and "entries (LRU_PutWithTTL now (NewLRUCache cap) k d ttl) = [(k, d, now, ttl)]"
proof -
  have inv: "lru_inv (NewLRUCache cap)" using assms(1) by (simp add: NewLRUCache_inv)
  have "max 0 (capacity (NewLRUCache cap)) + int (length d) < 2 ^ 63" using assms by simp
  from put_entries_aux [OF inv this, of now k ttl] assms(2)
  show "lru_inv (LRU_PutWithTTL now (NewLRUCache cap) k d ttl)"
    "entries (LRU_PutWithTTL now (NewLRUCache cap) k d ttl) = [(k, d, now, ttl)]"
    by (simp_all add: spec_put_def without_def)
qed

section \<open>Histories of calls\<close>

datatype lru_op =
    OpGet time string
  | OpPut time string bytes duration
  | OpDelete string
  | OpClear
  | OpCleanup time

fun lru_step :: "lru_cache \<Rightarrow> lru_op \<Rightarrow> lru_cache" where
  "lru_step c (OpGet now k) = fst (LRU_Get now c k)"
| "lru_step c (OpPut now k d ttl) = LRU_PutWithTTL now c k d ttl"
| "lru_step c (OpDelete k) = fst (LRU_Delete c k)"
| "lru_step c OpClear = LRU_Clear c"
| "lru_step c (OpCleanup now) = fst (LRU_CleanupExpired now c)"

fun spec_step :: "int \<Rightarrow> entry list \<Rightarrow> lru_op \<Rightarrow> entry list" where
  "spec_step cap xs (OpGet now k) = fst (spec_get now k xs)"
| "spec_step cap xs (OpPut now k d ttl) = spec_put cap now k d ttl xs"
| "spec_step cap xs (OpDelete k) = without k xs"
| "spec_step cap xs OpClear = []"
| "spec_step cap xs (OpCleanup now) = filter (entry_live now) xs"

fun op_fits :: "int \<Rightarrow> lru_op \<Rightarrow> bool" where
  "op_fits cap (OpPut now k d ttl) = (max 0 cap + int (length d) < 2 ^ 63)"
| "op_fits cap _ = True"

abbreviation lru_run :: "lru_cache \<Rightarrow> lru_op list \<Rightarrow> lru_cache" where
  "lru_run \<equiv> foldl lru_step"

abbreviation spec_run :: "int \<Rightarrow> entry list \<Rightarrow> lru_op list \<Rightarrow> entry list" where
  "spec_run cap \<equiv> foldl (spec_step cap)"

lemma fst_spec_get:
  assumes "lru_inv c"
  shows "entries (fst (LRU_Get now c k)) = fst (spec_get now k (entries c))"
    and "snd (LRU_Get now c k) = snd (spec_get now k (entries c))"
  using get_entries_aux [OF assms, of now k] by (metis fst_conv, metis snd_conv)

lemma delete_capacity: "lru_inv c \<Longrightarrow> capacity (fst (LRU_Delete c k)) = capacity c"
  by (simp add: LRU_Delete_def split: option.splits)

lemma lru_step_refines:
  assumes "lru_inv c" and "op_fits (capacity c) p"
  shows "lru_inv (lru_step c p) \<and> entries (lru_step c p) = spec_step (capacity c) (entries c) p
    \<and> capacity (lru_step c p) = capacity c"
  using assms(2)
  by (cases p)
    (simp_all add: assms(1) fst_spec_get lru.get_inv lru.get_cap put_entries_aux delete_entries
      delete_capacity clear_inv cleanup_entries, simp_all add: LRU_Clear_def)

lemma lru_run_refines_aux:
  assumes "lru_inv c" and "list_all (op_fits (capacity c)) ps"
  shows "lru_inv (lru_run c ps) \<and> entries (lru_run c ps) = spec_run (capacity c) (entries c) ps
    \<and> capacity (lru_run c ps) = capacity c"
  using assms
proof (induction ps arbitrary: c)
  case (Cons p ps)
  have "lru_inv (lru_step c p)" "entries (lru_step c p) = spec_step (capacity c) (entries c) p"
      "capacity (lru_step c p) = capacity c"
    using lru_step_refines [OF Cons.prems(1), of p] Cons.prems(2) by simp_all
  with Cons.IH [of "lru_step c p"] Cons.prems(2) show ?case by simp
qed simp

lemma lru_inv_size_bound:
  assumes "lru_inv c"
  shows "0 \<le> LRU_Size c" "LRU_Size c \<le> max 0 (capacity c)"
  using lru_inv_size_in64(1) [OF assms] lru_invD(5,7) [OF assms] by (auto simp: LRU_Size_def max_def)

text \<open>Until a counter overflows, the reported hit rate is a float between 0 and 1.\<close>

lemma hit_rate_bounds:
  assumes "0 \<le> hits c" and "0 \<le> misses c" and "hits c + misses c < 2 ^ 63"
  shows "0 \<le> cs_HitRate (LRU_Stats c) \<and> cs_HitRate (LRU_Stats c) \<le> 1"
proof -
  have t: "wrap64 (hits c + misses c) = hits c + misses c" using assms by (intro wrap64_nonneg) simp_all
  have h: "0 \<le> f_of_int (hits c)" "f_of_int (hits c) \<le> f_of_int (hits c + misses c)"
    using assms by (simp_all add: f_of_int_def fl_mono)
  then have "f_of_int (hits c) / f_of_int (hits c + misses c) \<le> 1"
    by (cases "f_of_int (hits c + misses c) = 0") simp_all
  then have "f_div (f_of_int (hits c)) (f_of_int (hits c + misses c)) \<le> 1"
    using fl_mono [of _ 1] by (simp add: f_div_def)
  moreover have "0 \<le> f_div (f_of_int (hits c)) (f_of_int (hits c + misses c))"
    using h by (simp add: f_div_def)
  ultimately show ?thesis by (simp add: LRU_Stats_def t Let_def)
qed

section \<open>Properties\<close>

text \<open>
  C8. Whatever calls are made on a new cache, in any order, the linked list, the key map
  and the byte counter stay consistent; read as a list of entries, most recently used
  first, the cache is what the list specification computes; and the bytes it reports are
  the sum of the sizes of its entries and never exceed the capacity.  The hypotheses
  exclude only capacities and values whose sizes add up beyond the \<open>int64\<close> range.
\<close>

theorem lru_history_correct:
  assumes "cap < 2 ^ 63" and "list_all (op_fits cap) ps"
  defines "c \<equiv> lru_run (NewLRUCache cap) ps"
  shows "lru_inv c \<and> entries c = spec_run cap [] ps
    \<and> LRU_Size c = total_size (entries c) \<and> 0 \<le> LRU_Size c \<and> LRU_Size c \<le> max 0 cap"
proof -
  have "lru_inv c" "entries c = spec_run cap [] ps" "capacity c = cap"
    using lru_run_refines_aux [OF NewLRUCache_inv [OF assms(1)], of ps] assms(2)
    by (simp_all add: c_def)
  with lru_inv_size_bound [of c] lru_inv_total [of c] show ?thesis by (simp add: LRU_Size_def)
qed

theorem lru_history_correct_witness:
  "LRU_Keys (lru_run (NewLRUCache 4) [OpPut 0 ''a'' ''xx'' 0, OpPut 1 ''b'' ''yy'' 0,
      OpGet 2 ''a'', OpPut 3 ''c'' ''z'' 0]) = [''c'', ''a'']"
proof -
  let ?ps = "[OpPut 0 ''a'' ''xx'' 0, OpPut 1 ''b'' ''yy'' 0, OpGet 2 ''a'', OpPut 3 ''c'' ''z'' 0]"
  have "list_all (op_fits 4) ?ps" by simp
  from lru_history_correct [OF _ this]
  have "entries (lru_run (NewLRUCache 4) ?ps) = spec_run 4 [] ?ps" by simp
  also have "\<dots> = [(''c'', ''z'', 3, 0), (''a'', ''xx'', 0, 0)]"
    by (simp add: spec_put_def spec_get_def without_def entry_live_def entry_size_def)
  finally show ?thesis by (simp flip: entries_keys)
qed

text \<open>
  C22. \<open>PutWithTTL\<close> of a value that fits puts it in front and evicts from the least recently
  used end only, as little as possible: the other entries that stay are a front part of the
  old ones in their old order, everything together fits the capacity, and keeping one more
  entry would not.
\<close>

theorem lru_put_evicts_least:
  assumes "lru_inv c" and "max 0 (capacity c) + int (length d) < 2 ^ 63"
    and "int (length d) \<le> capacity c"
  shows "\<exists>kept evicted. entries (LRU_PutWithTTL now c k d ttl) = (k, d, now, ttl) # kept
    \<and> without k (entries c) = kept @ evicted
    \<and> int (length d) + total_size kept \<le> capacity c
    \<and> (evicted \<noteq> [] \<longrightarrow> capacity c < int (length d) + total_size kept + entry_size (hd evicted))"
proof -
  let ?ys = "without k (entries c)" and ?b = "capacity c - int (length d)"
  obtain zs where zs: "?ys = fit ?b ?ys @ zs" using fit_prefix by blast
  have "capacity c < int (length d) + total_size (fit ?b ?ys) + entry_size (hd zs)" if "zs \<noteq> []"
    using fit_maximal [of ?ys ?b "hd zs" "tl zs"] zs that by simp
  moreover have "int (length d) + total_size (fit ?b ?ys) \<le> capacity c"
    using total_size_fit [of ?b ?ys] assms(3) by simp
  moreover have "entries (LRU_PutWithTTL now c k d ttl) = (k, d, now, ttl) # fit ?b ?ys"
    using put_entries_aux [OF assms(1,2)] assms(3) by (simp add: spec_put_def)
  ultimately show ?thesis using zs by blast
qed

theorem lru_put_evicts_least_witness:
  "\<exists>kept evicted. entries (LRU_PutWithTTL 1 (LRU_PutWithTTL 0 (NewLRUCache 3) ''b'' ''yy'' 0) ''a'' ''xx'' 0)
       = (''a'', ''xx'', 1, 0) # kept
    \<and> [(''b'', ''yy'', 0, 0)] = kept @ evicted \<and> int (length ''xx'') + total_size kept \<le> 3
    \<and> (evicted \<noteq> [] \<longrightarrow> 3 < int (length ''xx'') + total_size kept + entry_size (hd evicted))"
proof -
  let ?c = "LRU_PutWithTTL 0 (NewLRUCache 3) ''b'' ''yy'' 0"
  have "lru_inv ?c" "entries ?c = [(''b'', ''yy'', 0, 0)]"
    using one_put_cache [of 3 "''yy''" 0 "''b''" 0] by simp_all
  moreover have "capacity ?c = 3"
    using lru.put_cap [OF NewLRUCache_inv [of 3]] by simp
  ultimately show ?thesis
    using lru_put_evicts_least [of ?c "''xx''" 1 "''a''" 0] by (simp add: without_def)
qed

text \<open>
  A value larger than the capacity is not stored, but the eviction loop runs before the
  size check: every entry of the cache is dropped for it.
\<close>

theorem lru_oversized_put_empties:
  assumes "lru_inv c" and "max 0 (capacity c) + int (length d) < 2 ^ 63"
    and "capacity c < int (length d)"
  shows "LRU_Keys (LRU_PutWithTTL now c k d ttl) = [] \<and> LRU_Size (LRU_PutWithTTL now c k d ttl) = 0"
proof -
  have "lru_inv (LRU_PutWithTTL now c k d ttl)" "entries (LRU_PutWithTTL now c k d ttl) = []"
    using put_entries_aux [OF assms(1,2)] assms(3) by (simp_all add: spec_put_def)
  then show ?thesis
    using lru_inv_total by (simp add: LRU_Size_def flip: entries_keys)
qed

theorem lru_oversized_put_empties_witness:
  "LRU_Keys (LRU_PutWithTTL 1 (LRU_PutWithTTL 0 (NewLRUCache 2) ''a'' ''x'' 0) ''b'' ''yyy'' 0) = []"
proof -
  let ?c = "LRU_PutWithTTL 0 (NewLRUCache 2) ''a'' ''x'' 0"
  have "lru_inv ?c" "capacity ?c = 2"
    using lru.put_inv [OF NewLRUCache_inv [of 2]] lru.put_cap [OF NewLRUCache_inv [of 2]]
    by (simp_all add: NewLRUCache_def)
  then show ?thesis using lru_oversized_put_empties [of ?c "''yyy''" 1 "''b''" 0] by simp
qed

text \<open>
  C23. After any history of \<open>Get\<close> and \<open>PutWithTTL\<close> calls on a new cache, a hit returns the
  data of the most recent put under that key, and that put has not outlived its TTL.
\<close>

theorem lru_hit_is_last_write:
  assumes "cap < 2 ^ 63" and "list_all (call_fits cap) xs"
    and "snd (LRU_Get now (cache_run LRU_Get LRU_PutWithTTL (NewLRUCache cap) xs) k) = Some d"
  shows "\<exists>created ttl. last_writes Map.empty xs k = Some (d, created, ttl)
    \<and> live now (d, created, ttl)"
proof (rule lru.run_get_last_write [OF NewLRUCache_inv [OF assms(1)] _ _ assms(3)])
  show "list_all (call_fits (capacity (NewLRUCache cap))) xs"
    using assms(2) by (simp add: NewLRUCache_def)
  show "lru_content (NewLRUCache cap) = Map.empty"
    by (simp add: lru_content_def fun_eq_iff)
qed

theorem lru_hit_is_last_write_witness:
  "\<exists>created ttl. last_writes Map.empty [CallPut 0 ''a'' ''x'' 0, CallPut 1 ''a'' ''y'' 5] ''a''
     = Some (''y'', created, ttl) \<and> live 4 (''y'', created, ttl)"
proof (rule lru_hit_is_last_write [where cap = 9])
  show "snd (LRU_Get 4 (cache_run LRU_Get LRU_PutWithTTL (NewLRUCache 9)
      [CallPut 0 ''a'' ''x'' 0, CallPut 1 ''a'' ''y'' 5]) ''a'') = Some ''y''"
    by code_simp
qed simp_all

text \<open>
  \<open>Get\<close> returns an entry exactly when the key is present and not past its TTL.  A hit
  moves the entry to the front and leaves the order of the others; an expired entry is
  removed; a miss changes no entry; and every call counts as exactly one hit or one miss.
\<close>

theorem lru_get_correct:
  assumes "lru_inv c" and "LRU_Get now c k = (c', r)"
  shows "case map_of (entries c) k of
      None \<Rightarrow> r = None \<and> entries c' = entries c \<and> misses c' = wrap64 (misses c + 1) \<and> hits c' = hits c
    | Some v \<Rightarrow>
        if entry_live now (k, v)
        then r = Some (fst v) \<and> entries c' = (k, v) # without k (entries c)
          \<and> hits c' = wrap64 (hits c + 1) \<and> misses c' = misses c
        else r = None \<and> entries c' = without k (entries c)
          \<and> misses c' = wrap64 (misses c + 1) \<and> hits c' = hits c"
proof -
  have e: "entries c' = fst (spec_get now k (entries c))" "r = snd (spec_get now k (entries c))"
    using fst_spec_get [OF assms(1), of now k] assms(2) by simp_all
  have c': "c' = fst (LRU_Get now c k)" using assms(2) by simp
  have "entry_live now (k, snd (entry_of (elems c x))) \<longleftrightarrow> \<not> expired now (elems c x)"
    if "lookup c k = Some x" for x
    using lookup_SomeD(2) [OF assms(1) that] by (auto simp: expired_entry key_entry_of)
  then have "map_of (entries c) k = None \<Longrightarrow> misses c' = wrap64 (misses c + 1) \<and> hits c' = hits c"
    and "map_of (entries c) k = Some v \<Longrightarrow>
      (if entry_live now (k, v) then hits c' = wrap64 (hits c + 1) \<and> misses c' = misses c
       else misses c' = wrap64 (misses c + 1) \<and> hits c' = hits c)" for v
    by (auto simp: c' LRU_Get_def lookup_entries [OF assms(1)] Let_def split: option.splits)
  then show ?thesis by (auto simp: e spec_get_def split: option.splits)
qed

theorem lru_get_correct_witness:
  "\<exists>c. snd (LRU_Get 4 (LRU_PutWithTTL 0 (NewLRUCache 3) ''a'' ''x'' 9) ''a'') = Some ''x''
     \<and> LRU_Get 4 (LRU_PutWithTTL 0 (NewLRUCache 3) ''a'' ''x'' 9) ''a'' = (c, Some ''x'')
     \<and> hits c = 1"
proof -
  let ?c = "LRU_PutWithTTL 0 (NewLRUCache 3) ''a'' ''x'' 9"
  have "entries ?c = [(''a'', ''x'', 0, 9)]" and inv: "lru_inv ?c"
    using one_put_cache [of 3 "''x''" 0 "''a''" 9] by simp_all
  moreover have "hits ?c = 0" by code_simp
  ultimately show ?thesis
    using lru_get_correct [OF inv, of 4 "''a''"]
    by (cases "LRU_Get 4 ?c ''a''") (auto simp: entry_live_def time_sub_def max_duration_def wrap64_def)
qed

text \<open>
  \<open>CleanupExpired\<close> removes exactly the entries past their TTL, keeps the others in their
  order, and returns how many it removed.
\<close>

theorem lru_cleanup_exact:
  assumes "lru_inv c"
  shows "entries (fst (LRU_CleanupExpired now c)) = filter (entry_live now) (entries c)
    \<and> lru_inv (fst (LRU_CleanupExpired now c))
    \<and> snd (LRU_CleanupExpired now c)
        = int (length (entries c)) - int (length (entries (fst (LRU_CleanupExpired now c))))"
  using sum_length_filter_compl [of "entry_live now" "entries c"]
  by (simp add: cleanup_entries assms)

theorem lru_cleanup_exact_witness:
  "LRU_Keys (fst (LRU_CleanupExpired 50 (LRU_PutWithTTL 0 (NewLRUCache 3) ''a'' ''x'' 9))) = []"
proof -
  let ?c = "LRU_PutWithTTL 0 (NewLRUCache 3) ''a'' ''x'' 9"
  have "entries ?c = [(''a'', ''x'', 0, 9)]" and inv: "lru_inv ?c"
    using one_put_cache [of 3 "''x''" 0 "''a''" 9] by simp_all
  then show ?thesis
    using lru_cleanup_exact [OF inv, of 50]
    by (simp add: entry_live_def time_sub_def max_duration_def flip: entries_keys)
qed

end
