(* ===== verification/GoSlice.thy ===== *)
theory GoSlice
  imports Prelude
begin

text \<open>
  Go slices with their aliasing.  A slice is a backing array, named by its address, and
  a length; two slices over the same array see each other's writes.  Every slice of the
  modelled code starts at the beginning of its array, so no offset is kept.  An array's
  list has the array's capacity as its length; the part past a slice's length is what
  earlier writes left there.
\<close>

record 'a arrays =
  arr :: "nat \<Rightarrow> 'a list"
  next_arr :: nat

type_synonym slice = "nat \<times> nat"

text \<open>The nil slice: no array (address 0 holds the empty array), length 0.\<close>

definition nil_slice :: slice where
  "nil_slice = (0, 0)"

definition no_arrays :: "'a arrays" where
  "no_arrays = \<lparr>arr = (\<lambda>_. []), next_arr = 1\<rparr>"

definition elems_of :: "'a arrays \<Rightarrow> slice \<Rightarrow> 'a list" where
  "elems_of h s = take (snd s) (arr h (fst s))"

definition wf_slice :: "'a arrays \<Rightarrow> slice \<Rightarrow> bool" where
  "wf_slice h s \<longleftrightarrow> fst s < next_arr h \<and> snd s \<le> length (arr h (fst s))"

definition wf_arrays :: "'a arrays \<Rightarrow> bool" where
  "wf_arrays h \<longleftrightarrow> arr h 0 = [] \<and> 0 < next_arr h"

text \<open>
  \<open>append(s, x)\<close>: in place when the array has room, otherwise into a new array.  How much
  room the new array has is the runtime's choice: \<open>grow n\<close> is its capacity when a slice of
  length \<open>n\<close> overflows; \<open>z\<close> is the zero value that fills the unused part.
\<close>

definition append1 :: "(nat \<Rightarrow> nat) \<Rightarrow> 'a \<Rightarrow> 'a arrays \<Rightarrow> slice \<Rightarrow> 'a \<Rightarrow> 'a arrays \<times> slice" where
  "append1 grow z h s x =
     (let a = fst s; n = snd s; xs = arr h a
      in if n < length xs
         then (h\<lparr>arr := (arr h)(a := xs[n := x])\<rparr>, (a, Suc n))
         else (let b = next_arr h
               in (h\<lparr>arr := (arr h)(b := take n xs @ [x] @ replicate (grow n - Suc n) z),
                     next_arr := Suc b\<rparr>, (b, Suc n))))"

text \<open>\<open>append(s[:i], s[i+1:]...)\<close>: shifts the tail left inside the same array.\<close>

definition cut_at :: "'a arrays \<Rightarrow> slice \<Rightarrow> nat \<Rightarrow> 'a arrays \<times> slice" where
  "cut_at h s i =
     (let a = fst s; n = snd s; xs = arr h a
      in (h\<lparr>arr := (arr h)(a := take i xs @ drop (Suc i) (take n xs) @ drop (n - 1) xs)\<rparr>, (a, n - 1)))"

definition set_at :: "'a arrays \<Rightarrow> slice \<Rightarrow> nat \<Rightarrow> 'a \<Rightarrow> 'a arrays" where
  "set_at h s i x = h\<lparr>arr := (arr h)(fst s := (arr h (fst s))[i := x])\<rparr>"

section \<open>What a slice reads after an operation\<close>

lemma elems_of_nil [simp]: "elems_of h nil_slice = []"
  by (simp add: elems_of_def nil_slice_def)

lemma length_elems_of: "wf_slice h s \<Longrightarrow> length (elems_of h s) = snd s"
  by (simp add: elems_of_def wf_slice_def)

lemma elems_of_append1:
  assumes "wf_slice h s" and "append1 grow z h s x = (h', s')"
  shows "elems_of h' s' = elems_of h s @ [x]" "wf_slice h' s'"
proof -
  have l: "snd s \<le> length (arr h (fst s))" "fst s < next_arr h"
    using assms(1) by (simp_all add: wf_slice_def)
  show "elems_of h' s' = elems_of h s @ [x]"
    using assms(2) l
    by (auto simp: append1_def elems_of_def Let_def take_Suc_conv_app_nth split: if_splits)
  show "wf_slice h' s'"
    using assms(2) l by (auto simp: append1_def wf_slice_def Let_def split: if_splits)
qed

lemma elems_of_append1_other:
  assumes "wf_slice h t" and "append1 grow z h s x = (h', s')" and "fst t \<noteq> fst s \<or> snd t \<le> snd s"
  shows "elems_of h' t = elems_of h t" "wf_slice h' t" "fst s' \<noteq> fst t \<or> fst s = fst t"
  using assms
  by (auto simp: append1_def elems_of_def wf_slice_def Let_def split: if_splits)

lemma append1_base:
  "append1 grow z h s x = (h', s') \<Longrightarrow> fst s' = fst s \<or> fst s' = next_arr h"
  "append1 grow z h s x = (h', s') \<Longrightarrow> next_arr h \<le> next_arr h'"
  by (auto simp: append1_def Let_def split: if_splits)

lemma append1_wf_arrays:
  assumes "wf_arrays h" and "append1 grow z h s x = (h', s')"
  shows "wf_arrays h'" "wf_slice h s \<Longrightarrow> 0 < fst s'"
proof -
  show "wf_arrays h'"
    using assms by (auto simp: append1_def wf_arrays_def Let_def split: if_splits)
  show "0 < fst s'" if "wf_slice h s"
    using assms that by (cases "fst s = 0")
      (auto simp: append1_def wf_arrays_def wf_slice_def Let_def split: if_splits)
qed

lemma elems_of_cut:
  assumes "wf_slice h s" and "i < snd s" and "cut_at h s i = (h', s')"
  shows "elems_of h' s' = take i (elems_of h s) @ drop (Suc i) (elems_of h s)" "wf_slice h' s'"
    "next_arr h' = next_arr h" "fst s' = fst s" "snd s' = snd s - 1"
    "length (arr h' a) = length (arr h a)"
proof -
  have l: "snd s \<le> length (arr h (fst s))" "fst s < next_arr h" using assms(1) by (simp_all add: wf_slice_def)
  have s': "s' = (fst s, snd s - 1)" and h': "h' = h\<lparr>arr := (arr h)(fst s := take i (arr h (fst s))
      @ drop (Suc i) (take (snd s) (arr h (fst s))) @ drop (snd s - 1) (arr h (fst s)))\<rparr>"
    using assms(3) by (simp_all add: cut_at_def Let_def)
  let ?A = "take i (arr h (fst s))" and ?B = "drop (Suc i) (take (snd s) (arr h (fst s)))"
  have "length (?A @ ?B) = snd s - 1" using assms(2) l by simp
  then have "take (snd s - 1) ((?A @ ?B) @ drop (snd s - 1) (arr h (fst s))) = ?A @ ?B"
    by (metis append_eq_conv_conj)
  moreover have "take i (elems_of h s) = ?A"
    using assms(2) by (simp add: elems_of_def min_def)
  ultimately show "elems_of h' s' = take i (elems_of h s) @ drop (Suc i) (elems_of h s)"
    by (simp add: elems_of_def s' h')
  show "wf_slice h' s'" "next_arr h' = next_arr h" "fst s' = fst s" "snd s' = snd s - 1"
    "length (arr h' a) = length (arr h a)"
    using assms(2) l by (auto simp: s' h' wf_slice_def)
qed

lemma elems_of_cut_other:
  assumes "cut_at h s i = (h', s')" and "fst t \<noteq> fst s"
  shows "elems_of h' t = elems_of h t"
  using assms by (auto simp: cut_at_def elems_of_def Let_def)

lemma elems_of_set_at:
  assumes "wf_slice h s" and "i < snd s"
  shows "elems_of (set_at h s i x) s = (elems_of h s)[i := x]"
    "wf_slice (set_at h s i x) t = wf_slice h t"
    "next_arr (set_at h s i x) = next_arr h"
  using assms by (auto simp: set_at_def elems_of_def wf_slice_def take_update_swap)

lemma elems_of_set_at_other: "fst t \<noteq> fst s \<Longrightarrow> elems_of (set_at h s i x) t = elems_of h t"
  by (simp add: set_at_def elems_of_def)

end
