(* ===== verification/Json.thy ===== *)
theory Json
  imports Prelude "HOL-Library.AList" "HOL-Library.List_Lexorder" "HOL-Library.Char_ord"
begin

text \<open>
  JSON values as \<open>encoding/json\<close> reads and writes them.  A number keeps its literal text;
  an object keeps its members in the order they are written.
\<close>

datatype json =
    JNull
  | JBool bool
  | JNum string
  | JStr string
  | JArr "json list"
  | JObj "(string \<times> json) list"

text \<open>
  Decoding into \<open>interface{}\<close> and encoding again: numbers pass through \<open>float64\<close> (\<open>num\<close> gives
  the literal that comes out; a number out of range is an error), the members of an object
  through a Go map, which keeps the last of equal keys and is written in key order.
\<close>

definition go_members :: "(string \<times> 'v) list \<Rightarrow> (string \<times> 'v) list" where
  "go_members kvs = sort_key fst (AList.clearjunk (rev kvs))"

primrec json_any :: "(string \<Rightarrow> string option) \<Rightarrow> json \<Rightarrow> json option" where
  "json_any num JNull = Some JNull"
| "json_any num (JBool b) = Some (JBool b)"
| "json_any num (JNum n) = map_option JNum (num n)"
| "json_any num (JStr s) = Some (JStr s)"
| "json_any num (JArr js) = map_option JArr (those (map (json_any num) js))"
| "json_any num (JObj kvs) =
     map_option (\<lambda>kvs. JObj (go_members kvs))
       (those (map (\<lambda>x. map_option (Pair (fst x)) (snd x)) (map (map_prod id (json_any num)) kvs)))"

lemma those_map_Some: "(\<And>x. x \<in> set xs \<Longrightarrow> f x = Some (g x)) \<Longrightarrow> those (map f xs) = Some (map g xs)"
  by (induction xs) auto

text \<open>A value without numbers, with the members of each object in strict key order.\<close>

primrec json_plain :: "json \<Rightarrow> bool" where
  "json_plain JNull = True"
| "json_plain (JBool b) = True"
| "json_plain (JNum n) = False"
| "json_plain (JStr s) = True"
| "json_plain (JArr js) = list_all id (map json_plain js)"
| "json_plain (JObj kvs) = (list_all (\<lambda>x. snd x) (map (map_prod id json_plain) kvs)
     \<and> sorted (map fst kvs) \<and> distinct (map fst kvs))"

lemma clearjunk_rev_distinct: "distinct (map fst kvs) \<Longrightarrow> AList.clearjunk (rev kvs) = rev kvs"
  by (rule distinct_clearjunk_id) (simp flip: rev_map)

lemma go_members_sorted:
  assumes "sorted (map fst kvs)" and "distinct (map fst kvs)"
  shows "go_members kvs = kvs"
proof -
  have "distinct (map fst (sort_key fst (rev kvs)))"
    using assms(2) by (simp add: distinct_map distinct_sort)
  then have "sort_key fst (rev kvs) = kvs"
    by (intro map_sorted_distinct_set_unique [where f = fst])
      (use assms in \<open>simp_all add: distinct_map\<close>)
  then show ?thesis using assms(2) by (simp add: go_members_def clearjunk_rev_distinct)
qed

lemma json_any_plain: "json_plain j \<Longrightarrow> json_any num j = Some j"
proof (induction j)
  case (JArr js)
  then have "those (map (json_any num) js) = Some (map (\<lambda>j. j) js)"
    by (intro those_map_Some) (simp add: list_all_iff)
  then show ?case by simp
next
  case (JObj kvs)
  have "those (map (\<lambda>x. map_option (Pair (fst x)) (json_any num (snd x))) kvs) = Some (map (\<lambda>x. x) kvs)"
    by (rule those_map_Some) (use JObj in \<open>auto simp: list_all_iff\<close>)
  then show ?case using JObj.prems by (simp add: go_members_sorted comp_def)
qed simp_all

end
