(* ===== verification/JsonText.thy ===== *)
theory JsonText
  imports Json
begin

text \<open>
  The text of JSON values: the grammar that \<open>encoding/json\<close> accepts, the text it writes, and
  the compaction that \<open>Marshal\<close> applies to a \<open>json.RawMessage\<close>.  The limit of 10000 nested
  values is not modelled.
\<close>

section \<open>Characters\<close>

definition code :: "char \<Rightarrow> nat" where
  "code c = of_char c"

definition is_ws :: "char \<Rightarrow> bool" where
  "is_ws c \<longleftrightarrow> code c \<in> {9, 10, 13, 32}"

fun skip_ws :: "bytes \<Rightarrow> bytes" where
  "skip_ws [] = []"
| "skip_ws (c # cs) = (if is_ws c then skip_ws cs else c # cs)"

definition is_digit :: "char \<Rightarrow> bool" where
  "is_digit c \<longleftrightarrow> 48 \<le> code c \<and> code c \<le> 57"

definition hex_val :: "char \<Rightarrow> nat option" where
  "hex_val c =
     (let n = code c
      in if 48 \<le> n \<and> n \<le> 57 then Some (n - 48)
         else if 97 \<le> n \<and> n \<le> 102 then Some (n - 87)
         else if 65 \<le> n \<and> n \<le> 70 then Some (n - 55) else None)"

definition quote_char :: char where
  "quote_char = CHR 0x22"

definition backslash :: char where
  "backslash = CHR 0x5C"

section \<open>UTF-8\<close>

definition cont_byte :: "char \<Rightarrow> bool" where
  "cont_byte c \<longleftrightarrow> 128 \<le> code c \<and> code c \<le> 191"

text \<open>How many bytes of the well-formed rune at the head follow its first byte.\<close>

fun rune_tail :: "bytes \<Rightarrow> nat option" where
  "rune_tail [] = None"
| "rune_tail (c # cs) =
     (let n = code c
      in if n < 128 then Some 0
         else case cs of
           [] \<Rightarrow> None
         | d # ds \<Rightarrow>
             if 194 \<le> n \<and> n \<le> 223 then (if cont_byte d then Some 1 else None)
             else case ds of
               [] \<Rightarrow> None
             | e # es \<Rightarrow>
                 if 224 \<le> n \<and> n \<le> 239
                 then (if cont_byte d \<and> cont_byte e \<and> (n = 224 \<longrightarrow> 160 \<le> code d) \<and> (n = 237 \<longrightarrow> code d \<le> 159)
                       then Some 2 else None)
                 else if 240 \<le> n \<and> n \<le> 244
                 then (case es of
                         [] \<Rightarrow> None
                       | f # _ \<Rightarrow>
                           if cont_byte d \<and> cont_byte e \<and> cont_byte f \<and> (n = 240 \<longrightarrow> 144 \<le> code d)
                              \<and> (n = 244 \<longrightarrow> code d \<le> 143)
                           then Some 3 else None)
                 else None)"

definition utf8_encode :: "nat \<Rightarrow> bytes" where
  "utf8_encode r =
     map char_of
      (if r < 128 then [r]
       else if r < 2048 then [192 + r div 64, 128 + r mod 64]
       else if r < 65536 then [224 + r div 4096, 128 + r div 64 mod 64, 128 + r mod 64]
       else [240 + r div 262144, 128 + r div 4096 mod 64, 128 + r div 64 mod 64, 128 + r mod 64])"

definition line_sep :: bytes where
  "line_sep = [CHR 0xE2, CHR 0x80, CHR 0xA8]"

definition para_sep :: bytes where
  "para_sep = [CHR 0xE2, CHR 0x80, CHR 0xA9]"

definition replacement :: bytes where
  "replacement = utf8_encode 65533"

section \<open>Strings\<close>

fun hex4 :: "bytes \<Rightarrow> (nat \<times> bytes) option" where
  "hex4 (a # b # c # d # cs) =
     (case (hex_val a, hex_val b, hex_val c, hex_val d) of
        (Some w, Some x, Some y, Some z) \<Rightarrow> Some (4096 * w + 256 * x + 16 * y + z, cs)
      | _ \<Rightarrow> None)"
| "hex4 _ = None"

definition simple_escape :: "char \<Rightarrow> char option" where
  "simple_escape c =
     (if c = quote_char then Some quote_char else if c = backslash then Some backslash
      else if c = CHR ''/'' then Some (CHR ''/'')
      else if c = CHR ''b'' then Some (char_of (8 :: nat))
      else if c = CHR ''f'' then Some (char_of (12 :: nat))
      else if c = CHR ''n'' then Some (char_of (10 :: nat))
      else if c = CHR ''r'' then Some (char_of (13 :: nat))
      else if c = CHR ''t'' then Some (char_of (9 :: nat)) else None)"

text \<open>
  The rune an escape \<open>u\<close> with value \<open>r\<close> stands for and the text after it: a surrogate pair takes
  two escapes, a lone surrogate reads as the replacement character.
\<close>

definition unicode_escape :: "nat \<Rightarrow> bytes \<Rightarrow> nat \<times> bytes" where
  "unicode_escape r cs =
     (if 55296 \<le> r \<and> r < 57344
      then (case cs of
              b # u # ds \<Rightarrow>
                (if b = backslash \<and> u = CHR ''u'' \<and> r < 56320
                 then (case hex4 ds of
                         Some (s, es) \<Rightarrow>
                           if 56320 \<le> s \<and> s < 57344
                           then (65536 + 1024 * (r - 55296) + (s - 56320), es) else (65533, cs)
                       | None \<Rightarrow> (65533, cs))
                 else (65533, cs))
            | _ \<Rightarrow> (65533, cs))
      else (r, cs))"

text \<open>The rest of a string literal after its opening quote, decoded, and what follows it.\<close>

fun parse_str :: "nat \<Rightarrow> bytes \<Rightarrow> (bytes \<times> bytes) option" where
  "parse_str 0 _ = None"
| "parse_str (Suc k) [] = None"
| "parse_str (Suc k) (c # cs) =
     (if c = quote_char then Some ([], cs)
      else if c = backslash then
        (case cs of
           [] \<Rightarrow> None
         | e # ds \<Rightarrow>
             if e = CHR ''u'' then
               (case hex4 ds of
                  None \<Rightarrow> None
                | Some (r, es) \<Rightarrow>
                    (case unicode_escape r es of
                       (r', fs) \<Rightarrow> map_option (\<lambda>(s, rest). (utf8_encode r' @ s, rest)) (parse_str k fs)))
             else
               (case simple_escape e of
                  None \<Rightarrow> None
                | Some d \<Rightarrow> map_option (\<lambda>(s, rest). (d # s, rest)) (parse_str k ds)))
      else if code c < 32 then None
      else
        (case rune_tail (c # cs) of
           None \<Rightarrow> map_option (\<lambda>(s, rest). (replacement @ s, rest)) (parse_str k cs)
         | Some n \<Rightarrow>
             map_option (\<lambda>(s, rest). (c # take n cs @ s, rest)) (parse_str k (drop n cs))))"

definition hex_lower :: "nat \<Rightarrow> char" where
  "hex_lower n = ''0123456789abcdef'' ! n"

definition u_escape :: "nat \<Rightarrow> bytes" where
  "u_escape r = [backslash, CHR ''u'', hex_lower (r div 4096 mod 16), hex_lower (r div 256 mod 16),
     hex_lower (r div 16 mod 16), hex_lower (r mod 16)]"

definition ascii_escape :: "char \<Rightarrow> bytes" where
  "ascii_escape c =
     (if c = quote_char \<or> c = backslash then [backslash, c]
      else if code c = 8 then [backslash, CHR ''b'']
      else if code c = 12 then [backslash, CHR ''f'']
      else if code c = 10 then [backslash, CHR ''n'']
      else if code c = 13 then [backslash, CHR ''r'']
      else if code c = 9 then [backslash, CHR ''t'']
      else if code c < 32 \<or> c = CHR ''<'' \<or> c = CHR ''>'' \<or> c = CHR ''&'' then u_escape (code c)
      else [c])"

text \<open>A string as \<open>Marshal\<close> writes it, without the quotes; the line separators are escaped.\<close>

fun str_text :: "nat \<Rightarrow> bytes \<Rightarrow> bytes" where
  "str_text 0 _ = []"
| "str_text (Suc k) [] = []"
| "str_text (Suc k) (c # cs) =
     (if code c < 128 then ascii_escape c @ str_text k cs
      else case rune_tail (c # cs) of
        None \<Rightarrow> u_escape 65533 @ str_text k cs
      | Some n \<Rightarrow>
          (if c # take n cs = line_sep then u_escape 8232
           else if c # take n cs = para_sep then u_escape 8233
           else c # take n cs) @ str_text k (drop n cs))"

definition quoted :: "bytes \<Rightarrow> bytes" where
  "quoted s = quote_char # str_text (length s) s @ [quote_char]"

section \<open>Numbers\<close>

fun all_digits1 :: "bytes \<Rightarrow> bool" where
  "all_digits1 cs = (cs \<noteq> [] \<and> list_all is_digit cs)"

definition valid_exp :: "bytes \<Rightarrow> bool" where
  "valid_exp cs =
     (case cs of [] \<Rightarrow> True
      | e # ds \<Rightarrow> (e = CHR ''e'' \<or> e = CHR ''E'') \<and>
          (case ds of [] \<Rightarrow> False
           | s # es \<Rightarrow> if s = CHR ''+'' \<or> s = CHR ''-'' then all_digits1 es else all_digits1 ds))"

definition valid_frac :: "bytes \<Rightarrow> bool" where
  "valid_frac cs =
     (case cs of [] \<Rightarrow> True
      | d # ds \<Rightarrow> if d = CHR ''.''
          then takeWhile is_digit ds \<noteq> [] \<and> valid_exp (dropWhile is_digit ds)
          else valid_exp cs)"

definition valid_int :: "bytes \<Rightarrow> bool" where
  "valid_int cs =
     (case cs of [] \<Rightarrow> False
      | d # ds \<Rightarrow> if d = CHR ''0'' then valid_frac ds
          else is_digit d \<and> valid_frac (dropWhile is_digit ds))"

definition valid_num :: "bytes \<Rightarrow> bool" where
  "valid_num cs = (case cs of [] \<Rightarrow> False | d # ds \<Rightarrow> if d = CHR ''-'' then valid_int ds else valid_int cs)"

definition num_char :: "char \<Rightarrow> bool" where
  "num_char c \<longleftrightarrow> is_digit c \<or> c \<in> set ''+-.eE''"

section \<open>Values\<close>

fun parse_lit :: "bytes \<Rightarrow> bytes \<Rightarrow> bytes option" where
  "parse_lit [] cs = Some cs"
| "parse_lit (w # ws) (c # cs) = (if c = w then parse_lit ws cs else None)"
| "parse_lit _ _ = None"

text \<open>
  The fuel counts the steps: one more than the length of the text is enough.  An array or
  object is read element by element, \<open>parse_elems\<close> after \<open>[\<close> or a comma.
\<close>

fun parse_val :: "nat \<Rightarrow> bytes \<Rightarrow> (json \<times> bytes) option"
and parse_elems :: "nat \<Rightarrow> bytes \<Rightarrow> (json list \<times> bytes) option"
and parse_members :: "nat \<Rightarrow> bytes \<Rightarrow> ((string \<times> json) list \<times> bytes) option" where
  "parse_val 0 cs = None"
| "parse_val (Suc k) cs =
     (case skip_ws cs of
        [] \<Rightarrow> None
      | c # ds \<Rightarrow>
          if c = CHR ''n'' then map_option (\<lambda>r. (JNull, r)) (parse_lit ''ull'' ds)
          else if c = CHR ''t'' then map_option (\<lambda>r. (JBool True, r)) (parse_lit ''rue'' ds)
          else if c = CHR ''f'' then map_option (\<lambda>r. (JBool False, r)) (parse_lit ''alse'' ds)
          else if c = quote_char then map_option (\<lambda>(s, r). (JStr s, r)) (parse_str (Suc (length ds)) ds)
          else if c = CHR ''['' then
            (case skip_ws ds of
               [] \<Rightarrow> None
             | d # es \<Rightarrow> if d = CHR '']'' then Some (JArr [], es)
                         else map_option (\<lambda>(js, r). (JArr js, r)) (parse_elems k ds))
          else if c = CHR ''{'' then
            (case skip_ws ds of
               [] \<Rightarrow> None
             | d # es \<Rightarrow> if d = CHR ''}'' then Some (JObj [], es)
                         else map_option (\<lambda>(ms, r). (JObj ms, r)) (parse_members k ds))
          else if valid_num (takeWhile num_char (c # ds))
            then Some (JNum (takeWhile num_char (c # ds)), dropWhile num_char (c # ds))
          else None)"
| "parse_elems 0 cs = None"
| "parse_elems (Suc k) cs =
     (case parse_val k cs of
        None \<Rightarrow> None
      | Some (j, ds) \<Rightarrow>
          (case skip_ws ds of
             [] \<Rightarrow> None
           | d # es \<Rightarrow>
               if d = CHR '']'' then Some ([j], es)
               else if d = CHR '','' then map_option (\<lambda>(js, r). (j # js, r)) (parse_elems k es)
               else None))"
| "parse_members 0 cs = None"
| "parse_members (Suc k) cs =
     (case skip_ws cs of
        [] \<Rightarrow> None
      | q # ds \<Rightarrow>
          if q \<noteq> quote_char then None
          else (case parse_str (Suc (length ds)) ds of
             None \<Rightarrow> None
           | Some (s, es) \<Rightarrow>
               (case skip_ws es of
                  [] \<Rightarrow> None
                | c # fs \<Rightarrow>
                    if c \<noteq> CHR '':'' then None
                    else (case parse_val k fs of
                       None \<Rightarrow> None
                     | Some (j, gs) \<Rightarrow>
                         (case skip_ws gs of
                            [] \<Rightarrow> None
                          | d # hs \<Rightarrow>
                              if d = CHR ''}'' then Some ([(s, j)], hs)
                              else if d = CHR '','' then map_option (\<lambda>(ms, r). ((s, j) # ms, r)) (parse_members k hs)
                              else None)))))"

definition json_parse :: "bytes \<Rightarrow> json option" where
  "json_parse cs =
     (case parse_val (2 * length cs + 2) cs of
        Some (j, rest) \<Rightarrow> if skip_ws rest = [] then Some j else None
      | None \<Rightarrow> None)"

primrec json_text :: "json \<Rightarrow> bytes" where
  "json_text JNull = ''null''"
| "json_text (JBool b) = (if b then ''true'' else ''false'')"
| "json_text (JNum n) = n"
| "json_text (JStr s) = quoted s"
| "json_text (JArr js) = ''['' @ join_with '','' (map json_text js) @ '']''"
| "json_text (JObj kvs) =
     ''{'' @ join_with '','' (map (\<lambda>(s, t). quoted s @ '':'' @ t) (map (map_prod id json_text) kvs)) @ ''}''"

text \<open>
  The same value laid out over lines, as \<open>MarshalIndent\<close> does: \<open>nl d\<close> is the break before a line of
  depth \<open>d\<close> and \<open>sp\<close> what follows a colon.  Empty arrays and objects stay closed.
\<close>

primrec json_lay :: "(nat \<Rightarrow> bytes) \<Rightarrow> bytes \<Rightarrow> json \<Rightarrow> nat \<Rightarrow> bytes" where
  "json_lay nl sp JNull = (\<lambda>d. ''null'')"
| "json_lay nl sp (JBool b) = (\<lambda>d. if b then ''true'' else ''false'')"
| "json_lay nl sp (JNum n) = (\<lambda>d. n)"
| "json_lay nl sp (JStr s) = (\<lambda>d. quoted s)"
| "json_lay nl sp (JArr js) = (\<lambda>d. if js = [] then ''[]''
     else ''['' @ nl (Suc d) @ join_with ('','' @ nl (Suc d)) (map (\<lambda>f. f (Suc d)) (map (json_lay nl sp) js))
       @ nl d @ '']'')"
| "json_lay nl sp (JObj kvs) = (\<lambda>d. if kvs = [] then ''{}''
     else ''{'' @ nl (Suc d) @ join_with ('','' @ nl (Suc d))
         (map (\<lambda>(s, f). quoted s @ '':'' @ sp @ f (Suc d)) (map (map_prod id (json_lay nl sp)) kvs))
       @ nl d @ ''}'')"

definition json_indent :: "json \<Rightarrow> bytes" where
  "json_indent j = json_lay (\<lambda>d. CHR 0x0A # replicate (2 * d) (CHR '' '')) '' '' j 0"

section \<open>Compaction\<close>

text \<open>\<open>Marshal\<close> of a raw message: white space outside strings goes, and some characters are escaped.\<close>

fun squeeze :: "bool \<Rightarrow> bytes \<Rightarrow> bytes" where
  "squeeze instr [] = []"
| "squeeze instr (c # cs) =
     (if instr \<and> c = backslash then (case cs of [] \<Rightarrow> [c] | d # ds \<Rightarrow> c # d # squeeze instr ds)
      else if c = quote_char then c # squeeze (\<not> instr) cs
      else if \<not> instr \<and> is_ws c then squeeze instr cs
      else if c = CHR ''<'' \<or> c = CHR ''>'' \<or> c = CHR ''&'' then u_escape (code c) @ squeeze instr cs
      else if c # take 2 cs = line_sep then u_escape 8232 @ squeeze instr (drop 2 cs)
      else if c # take 2 cs = para_sep then u_escape 8233 @ squeeze instr (drop 2 cs)
      else c # squeeze instr cs)"

definition json_compact :: "bytes \<Rightarrow> bytes option" where
  "json_compact cs = (if json_parse cs = None then None else Some (squeeze False cs))"

lemma compact_null: "json_compact ''null'' = Some ''null''"
proof -
  have "json_parse ''null'' = Some JNull"
    by (simp add: json_parse_def numeral_eq_Suc is_ws_def code_def quote_char_def)
  moreover have "squeeze False ''null'' = ''null''"
    by (simp add: is_ws_def code_def quote_char_def backslash_def line_sep_def para_sep_def)
  ultimately show ?thesis by (simp add: json_compact_def)
qed

end
