(* ===== verification/JsonRoundTrip.thy ===== *)
theory JsonRoundTrip
  imports JsonText
begin

text \<open>
  Parsing the text of a JSON value gives the value back, for values whose strings are valid
  UTF-8 and whose numbers are number literals.
\<close>

section \<open>Strings\<close>

fun utf8_ok_upto :: "nat \<Rightarrow> bytes \<Rightarrow> bool" where
  "utf8_ok_upto 0 cs = (cs = [])"
| "utf8_ok_upto (Suc k) [] = True"
| "utf8_ok_upto (Suc k) (c # cs) =
     (case rune_tail (c # cs) of None \<Rightarrow> False | Some n \<Rightarrow> utf8_ok_upto k (drop n cs))"

definition utf8_ok :: "bytes \<Rightarrow> bool" where
  "utf8_ok cs = utf8_ok_upto (length cs) cs"

lemma rune_tail_prefix:
  assumes "rune_tail (c # cs) = Some n"
  shows "n \<le> length cs" "rune_tail (c # take n cs @ rest) = Some n" "code c < 128 \<longleftrightarrow> n = 0"
proof -
  obtain d e f where "cs = [] \<or> cs = [d] \<or> cs = [d, e] \<or> (\<exists>xs. cs = d # e # f # xs)"
    by (metis list.exhaust)
  with assms have "n \<le> length cs \<and> rune_tail (c # take n cs @ rest) = Some n \<and> (code c < 128 \<longleftrightarrow> n = 0)"
    by (elim disjE exE) (auto simp: Let_def numeral_2_eq_2 numeral_3_eq_3 split: if_splits)
  then show "n \<le> length cs" "rune_tail (c # take n cs @ rest) = Some n" "code c < 128 \<longleftrightarrow> n = 0" by auto
qed

lemma rune_tail_le: "rune_tail (c # cs) = Some n \<Longrightarrow> n \<le> 3"
  by (simp add: Let_def split: if_splits list.splits)

lemma rune_tail_ascii [simp]: "code c < 128 \<Longrightarrow> rune_tail (c # cs) = Some 0"
  by simp

declare rune_tail.simps [simp del]

lemma hex_val_lower: "n < 16 \<Longrightarrow> hex_val (hex_lower n) = Some n"
proof -
  have "\<forall>n\<in>set [0..<16]. hex_val (hex_lower n) = Some n"
    by (simp add: upt_rec hex_lower_def hex_val_def code_def)
  then show "n < 16 \<Longrightarrow> ?thesis" by simp
qed

lemma hex4_u_escape:
  assumes "r < 65536"
  shows "hex4 (drop 2 (u_escape r) @ rest) = Some (r, rest)"
proof -
  have gen: "x = 16 * y + d \<Longrightarrow> y = 16 * z + c \<Longrightarrow> z = 16 * w + b \<Longrightarrow> 4096 * w + 256 * b + 16 * c + d = x"
    for x y z w b c d :: nat by simp
  have dd: "r div 16 div 16 = r div 256" "r div 256 div 16 = r div 4096" by (simp_all flip: div_mult2_eq)
  have "4096 * (r div 4096) + 256 * (r div 256 mod 16) + 16 * (r div 16 mod 16) + r mod 16 = r"
    by (rule gen [of r "r div 16" _ "r div 256"]) (simp, simp flip: dd(1), simp flip: dd(2))
  moreover have "r div 4096 mod 16 = r div 4096" using assms by simp
  moreover have "hex_val (hex_lower (r div 4096)) = Some (r div 4096)"
    using assms by (intro hex_val_lower) simp
  ultimately show ?thesis by (simp add: u_escape_def hex_val_lower)
qed

lemma special_chars [simp]:
  "backslash \<noteq> quote_char" "quote_char \<noteq> backslash" "CHR ''u'' \<noteq> backslash" "CHR ''u'' \<noteq> quote_char"
  "quote_char \<noteq> CHR ''u''" "backslash \<noteq> CHR ''u''"
  "code quote_char = 34" "code backslash = 92"
  by (simp_all add: backslash_def quote_char_def code_def)

lemma parse_str_u_escape:
  assumes "r < 55296"
  shows "parse_str (Suc k) (u_escape r @ rest) =
    map_option (\<lambda>(s, t). (utf8_encode r @ s, t)) (parse_str k rest)"
proof -
  obtain h where h: "u_escape r @ rest = backslash # CHR ''u'' # h" "h = drop 2 (u_escape r) @ rest"
    by (simp add: u_escape_def)
  have "hex4 h = Some (r, rest)" using hex4_u_escape [of r rest] assms h(2) by simp
  then show ?thesis using assms unfolding h(1) by (simp add: unicode_escape_def)
qed

lemma code_inject [simp]: "code c = code d \<longleftrightarrow> c = d"
  by (simp add: code_def)

lemma char_of_code [simp]: "char_of (code c) = c"
  by (simp add: code_def)

lemma utf8_encode_ascii: "code c < 128 \<Longrightarrow> utf8_encode (code c) = [c]"
  by (simp add: utf8_encode_def)

lemma parse_str_simple:
  assumes "simple_escape e = Some d" and "e \<noteq> CHR ''u''"
  shows "parse_str (Suc k) ([backslash, e] @ rest) = map_option (\<lambda>(s, t). (d # s, t)) (parse_str k rest)"
  using assms by simp

lemma code_eq_char: "code c = n \<Longrightarrow> c = char_of n"
  by (metis char_of_code)

lemma parse_str_ascii:
  assumes "code c < 128"
  shows "parse_str (Suc k) (ascii_escape c @ rest) = map_option (\<lambda>(s, t). (c # s, t)) (parse_str k rest)"
proof -
  have se: "simple_escape quote_char = Some quote_char" "simple_escape backslash = Some backslash"
    "simple_escape (CHR ''b'') = Some (char_of (8::nat))" "simple_escape (CHR ''f'') = Some (char_of (12::nat))"
    "simple_escape (CHR ''n'') = Some (char_of (10::nat))" "simple_escape (CHR ''r'') = Some (char_of (13::nat))"
    "simple_escape (CHR ''t'') = Some (char_of (9::nat))"
    by (simp_all add: simple_escape_def quote_char_def backslash_def)
  have u: "parse_str (Suc k) (u_escape (code c) @ rest) = map_option (\<lambda>(s, t). (c # s, t)) (parse_str k rest)"
    using parse_str_u_escape [of "code c" k rest] assms utf8_encode_ascii [OF assms] by simp
  have raw: "parse_str (Suc k) ([c] @ rest) = map_option (\<lambda>(s, t). (c # s, t)) (parse_str k rest)"
    if "c \<noteq> quote_char" "c \<noteq> backslash" "\<not> code c < 32"
    using that assms by (simp add: Let_def)
  have esc: ?thesis if "ascii_escape c = [backslash, e]" "simple_escape e = Some c" "e \<noteq> CHR ''u''" for e
    using parse_str_simple [OF that(2,3), of k rest] that(1) by simp
  consider "c = quote_char" | "c = backslash" | "code c = 8" | "code c = 12" | "code c = 10" | "code c = 13" | "code c = 9"
    | (plain) "c \<noteq> quote_char" "c \<noteq> backslash" "code c \<noteq> 8" "code c \<noteq> 12" "code c \<noteq> 10" "code c \<noteq> 13" "code c \<noteq> 9"
    by blast
  then show ?thesis
  proof cases
    case plain
    show ?thesis
    proof (cases "code c < 32 \<or> c = CHR ''<'' \<or> c = CHR ''>'' \<or> c = CHR ''&''")
      case True
      then have "ascii_escape c = u_escape (code c)" using plain by (simp add: ascii_escape_def)
      then show ?thesis using u by simp
    next
      case False
      then have "ascii_escape c = [c]" using plain by (simp add: ascii_escape_def)
      then show ?thesis using raw plain False by simp
    qed
  next
    case 1
    show ?thesis by (rule esc [of quote_char]) (use 1 se(1) in \<open>simp_all add: ascii_escape_def\<close>)
  next
    case 2
    show ?thesis by (rule esc [of backslash]) (use 2 se(2) in \<open>simp_all add: ascii_escape_def\<close>)
  next
    case 3
    show ?thesis by (rule esc [of "CHR ''b''"]) (use 3 se(3) code_eq_char [OF 3] in \<open>auto simp: ascii_escape_def\<close>)
  next
    case 4
    show ?thesis by (rule esc [of "CHR ''f''"]) (use 4 se(4) code_eq_char [OF 4] in \<open>auto simp: ascii_escape_def\<close>)
  next
    case 5
    show ?thesis by (rule esc [of "CHR ''n''"]) (use 5 se(5) code_eq_char [OF 5] in \<open>auto simp: ascii_escape_def\<close>)
  next
    case 6
    show ?thesis by (rule esc [of "CHR ''r''"]) (use 6 se(6) code_eq_char [OF 6] in \<open>auto simp: ascii_escape_def\<close>)
  next
    case 7
    show ?thesis by (rule esc [of "CHR ''t''"]) (use 7 se(7) code_eq_char [OF 7] in \<open>auto simp: ascii_escape_def\<close>)
  qed
qed

lemma parse_str_ascii_rune:
  assumes "rune_tail (c # cs) = Some n" and "\<not> code c < 128"
  shows "parse_str (Suc k) ((c # take n cs) @ rest) =
    map_option (\<lambda>(s, t). (c # take n cs @ s, t)) (parse_str k rest)"
proof -
  note r = rune_tail_prefix [OF assms(1)]
  have "c \<noteq> quote_char" "c \<noteq> backslash" "\<not> code c < 32" using assms(2) by auto
  then show ?thesis using r(1) r(2) [of rest] by simp
qed

lemma length_u_escape [simp]: "length (u_escape r) = 6"
  by (simp add: u_escape_def)

lemma length_ascii_escape: "0 < length (ascii_escape c)"
  by (simp add: ascii_escape_def u_escape_def)

lemma length_str_text: "utf8_ok_upto n s \<Longrightarrow> length s \<le> length (str_text n s)"
proof (induction n s rule: str_text.induct)
  case (3 k c cs)
  then obtain t where t: "rune_tail (c # cs) = Some t" "utf8_ok_upto k (drop t cs)"
    by (auto split: option.splits)
  note r = rune_tail_prefix [OF t(1)]
  show ?case
  proof (cases "code c < 128")
    case True
    then have "length cs \<le> length (str_text k cs)" using 3 t r(3) by simp
    moreover have "1 \<le> length (ascii_escape c)" using length_ascii_escape [of c] by linarith
    ultimately show ?thesis using True by (simp del: length_greater_0_conv One_nat_def)
  next
    case False
    then have IH: "length (drop t cs) \<le> length (str_text k (drop t cs))" using 3 t by simp
    have "t \<le> 3" by (rule rune_tail_le [OF t(1)])
    then show ?thesis using False t(1) IH r(1) by (auto simp: line_sep_def para_sep_def)
  qed
qed simp_all

lemma sep_text: "utf8_encode 8232 = line_sep" "utf8_encode 8233 = para_sep"
proof -
  have "of_char (CHR 0xE2) = (226 :: nat)" "of_char (CHR 0x80) = (128 :: nat)" "of_char (CHR 0xA8) = (168 :: nat)"
    "of_char (CHR 0xA9) = (169 :: nat)" by simp_all
  then have "char_of (226 :: nat) = CHR 0xE2" "char_of (128 :: nat) = CHR 0x80" "char_of (168 :: nat) = CHR 0xA8"
    "char_of (169 :: nat) = CHR 0xA9" by (metis char_of_char)+
  then show "utf8_encode 8232 = line_sep" "utf8_encode 8233 = para_sep"
    by (simp_all add: utf8_encode_def line_sep_def para_sep_def)
qed

lemma parse_str_text:
  "utf8_ok_upto n s \<Longrightarrow> length s < k \<Longrightarrow> parse_str k (str_text n s @ quote_char # rest) = Some (s, rest)"
proof (induction n s arbitrary: k rule: str_text.induct)
  case (1 s)
  then show ?case by (cases k) simp_all
next
  case (2 n)
  then show ?case by (cases k) simp_all
next
  case (3 n c cs)
  then obtain t where t: "rune_tail (c # cs) = Some t" "utf8_ok_upto n (drop t cs)"
    by (auto split: option.splits)
  obtain k' where k: "k = Suc k'" "length cs < k'" using 3(5) by (cases k) auto
  note r = rune_tail_prefix [OF t(1)]
  show ?case
  proof (cases "code c < 128")
    case True
    then have "parse_str k' (str_text n cs @ quote_char # rest) = Some (cs, rest)"
      using 3 t r(3) k by simp
    then show ?thesis using True parse_str_ascii [OF True, of k' "str_text n cs @ quote_char # rest"] by (simp add: k)
  next
    case False
    have "length (drop t cs) < k'" using k by simp
    then have IH: "parse_str k' (str_text n (drop t cs) @ quote_char # rest) = Some (drop t cs, rest)"
      using 3(3) [OF False t(1) t(2)] by simp
    show ?thesis
      using False t(1) IH parse_str_ascii_rune [OF t(1) False, of k' "str_text n (drop t cs) @ quote_char # rest"]
        parse_str_u_escape [of 8232 k' "str_text n (drop t cs) @ quote_char # rest"]
        parse_str_u_escape [of 8233 k' "str_text n (drop t cs) @ quote_char # rest"]
        append_take_drop_id [of t cs]
      by (auto simp: k sep_text simp del: parse_str.simps append_Cons append_take_drop_id)
        (metis append_Cons append_assoc)+
  qed
qed

section \<open>Values\<close>

definition num_ok :: "bytes \<Rightarrow> bool" where
  "num_ok n \<longleftrightarrow> valid_num n \<and> list_all num_char n"

primrec json_ok :: "json \<Rightarrow> bool" where
  "json_ok JNull = True"
| "json_ok (JBool b) = True"
| "json_ok (JNum n) = num_ok n"
| "json_ok (JStr s) = utf8_ok s"
| "json_ok (JArr js) = list_all id (map json_ok js)"
| "json_ok (JObj kvs) = (list_all (\<lambda>x. utf8_ok (fst x) \<and> snd x) (map (map_prod id json_ok) kvs))"

text \<open>The fuel a value needs, which its text always leaves room for.\<close>

primrec need :: "json \<Rightarrow> nat" where
  "need JNull = 1"
| "need (JBool b) = 1"
| "need (JNum n) = 1"
| "need (JStr s) = 1"
| "need (JArr js) = Suc (sum_list (map (\<lambda>n. Suc n) (map need js)))"
| "need (JObj kvs) = Suc (sum_list (map (\<lambda>x. Suc (snd x)) (map (map_prod id need) kvs)))"

lemma length_join_with: "xs \<noteq> [] \<Longrightarrow>
    length (join_with sep xs) + length sep = sum_list (map length xs) + length xs * length sep"
  by (induction sep xs rule: join_with.induct) auto

lemma sum_list_mono_in:
  fixes f g :: "'a \<Rightarrow> nat"
  shows "(\<And>x. x \<in> set xs \<Longrightarrow> f x \<le> g x) \<Longrightarrow> sum_list (map f xs) \<le> sum_list (map g xs)"
  by (induction xs) (auto intro: add_mono)

lemma sum_list_plus_const:
  fixes f :: "'a \<Rightarrow> nat"
  shows "sum_list (map (\<lambda>x. f x + c) xs) = sum_list (map f xs) + length xs * c"
  by (induction xs) simp_all

lemma sum_list_times: "sum_list (map (\<lambda>x. k * f x) xs) = k * sum_list (map f xs)" for f :: "'a \<Rightarrow> nat"
  by (induction xs) (simp_all add: distrib_left)

text \<open>The needs of the parts of a list against the length of the joined texts.\<close>

lemma joined_need:
  fixes f :: "'a \<Rightarrow> nat" and g :: "'a \<Rightarrow> string"
  assumes "\<And>x. x \<in> set xs \<Longrightarrow> f x \<le> 2 * length (g x)"
  shows "sum_list (map (\<lambda>x. Suc (f x)) xs) \<le> 2 * length (join_with '','' (map g xs)) + 2"
proof (cases "xs = []")
  case False
  have "sum_list (map (\<lambda>x. Suc (f x)) xs) \<le> sum_list (map (\<lambda>x. 2 * length (g x) + 1) xs)"
    using assms by (intro sum_list_mono_in) simp
  also have "\<dots> = 2 * sum_list (map (length \<circ> g) xs) + length xs"
    using sum_list_plus_const [of "\<lambda>x. 2 * length (g x)" 1 xs] sum_list_times [of 2 "length \<circ> g" xs] by simp
  finally have "sum_list (map (\<lambda>x. Suc (f x)) xs) \<le> 2 * sum_list (map (length \<circ> g) xs) + length xs" .
  moreover have "length (join_with '','' (map g xs)) + 1 = sum_list (map (length \<circ> g) xs) + length xs"
    using length_join_with [of "map g xs" "'',''"] False by (simp add: comp_def)
  ultimately show ?thesis by linarith
qed simp

lemma need_le: "json_ok j \<Longrightarrow> need j \<le> 2 * length (json_text j)"
proof (induction j)
  case (JNum n)
  then have "n \<noteq> []" by (auto simp: num_ok_def valid_num_def)
  then show ?case by (cases n) simp_all
next
  case (JArr js)
  have "sum_list (map (\<lambda>x. Suc (need x)) js) \<le> 2 * length (join_with '','' (map json_text js)) + 2"
    using JArr by (intro joined_need) (simp add: list_all_iff)
  then show ?case by (simp add: comp_def)
next
  case (JObj kvs)
  have "sum_list (map (\<lambda>x. Suc (need (snd x))) kvs)
      \<le> 2 * length (join_with '','' (map (\<lambda>x. quoted (fst x) @ '':'' @ json_text (snd x)) kvs)) + 2"
  proof (rule joined_need)
    fix x assume x: "x \<in> set kvs"
    have "need (snd x) \<le> 2 * length (json_text (snd x))"
      using JObj.IH [OF x, of "snd x"] JObj.prems x by (cases x) (auto simp: list_all_iff)
    then show "need (snd x) \<le> 2 * length (quoted (fst x) @ '':'' @ json_text (snd x))" by simp
  qed
  then show ?case by (simp add: comp_def case_prod_beta map_prod_def)
qed (simp_all add: quoted_def)

text \<open>A layout puts white space only.\<close>

definition blank :: "bytes \<Rightarrow> bool" where
  "blank w \<longleftrightarrow> list_all is_ws w"

lemma skip_blank [simp]: "blank w \<Longrightarrow> skip_ws (w @ cs) = skip_ws cs"
  by (induction w) (simp_all add: blank_def)

lemma blank_Nil [simp]: "blank []"
  by (simp add: blank_def)

lemma length_join_mono:
  assumes "\<And>x. x \<in> set xs \<Longrightarrow> length (f x) \<le> length (g x)" and "length a \<le> length b"
  shows "length (join_with a (map f xs)) \<le> length (join_with b (map g xs))"
proof (cases "xs = []")
  case False
  have "sum_list (map length (map f xs)) \<le> sum_list (map length (map g xs))"
    using sum_list_mono_in [of xs "length \<circ> f" "length \<circ> g"] assms(1) by (simp add: comp_def)
  moreover have "length xs * length a + length b \<le> length xs * length b + length a"
    using False assms(2) by (cases xs) (simp_all add: mult_le_mono)
  ultimately show ?thesis
    using length_join_with [of "map f xs" a] length_join_with [of "map g xs" b] False
    by (simp add: comp_def)
qed simp

lemma length_lay: "length (json_text j) \<le> length (json_lay nl sp j d)"
proof (induction j arbitrary: d)
  case (JArr js)
  have "length (join_with '','' (map json_text js))
      \<le> length (join_with ('','' @ nl (Suc d)) (map (\<lambda>j. json_lay nl sp j (Suc d)) js))"
    using JArr by (intro length_join_mono) simp_all
  then show ?case by (simp add: comp_def)
next
  case (JObj kvs)
  have "length (join_with '','' (map (\<lambda>x. quoted (fst x) @ '':'' @ json_text (snd x)) kvs))
      \<le> length (join_with ('','' @ nl (Suc d)) (map (\<lambda>x. quoted (fst x) @ '':'' @ sp @ json_lay nl sp (snd x) (Suc d)) kvs))"
  proof (rule length_join_mono)
    fix x assume "x \<in> set kvs"
    then show "length (quoted (fst x) @ '':'' @ json_text (snd x))
        \<le> length (quoted (fst x) @ '':'' @ sp @ json_lay nl sp (snd x) (Suc d))"
      using JObj.IH [of x "snd x" "Suc d"] by (simp add: snds.simps trans_le_add2)
  qed simp
  then show ?case by (simp add: comp_def case_prod_beta)
qed simp_all

lemma json_lay_text: "json_lay (\<lambda>d. []) [] j d = json_text j"
proof (induction j arbitrary: d)
  case (JArr js)
  then have "map (\<lambda>j. json_lay (\<lambda>d. []) [] j (Suc d)) js = map json_text js" by simp
  then show ?case by (simp add: comp_def del: map_eq_conv)
next
  case (JObj kvs)
  have "map (\<lambda>x. quoted (fst x) @ CHR '':'' # json_lay (\<lambda>d. []) [] (snd x) (Suc d)) kvs
      = map (\<lambda>x. quoted (fst x) @ CHR '':'' # json_text (snd x)) kvs"
    using JObj.IH by (simp add: snds.simps)
  then show ?case by (simp add: comp_def case_prod_beta del: map_eq_conv)
qed simp_all

definition delim :: "bytes \<Rightarrow> bool" where
  "delim rest \<longleftrightarrow> rest = [] \<or> \<not> num_char (hd rest)"

lemma punctuation [simp]:
  "\<not> is_ws (CHR '']'')" "\<not> is_ws (CHR '','')" "\<not> is_ws (CHR ''}'')" "\<not> is_ws (CHR '':'')"
  "\<not> is_ws (CHR ''['')" "\<not> is_ws (CHR ''{'')" "\<not> is_ws (CHR ''n'')" "\<not> is_ws (CHR ''t'')" "\<not> is_ws (CHR ''f'')"
  "\<not> is_ws quote_char" "\<not> num_char (CHR '']'')" "\<not> num_char (CHR '','')" "\<not> num_char (CHR ''}'')"
  "quote_char \<noteq> CHR ''n''" "quote_char \<noteq> CHR ''t''" "quote_char \<noteq> CHR ''f''" "quote_char \<noteq> CHR ''[''"
  "quote_char \<noteq> CHR ''{''" "quote_char \<noteq> CHR '']''" "quote_char \<noteq> CHR ''}''"
  "CHR ''['' \<noteq> quote_char" "CHR ''{'' \<noteq> quote_char"
  by (simp_all add: is_ws_def code_def quote_char_def num_char_def is_digit_def)

lemma num_char_head:
  assumes "num_char c"
  shows "\<not> is_ws c" "c \<noteq> CHR ''n''" "c \<noteq> CHR ''t''" "c \<noteq> CHR ''f''" "c \<noteq> quote_char" "c \<noteq> CHR ''[''"
    "c \<noteq> CHR ''{''" "c \<noteq> CHR '']''" "c \<noteq> CHR ''}''"
  using assms by (auto simp: num_char_def is_ws_def is_digit_def code_def quote_char_def)

lemma json_lay_head:
  assumes "json_ok j"
  shows "\<exists>c cs. json_lay nl sp j d = c # cs \<and> \<not> is_ws c \<and> c \<noteq> CHR '']'' \<and> c \<noteq> CHR ''}''"
proof (cases j)
  case (JNum n)
  then obtain c cs where "n = c # cs" using assms by (cases n) (auto simp: num_ok_def valid_num_def)
  then show ?thesis using assms JNum num_char_head [of c] by (simp add: num_ok_def)
qed (simp_all add: quoted_def)

lemma delim_blank: "blank w \<Longrightarrow> \<not> num_char c \<Longrightarrow> delim (w @ c # cs)"
  using num_char_head(1) by (cases w) (auto simp: delim_def blank_def)

lemma parse_string_text:
  assumes "utf8_ok s"
  shows "parse_str (Suc (length (str_text (length s) s @ quote_char # rest))) (str_text (length s) s @ quote_char # rest)
    = Some (s, rest)"
  using assms length_str_text [of "length s" s] parse_str_text [of "length s" s _ rest]
  by (simp add: utf8_ok_def)

lemma parse_val_blank [simp]: "blank w \<Longrightarrow> parse_val k (w @ cs) = parse_val k cs"
  by (cases k) simp_all

lemma parse_elems_blank [simp]: "blank w \<Longrightarrow> parse_elems k (w @ cs) = parse_elems k cs"
  by (cases k) simp_all

lemma parse_members_blank [simp]: "blank w \<Longrightarrow> parse_members k (w @ cs) = parse_members k cs"
  by (cases k) simp_all

lemma parse_elems_text:
  assumes "js \<noteq> []" and "blank w" and "blank w'"
    and "\<And>j k rest. j \<in> set js \<Longrightarrow> need j \<le> k \<Longrightarrow> delim rest \<Longrightarrow> parse_val k (t j @ rest) = Some (j, rest)"
    and "sum_list (map (\<lambda>j. Suc (need j)) js) \<le> k"
  shows "parse_elems k (join_with ('','' @ w) (map t js) @ w' @ CHR '']'' # rest) = Some (js, rest)"
  using assms
proof (induction js arbitrary: k)
  case (Cons j js)
  obtain k' where k: "k = Suc k'" "need j \<le> k'" "sum_list (map (\<lambda>j. Suc (need j)) js) \<le> k'"
    using Cons.prems(5) by (cases k) auto
  have v: "delim xs \<Longrightarrow> parse_val k' (t j @ xs) = Some (j, xs)" for xs
    using Cons.prems(4) [of j k' xs] k(2) by simp
  show ?case
  proof (cases js)
    case Nil
    then show ?thesis
      using v [of "w' @ CHR '']'' # rest"] delim_blank [OF Cons.prems(3)] Cons.prems(3) by (simp add: k(1))
  next
    case (Cons j' js')
    have IH: "parse_elems k' (join_with ('','' @ w) (map t js) @ w' @ CHR '']'' # rest) = Some (js, rest)"
      using Cons.prems k(3) Cons by (intro Cons.IH) auto
    have j: "join_with ('','' @ w) (map t (j # js)) = t j @ '','' @ w @ join_with ('','' @ w) (map t js)"
      using Cons by simp
    show ?thesis
      using v [of "CHR '','' # w @ join_with ('','' @ w) (map t js) @ w' @ CHR '']'' # rest"] IH Cons.prems(2)
      unfolding j by (simp add: k(1) delim_def)
  qed
qed simp

lemma parse_members_text:
  assumes "ms \<noteq> []" and "blank w" and "blank w'" and "blank sp" and "\<forall>x\<in>set ms. utf8_ok (fst x)"
    and "\<And>x k rest. x \<in> set ms \<Longrightarrow> need (snd x) \<le> k \<Longrightarrow> delim rest \<Longrightarrow>
      parse_val k (t (snd x) @ rest) = Some (snd x, rest)"
    and "sum_list (map (\<lambda>x. Suc (need (snd x))) ms) \<le> k"
    and "m = (\<lambda>x. quoted (fst x) @ '':'' @ sp @ t (snd x))"
  shows "parse_members k (join_with ('','' @ w) (map m ms) @ w' @ CHR ''}'' # rest) = Some (ms, rest)"
  using assms(1-7) unfolding assms(8)
proof (induction ms arbitrary: k)
  case (Cons x ms)
  let ?m = "\<lambda>x. quoted (fst x) @ '':'' @ sp @ t (snd x)"
  obtain k' where k: "k = Suc k'" "need (snd x) \<le> k'" "sum_list (map (\<lambda>x. Suc (need (snd x))) ms) \<le> k'"
    using Cons.prems(7) by (cases k) auto
  have v: "delim xs \<Longrightarrow> parse_val k' (t (snd x) @ xs) = Some (snd x, xs)" for xs
    using Cons.prems(6) [of x k' xs] k(2) by simp
  have str: "parse_str (Suc (length (str_text (length (fst x)) (fst x) @ quote_char # xs)))
      (str_text (length (fst x)) (fst x) @ quote_char # xs) = Some (fst x, xs)" for xs
    using Cons.prems(5) by (intro parse_string_text) simp
  show ?case
  proof (cases ms)
    case Nil
    then show ?thesis
      using v [of "w' @ CHR ''}'' # rest"] str [of "CHR '':'' # sp @ t (snd x) @ w' @ CHR ''}'' # rest"]
        delim_blank [OF Cons.prems(3)] Cons.prems(3,4)
      by (simp add: k(1) quoted_def)
  next
    case (Cons x' ms')
    have IH: "parse_members k' (join_with ('','' @ w) (map ?m ms) @ w' @ CHR ''}'' # rest) = Some (ms, rest)"
      using Cons.prems k(3) Cons by (intro Cons.IH) auto
    have j: "join_with ('','' @ w) (map ?m (x # ms)) = ?m x @ '','' @ w @ join_with ('','' @ w) (map ?m ms)"
      using Cons by simp
    let ?tl = "CHR '','' # w @ join_with ('','' @ w) (map ?m ms) @ w' @ CHR ''}'' # rest"
    show ?thesis
      using v [of ?tl] IH str [of "CHR '':'' # sp @ t (snd x) @ ?tl"] Cons.prems(2,4)
      unfolding j by (simp add: k(1) delim_def quoted_def)
  qed
qed simp

lemma take_num:
  assumes "list_all num_char n" and "delim rest"
  shows "takeWhile num_char (n @ rest) = n" "dropWhile num_char (n @ rest) = rest"
  using assms by (induction n) (auto simp: delim_def neq_Nil_conv takeWhile_eq_Nil_iff dropWhile_eq_self_iff)

lemma skip_ws_no [simp]: "\<not> is_ws c \<Longrightarrow> skip_ws (c # cs) = c # cs"
  by simp

lemma parse_lit_app [simp]: "parse_lit w (w @ rest) = Some rest"
  by (induction w) simp_all

lemma parse_array_lay:
  assumes "\<And>d. blank (nl d)" and "list_all json_ok js" and "sum_list (map (\<lambda>j. Suc (need j)) js) \<le> k"
    and vals: "\<And>j k rest. j \<in> set js \<Longrightarrow> need j \<le> k \<Longrightarrow> delim rest \<Longrightarrow> parse_val k (json_lay nl sp j (Suc d) @ rest) = Some (j, rest)"
  shows "parse_val (Suc k) (json_lay nl sp (JArr js) d @ rest) = Some (JArr js, rest)"
proof (cases js)
  case (Cons j js')
  let ?t = "\<lambda>j. json_lay nl sp j (Suc d)"
  have ok: "\<forall>j\<in>set js. json_ok j" using assms(2) by (simp add: list_all_iff)
  have e: "parse_elems k (join_with ('','' @ nl (Suc d)) (map ?t js) @ nl d @ CHR '']'' # rest) = Some (js, rest)"
    using vals ok Cons assms(1,3) by (intro parse_elems_text) auto
  obtain c cs where c: "?t j = c # cs" "\<not> is_ws c" "c \<noteq> CHR '']''"
    using json_lay_head [of j nl sp "Suc d"] ok Cons by auto
  then obtain ds where "join_with ('','' @ nl (Suc d)) (map ?t js) = c # ds" using Cons by (cases js') auto
  then show ?thesis using e c Cons by (simp add: assms(1) comp_def)
qed simp

lemma parse_object_lay:
  assumes "\<And>d. blank (nl d)" and "blank sp" and ok: "\<forall>x\<in>set kvs. utf8_ok (fst x) \<and> json_ok (snd x)"
    and "sum_list (map (\<lambda>x. Suc (need (snd x))) kvs) \<le> k"
    and vals: "\<And>x k rest. x \<in> set kvs \<Longrightarrow> need (snd x) \<le> k \<Longrightarrow> delim rest \<Longrightarrow>
      parse_val k (json_lay nl sp (snd x) (Suc d) @ rest) = Some (snd x, rest)"
  shows "parse_val (Suc k) (json_lay nl sp (JObj kvs) d @ rest) = Some (JObj kvs, rest)"
proof (cases kvs)
  case (Cons x xs)
  let ?m = "\<lambda>x. quoted (fst x) @ '':'' @ sp @ json_lay nl sp (snd x) (Suc d)"
  have obj: "json_lay nl sp (JObj kvs) d
      = ''{'' @ nl (Suc d) @ join_with ('','' @ nl (Suc d)) (map ?m kvs) @ nl d @ ''}''"
    using Cons by (simp add: comp_def case_prod_beta)
  have e: "parse_members k (join_with ('','' @ nl (Suc d)) (map ?m kvs) @ nl d @ CHR ''}'' # rest) = Some (kvs, rest)"
    by (rule parse_members_text [where t = "\<lambda>j. json_lay nl sp j (Suc d)" and sp = sp])
      (use Cons ok vals assms(1,2,4) in simp_all)
  obtain ds where "join_with ('','' @ nl (Suc d)) (map ?m kvs) = quote_char # ds"
    using Cons by (cases xs) (auto simp: quoted_def)
  then show ?thesis using e assms(1,2) unfolding obj by simp
qed simp

lemma parse_val_lay:
  assumes "\<And>d. blank (nl d)" and "blank sp"
  shows "json_ok j \<Longrightarrow> need j \<le> k \<Longrightarrow> delim rest \<Longrightarrow> parse_val k (json_lay nl sp j d @ rest) = Some (j, rest)"
proof (induction j arbitrary: k rest d)
  case JNull
  then obtain k' where "k = Suc k'" by (cases k) auto
  then show ?case by simp
next
  case (JBool b)
  then obtain k' where "k = Suc k'" by (cases k) auto
  then show ?case by (cases b) simp_all
next
  case (JNum n)
  then obtain k' where k: "k = Suc k'" by (cases k) auto
  have n: "valid_num n" "list_all num_char n" using JNum by (simp_all add: num_ok_def)
  then obtain c cs where c: "n = c # cs" "num_char c" by (cases n) (auto simp: valid_num_def)
  show ?case
    using take_num [OF n(2) JNum.prems(3)] n(1) num_char_head [OF c(2)] unfolding c(1) by (simp add: k)
next
  case (JStr s)
  then obtain k' where "k = Suc k'" by (cases k) auto
  then show ?case using parse_string_text [of s rest] JStr.prems by (simp add: quoted_def)
next
  case (JArr js)
  then obtain k' where k: "k = Suc k'" "sum_list (map (\<lambda>j. Suc (need j)) js) \<le> k'" by (cases k) (auto simp: comp_def)
  show ?case
    unfolding k(1) using JArr k(2) assms(1) by (intro parse_array_lay) (auto simp: list_all_iff)
next
  case (JObj kvs)
  have fuel: "sum_list (map (\<lambda>x. Suc (snd x)) (map (map_prod id need) kvs)) = sum_list (map (\<lambda>x. Suc (need (snd x))) kvs)"
    by (simp add: comp_def)
  then obtain k' where k: "k = Suc k'" "sum_list (map (\<lambda>x. Suc (need (snd x))) kvs) \<le> k'"
    using JObj.prems by (cases k) auto
  have ok: "\<forall>x\<in>set kvs. utf8_ok (fst x) \<and> json_ok (snd x)" using JObj.prems by (auto simp: list_all_iff)
  show ?case
    unfolding k(1)
  proof (rule parse_object_lay [OF assms ok k(2)])
    fix x and k :: nat and rest assume x: "x \<in> set kvs" "need (snd x) \<le> k" "delim rest"
    show "parse_val k (json_lay nl sp (snd x) (Suc d) @ rest) = Some (snd x, rest)"
      using JObj.IH [OF x(1), of "snd x" k rest] x ok by (simp add: snds.simps)
  qed
qed

lemma json_parse_lay:
  assumes "\<And>d. blank (nl d)" and "blank sp" and "json_ok j" and "blank rest"
  shows "json_parse (json_lay nl sp j d @ rest) = Some j"
proof -
  have "need j \<le> 2 * length (json_lay nl sp j d @ rest) + 2"
    using need_le [OF assms(3)] length_lay [of j nl sp d] by simp
  moreover have "delim rest" using assms(4) num_char_head(1) by (cases rest) (auto simp: delim_def blank_def)
  moreover have "skip_ws rest = []" using skip_blank [OF assms(4), of "[]"] by simp
  ultimately show ?thesis
    using parse_val_lay [of nl sp j "2 * length (json_lay nl sp j d @ rest) + 2" rest d, OF assms(1-3)]
    unfolding json_parse_def by simp
qed

lemma parse_val_text:
  "json_ok j \<Longrightarrow> need j \<le> k \<Longrightarrow> delim rest \<Longrightarrow> parse_val k (json_text j @ rest) = Some (j, rest)"
  using parse_val_lay [of "\<lambda>d. []" "[]"] by (simp add: json_lay_text)

text \<open>Reading back the text of a value: from \<open>Marshal\<close>, from a line of a stream, from \<open>MarshalIndent\<close>.\<close>

lemma json_parse_text: "json_ok j \<Longrightarrow> json_parse (json_text j) = Some j"
  using json_parse_lay [of "\<lambda>d. []" "[]" j "[]"] by (simp add: json_lay_text)

lemma json_parse_line: "json_ok j \<Longrightarrow> json_parse (json_text j @ [CHR 0x0A]) = Some j"
  using json_parse_lay [of "\<lambda>d. []" "[]" j "[CHR 0x0A]"] by (simp add: json_lay_text blank_def is_ws_def code_def)

lemma json_parse_indent: "json_ok j \<Longrightarrow> json_parse (json_indent j) = Some j"
  unfolding json_indent_def
  using json_parse_lay [of "\<lambda>d. CHR 0x0A # replicate (2 * d) (CHR '' '')" "'' ''" j "[]"]
  by (simp add: blank_def is_ws_def code_def list_all_iff)

end
