(* ===== verification/Base64.thy ===== *)
theory Base64
  imports JsonText
begin

text \<open>
  \<open>base64.StdEncoding\<close>, which \<open>encoding/json\<close> uses for byte slices: the encoder, the decoder,
  and that decoding what was encoded gives the bytes back.
\<close>

definition b64_alphabet :: string where
  "b64_alphabet = ''ABCDEFGHIJKLMNOPQRSTUVWXYZabcdefghijklmnopqrstuvwxyz0123456789+/''"

definition b64_digit :: "nat \<Rightarrow> char" where
  "b64_digit n = b64_alphabet ! (n mod 64)"

fun base64 :: "bytes \<Rightarrow> string" where
  "base64 (a # b # c # cs) =
     [b64_digit (code a div 4), b64_digit (code a * 16 + code b div 16),
      b64_digit (code b * 4 + code c div 64), b64_digit (code c)] @ base64 cs"
| "base64 [a, b] =
     [b64_digit (code a div 4), b64_digit (code a * 16 + code b div 16), b64_digit (code b * 4), CHR ''='']"
| "base64 [a] = [b64_digit (code a div 4), b64_digit (code a * 16), CHR ''='', CHR ''='']"
| "base64 [] = []"

definition b64_val :: "char \<Rightarrow> nat option" where
  "b64_val ch =
     (let n = code ch
      in if 65 \<le> n \<and> n \<le> 90 then Some (n - 65)
         else if 97 \<le> n \<and> n \<le> 122 then Some (n - 71)
         else if 48 \<le> n \<and> n \<le> 57 then Some (n + 4)
         else if ch = CHR ''+'' then Some 62 else if ch = CHR ''/'' then Some 63 else None)"

text \<open>Line breaks are skipped; padding ends the text; the spare bits of a short group are ignored.\<close>

fun b64_groups :: "string \<Rightarrow> bytes option" where
  "b64_groups [] = Some []"
| "b64_groups (p # q # r # s # rest) =
     (case (b64_val p, b64_val q) of
        (Some a, Some b) \<Rightarrow>
          let x = char_of (a * 4 + b div 16)
          in if r = CHR ''='' then (if s = CHR ''='' \<and> rest = [] then Some [x] else None)
             else (case b64_val r of
                     None \<Rightarrow> None
                   | Some c \<Rightarrow>
                       let y = char_of (b * 16 + c div 4)
                       in if s = CHR ''='' then (if rest = [] then Some [x, y] else None)
                          else (case b64_val s of
                                  None \<Rightarrow> None
                                | Some d \<Rightarrow> map_option (\<lambda>bs. x # y # char_of (c * 64 + d) # bs) (b64_groups rest)))
      | _ \<Rightarrow> None)"
| "b64_groups _ = None"

definition base64_decode :: "string \<Rightarrow> bytes option" where
  "base64_decode s = b64_groups (filter (\<lambda>c. code c \<noteq> 10 \<and> code c \<noteq> 13) s)"

section \<open>Round trip\<close>

lemma b64_values: "map b64_val b64_alphabet = map Some [0..<64]"
  by (simp add: b64_val_def b64_alphabet_def code_def Let_def upt_conv_Cons)

lemma b64_chars: "\<forall>c\<in>set b64_alphabet. code c < 128 \<and> code c \<noteq> 10 \<and> code c \<noteq> 13 \<and> c \<noteq> CHR ''=''"
  by (simp add: b64_alphabet_def code_def)

lemma length_b64_alphabet: "length b64_alphabet = 64"
  by (simp add: b64_alphabet_def)

lemma b64_digit_facts:
  "b64_val (b64_digit n) = Some (n mod 64)" "code (b64_digit n) < 128"
  "code (b64_digit n) \<noteq> 10" "code (b64_digit n) \<noteq> 13" "b64_digit n \<noteq> CHR ''=''"
proof -
  have n: "n mod 64 < length b64_alphabet" by (simp add: length_b64_alphabet)
  have "b64_val (b64_alphabet ! (n mod 64)) = map b64_val b64_alphabet ! (n mod 64)" using n by simp
  then show "b64_val (b64_digit n) = Some (n mod 64)" by (simp add: b64_values b64_digit_def)
  have "b64_digit n \<in> set b64_alphabet" unfolding b64_digit_def using n by (rule nth_mem)
  then show "code (b64_digit n) < 128" "code (b64_digit n) \<noteq> 10" "code (b64_digit n) \<noteq> 13" "b64_digit n \<noteq> CHR ''=''"
    using b64_chars by blast+
qed

lemmas b64_digit_ascii = b64_digit_facts(2)

lemma code_less: "code c < 256"
  by (simp add: code_def)

lemma char_of_cong: "n mod 256 = code c \<Longrightarrow> char_of n = c"
  by (metis char_of_mod_256 code_def char_of_char)

lemma low_part:
  fixes a x :: nat
  assumes "0 < k" and "0 < m" and "x < k"
  shows "(a * k + x) mod (m * k) = a mod m * k + x"
  using assms by (simp add: mod_mult2_eq mult.commute [of m k])

lemma sextets:
  fixes a b c :: nat
  assumes "a < 256" and "b < 256" and "c < 256"
  shows "(a div 4 mod 64 * 4 + (a * 16 + b div 16) mod 64 div 16) mod 256 = a" (is ?A)
    and "((a * 16 + b div 16) mod 64 * 16 + (b * 4 + c div 64) mod 64 div 4) mod 256 = b" (is ?B)
    and "((b * 4 + c div 64) mod 64 * 64 + c mod 64) mod 256 = c" (is ?C)
proof -
  have ab: "(a * 16 + b div 16) mod 64 = a mod 4 * 16 + b div 16" using low_part [of 16 4 "b div 16" a] assms by simp
  have bc: "(b * 4 + c div 64) mod 64 = b mod 16 * 4 + c div 64" using low_part [of 4 16 "c div 64" b] assms by simp
  have "(a mod 4 * 16 + b div 16) div 16 = a mod 4" using assms by simp
  then show ?A using assms by (simp add: ab)
  have "(b mod 16 * 4 + c div 64) div 4 = b mod 16" using assms by simp
  moreover have "(r * 16 + u) * 16 + v = r * 256 + b" if "u * 16 + v = b" for r u v using that by simp
  then have "(a mod 4 * 16 + b div 16) * 16 + b mod 16 = a mod 4 * 256 + b" by simp
  ultimately have "(a mod 4 * 16 + b div 16) * 16 + (b mod 16 * 4 + c div 64) div 4 = a mod 4 * 256 + b" by simp
  then show ?B using assms unfolding ab bc by simp
  have "(b mod 16 * 4 + c div 64) * 64 + c mod 64 = b mod 16 * 256 + c" by simp
  then show ?C using assms unfolding bc by simp
qed

lemma b64_filter: "filter (\<lambda>c. code c \<noteq> 10 \<and> code c \<noteq> 13) (base64 bs) = base64 bs"
  by (induction bs rule: base64.induct) (simp_all add: b64_digit_facts, simp_all add: code_def)

lemma base64_decode_encode [simp]: "base64_decode (base64 bs) = Some bs"
proof -
  have "b64_groups (base64 bs) = Some bs"
  proof (induction bs rule: base64.induct)
    case (1 a b c cs)
    then show ?case
      using sextets [OF code_less [of a] code_less [of b] code_less [of c], THEN char_of_cong]
      by (simp add: b64_digit_facts Let_def)
  next
    case (2 a b)
    then show ?case
      using sextets(1,2) [OF code_less [of a] code_less [of b], of 0, THEN char_of_cong]
      by (simp add: b64_digit_facts Let_def)
  next
    case (3 a)
    then show ?case
      using sextets(1) [OF code_less [of a], of 0 0, THEN char_of_cong] by (simp add: b64_digit_facts Let_def)
  qed simp
  then show ?thesis by (simp add: base64_decode_def b64_filter)
qed

end
