(* ===== verification/JsonDecode.thy ===== *)
theory JsonDecode
  imports JsonRoundTrip Base64
begin

text \<open>
  \<open>json.Unmarshal\<close> into Go structures: how members find their fields, and how strings,
  booleans, integers, byte slices and slices are decoded.  A decoder takes the value the
  target holds before and gives \<open>None\<close> for an error; \<open>null\<close> leaves the target as it is.  The
  last section reads back what \<open>Marshal\<close> writes.
\<close>

section \<open>Fields\<close>

text \<open>
  Member names match fields up to case.  Unicode folds two more characters to ASCII letters,
  the long s (\<open>U+017F\<close>) and the Kelvin sign (\<open>U+212A\<close>).
\<close>

fun fold_name :: "string \<Rightarrow> string" where
  "fold_name [] = []"
| "fold_name (c # cs) =
     (if code c = 197 \<and> map code (take 1 cs) = [191] then CHR ''s'' # fold_name (drop 1 cs)
      else if code c = 226 \<and> map code (take 2 cs) = [132, 170] then CHR ''k'' # fold_name (drop 2 cs)
      else (if 65 \<le> code c \<and> code c \<le> 90 then char_of (code c + 32) else c) # fold_name cs)"

text \<open>A member that no field matches is ignored; members that match one field are decoded in turn.\<close>

definition decode_struct :: "(string \<Rightarrow> json \<Rightarrow> 'a \<Rightarrow> 'a option) \<Rightarrow> json \<Rightarrow> 'a \<Rightarrow> 'a option" where
  "decode_struct field j z =
     (case j of
        JNull \<Rightarrow> Some z
      | JObj ms \<Rightarrow> foldl (\<lambda>acc x. Option.bind acc (field (fold_name (fst x)) (snd x))) (Some z) ms
      | _ \<Rightarrow> None)"

section \<open>Values\<close>

definition as_string :: "json \<Rightarrow> string \<Rightarrow> string option" where
  "as_string j old = (case j of JStr s \<Rightarrow> Some s | JNull \<Rightarrow> Some old | _ \<Rightarrow> None)"

definition as_bool :: "json \<Rightarrow> bool \<Rightarrow> bool option" where
  "as_bool j old = (case j of JBool b \<Rightarrow> Some b | JNull \<Rightarrow> Some old | _ \<Rightarrow> None)"

definition digits_val :: "string \<Rightarrow> int" where
  "digits_val ds = foldl (\<lambda>n c. 10 * n + int (code c - 48)) 0 ds"

text \<open>\<open>strconv.ParseInt\<close> on a number literal: no fraction, no exponent, and within 64 bits.\<close>

definition parse_int64 :: "string \<Rightarrow> int option" where
  "parse_int64 s =
     (let neg = (s \<noteq> [] \<and> hd s = CHR ''-''); ds = (if neg then tl s else s);
          n = (if neg then - digits_val ds else digits_val ds)
      in if ds \<noteq> [] \<and> list_all is_digit ds \<and> in64 n then Some n else None)"

definition as_int64 :: "json \<Rightarrow> int \<Rightarrow> int option" where
  "as_int64 j old = (case j of JNum n \<Rightarrow> parse_int64 n | JNull \<Rightarrow> Some old | _ \<Rightarrow> None)"

text \<open>The elements of an array are decoded over the elements that the slice held, and over zero values after these.\<close>

fun merge_elems :: "('a \<Rightarrow> json \<Rightarrow> 'a option) \<Rightarrow> 'a \<Rightarrow> 'a list \<Rightarrow> json list \<Rightarrow> 'a list option" where
  "merge_elems dec z old [] = Some []"
| "merge_elems dec z old (j # js) =
     (case dec (case old of [] \<Rightarrow> z | x # xs \<Rightarrow> x) j of
        None \<Rightarrow> None
      | Some y \<Rightarrow> map_option ((#) y) (merge_elems dec z (tl old) js))"

definition as_list :: "('a \<Rightarrow> json \<Rightarrow> 'a option) \<Rightarrow> 'a \<Rightarrow> json \<Rightarrow> 'a list \<Rightarrow> 'a list option" where
  "as_list dec z j old =
     (case j of JNull \<Rightarrow> Some [] | JArr js \<Rightarrow> merge_elems dec z old js | _ \<Rightarrow> None)"

definition as_byte :: "char \<Rightarrow> json \<Rightarrow> char option" where
  "as_byte old j =
     (case as_int64 j (of_char old) of
        Some n \<Rightarrow> if 0 \<le> n \<and> n < 256 then Some (char_of n) else None
      | None \<Rightarrow> None)"

text \<open>A byte slice is written in base64; an array of numbers is read as well.\<close>

definition as_bytes :: "json \<Rightarrow> bytes \<Rightarrow> bytes option" where
  "as_bytes j old = (case j of JStr s \<Rightarrow> base64_decode s | _ \<Rightarrow> as_list as_byte (CHR 0x00) j old)"

section \<open>Reading back\<close>

named_theorems decode_simps "equations that evaluate the decoding of a structure"

lemma decode_struct_Nil [decode_simps]: "decode_struct field (JObj []) z = Some z"
  by (simp add: decode_struct_def)

lemma decode_struct_Cons [decode_simps]:
  "field (fold_name n) j z = Some z' \<Longrightarrow>
    decode_struct field (JObj ((n, j) # ms)) z = decode_struct field (JObj ms) z'"
  by (simp add: decode_struct_def)

text \<open>The names in the program's tags are lower case, where folding changes nothing.\<close>

lemma fold_name_plain: "list_all (\<lambda>c. 91 \<le> code c \<and> code c < 128) n \<Longrightarrow> fold_name n = n"
  by (induction n rule: fold_name.induct) auto

declare fold_name.simps(2) [simp del]

lemma as_string_JStr [decode_simps]: "as_string (JStr s) old = Some s"
  by (simp add: as_string_def)

lemma as_bool_JBool [decode_simps]: "as_bool (JBool b) old = Some b"
  by (simp add: as_bool_def)

lemma as_bytes_base64 [decode_simps]: "as_bytes (JStr (base64 b)) old = Some b"
  by (simp add: as_bytes_def)

lemma digits_val_snoc: "digits_val (ds @ [c]) = 10 * digits_val ds + int (code c - 48)"
  by (simp add: digits_val_def)

lemma less_10: "(n::nat) < 10 \<longleftrightarrow> n \<in> {0, 1, 2, 3, 4, 5, 6, 7, 8, 9}"
  by auto

lemma digit_char_code: "n < 10 \<Longrightarrow> code (digit_char n) = n + 48"
  unfolding less_10 by (auto simp: digit_char_def code_def)

lemma show_nat_digits: "list_all is_digit (show_nat n) \<and> digits_val (show_nat n) = int n"
proof (induction n rule: less_induct)
  case (less n)
  show ?case
  proof (cases "n < 10")
    case True
    then show ?thesis
      using digit_char_code [of n] by (subst (1 2) show_nat.simps) (simp add: is_digit_def digits_val_def)
  next
    case False
    then have "list_all is_digit (show_nat (n div 10))" "digits_val (show_nat (n div 10)) = int (n div 10)"
      using less [of "n div 10"] by simp_all
    then show ?thesis
      using False digit_char_code [of "n mod 10"]
      by (subst (1 2) show_nat.simps) (simp add: is_digit_def digits_val_snoc zdiv_int zmod_int flip: of_nat_add of_nat_mult)
  qed
qed

lemma digit_not_minus: "is_digit c \<Longrightarrow> c \<noteq> CHR ''-''"
  by (auto simp: is_digit_def code_def)

lemma parse_int64_show [simp]: "in64 i \<Longrightarrow> parse_int64 (show_int i) = Some i"
proof -
  assume i: "in64 i"
  show ?thesis
  proof (cases "i < 0")
    case True
    then show ?thesis using i show_nat_digits [of "nat (- i)"] by (simp add: parse_int64_def show_int_def Let_def)
  next
    case False
    obtain c cs where c: "show_nat (nat i) = c # cs" by (cases "show_nat (nat i)") simp_all
    then have "c \<noteq> CHR ''-''" using show_nat_digits [of "nat i"] digit_not_minus by fastforce
    then show ?thesis using i False show_nat_digits [of "nat i"] c by (simp add: parse_int64_def show_int_def Let_def)
  qed
qed

lemma as_int64_show [decode_simps]: "in64 i \<Longrightarrow> as_int64 (JNum (show_int i)) old = Some i"
  by (simp add: as_int64_def)

lemma show_nat_head: "0 < n \<Longrightarrow> hd (show_nat n) \<noteq> CHR ''0''"
proof (induction n rule: less_induct)
  case (less n)
  show ?case
  proof (cases "n < 10")
    case True
    then have "code (digit_char n) \<noteq> 48" using less.prems digit_char_code [of n] by simp
    then have "digit_char n \<noteq> CHR ''0''" by (auto simp: code_def)
    then show ?thesis using True by (subst show_nat.simps) simp
  next
    case False
    then have "hd (show_nat (n div 10)) \<noteq> CHR ''0''" by (intro less.IH) simp_all
    then show ?thesis using False by (subst show_nat.simps) simp
  qed
qed

lemma digits_num_char: "list_all is_digit ds \<Longrightarrow> list_all num_char ds"
  by (auto simp: list_all_iff num_char_def)

lemma valid_int_show_nat: "valid_int (show_nat n)"
proof -
  obtain c cs where c: "show_nat n = c # cs" by (cases "show_nat n") simp_all
  then have d: "is_digit c" "list_all is_digit cs" using show_nat_digits [of n] by simp_all
  have dw: "dropWhile is_digit cs = []" using d(2) by (induction cs) simp_all
  show ?thesis
  proof (cases "n = 0")
    case True
    then have "show_nat n = ''0''" by (subst show_nat.simps) (simp add: digit_char_def)
    then show ?thesis by (simp add: valid_int_def valid_frac_def)
  next
    case False
    then have "c \<noteq> CHR ''0''" using show_nat_head [of n] c by simp
    then show ?thesis using c d(1) by (simp add: valid_int_def dw valid_frac_def)
  qed
qed

lemma num_ok_show_int [simp]: "num_ok (show_int i)"
proof (cases "i < 0")
  case True
  then show ?thesis
    using valid_int_show_nat [of "nat (- i)"] digits_num_char [of "show_nat (nat (- i))"] show_nat_digits [of "nat (- i)"]
    by (simp add: num_ok_def show_int_def valid_num_def num_char_def)
next
  case False
  obtain c cs where c: "show_nat (nat i) = c # cs" by (cases "show_nat (nat i)") simp_all
  then have "c \<noteq> CHR ''-''" using show_nat_digits [of "nat i"] digit_not_minus by fastforce
  then show ?thesis
    using False c valid_int_show_nat [of "nat i"] digits_num_char [of "show_nat (nat i)"] show_nat_digits [of "nat i"]
    by (simp add: num_ok_def show_int_def valid_num_def)
qed

lemma merge_elems_fresh:
  "(\<And>x. x \<in> set xs \<Longrightarrow> dec z (enc x) = Some x) \<Longrightarrow> merge_elems dec z [] (map enc xs) = Some xs"
  by (induction xs) simp_all

section \<open>Plain text\<close>

text \<open>Printable ASCII strings are valid UTF-8, so hexadecimal and base64 text can be written as JSON strings.\<close>

definition ascii :: "string \<Rightarrow> bool" where
  "ascii s \<longleftrightarrow> list_all (\<lambda>c. code c < 128) s"

lemma ascii_Nil [simp]: "ascii []"
  by (simp add: ascii_def)

lemma ascii_Cons [simp]: "ascii (c # cs) \<longleftrightarrow> code c < 128 \<and> ascii cs"
  by (simp add: ascii_def)

lemma ascii_app [simp]: "ascii (s @ t) \<longleftrightarrow> ascii s \<and> ascii t"
  by (simp add: ascii_def)

lemma ascii_utf8_upto: "ascii s \<Longrightarrow> length s \<le> n \<Longrightarrow> utf8_ok_upto n s"
proof (induction s arbitrary: n)
  case Nil
  then show ?case by (cases n) simp_all
next
  case (Cons c s)
  then show ?case by (cases n) simp_all
qed

lemma ascii_utf8 [simp]: "ascii s \<Longrightarrow> utf8_ok s"
  by (simp add: utf8_ok_def ascii_utf8_upto)

lemma ascii_base64 [simp]: "ascii (base64 b)"
proof (induction b rule: base64.induct)
qed (simp_all add: b64_digit_ascii, simp_all add: code_def)

section \<open>Lines\<close>

text \<open>The text of a JSON value has no line break, so it travels as one line of a stream.\<close>

definition newline :: char where
  "newline = CHR 0x0A"

lemma code_newline [simp]: "code newline = 10"
  by (simp add: newline_def code_def)

lemma rune_tail_cont: "rune_tail (c # cs) = Some n \<Longrightarrow> \<not> code c < 128 \<Longrightarrow> \<forall>d\<in>set (take n cs). 128 \<le> code d"
  by (auto simp: Let_def cont_byte_def split: if_splits list.splits)

lemma hex_lower_newline: "n < 16 \<Longrightarrow> hex_lower n \<noteq> newline"
  using hex_val_lower [of n] by (auto simp: hex_val_def Let_def)

lemma u_escape_newline: "newline \<notin> set (u_escape r)"
proof -
  have h: "newline \<noteq> hex_lower (n mod 16)" for n by (rule hex_lower_newline [THEN not_sym]) simp
  have "newline \<notin> {backslash, CHR ''u''}" by (simp add: newline_def backslash_def)
  then show ?thesis using h by (simp add: u_escape_def)
qed

lemma ascii_escape_newline: "newline \<notin> set (ascii_escape c)"
  using u_escape_newline [of "code c"]
  by (auto simp: ascii_escape_def newline_def backslash_def quote_char_def code_def)

lemma str_text_newline: "newline \<notin> set (str_text n s)"
proof (induction n s rule: str_text.induct)
  case (3 k c cs)
  show ?case
  proof (cases "code c < 128")
    case True
    then show ?thesis using 3 ascii_escape_newline by simp
  next
    case False
    then have "c \<noteq> newline" by auto
    moreover have "newline \<notin> set (take n cs)" if "rune_tail (c # cs) = Some n" for n
      using rune_tail_cont [OF that False] by fastforce
    ultimately show ?thesis using 3 False u_escape_newline by (auto split: option.split simp del: rune_tail.simps)
  qed
qed simp_all

lemma num_char_newline: "\<not> num_char newline"
  by (simp add: num_char_def is_digit_def newline_def code_def)

lemma join_with_newline: "newline \<notin> set sep \<Longrightarrow> \<forall>x\<in>set xs. newline \<notin> set x \<Longrightarrow> newline \<notin> set (join_with sep xs)"
  by (induction sep xs rule: join_with.induct) auto

lemma json_text_newline: "json_ok j \<Longrightarrow> newline \<notin> set (json_text j)"
proof (induction j)
  case (JNum n)
  then show ?case using num_char_newline by (auto simp: num_ok_def list_all_iff)
next
  case (JStr s)
  then show ?case using str_text_newline [of "length s" s] by (simp add: quoted_def newline_def quote_char_def)
next
  case (JArr js)
  then have "newline \<notin> set (join_with '','' (map json_text js))"
    by (intro join_with_newline) (auto simp: list_all_iff newline_def)
  then show ?case by (simp add: newline_def)
next
  case (JObj kvs)
  have "newline \<notin> set (quoted (fst x) @ '':'' @ json_text (snd x))" if x: "x \<in> set kvs" for x
  proof -
    have "newline \<notin> set (json_text (snd x))"
      using JObj.IH [OF x, of "snd x"] JObj.prems x by (auto simp: snds.simps list_all_iff)
    then show ?thesis
      using str_text_newline [of "length (fst x)" "fst x"] by (simp add: quoted_def newline_def quote_char_def)
  qed
  then have "newline \<notin> set (join_with '','' (map (\<lambda>x. quoted (fst x) @ '':'' @ json_text (snd x)) kvs))"
    by (intro join_with_newline) (auto simp: newline_def)
  then show ?case by (simp add: newline_def comp_def case_prod_beta)
qed (simp_all add: newline_def)

text \<open>\<open>bufio.Reader.ReadBytes\<close>: the bytes up to a line break and whether there was one.\<close>

definition read_line :: "bytes \<Rightarrow> bytes \<times> bool" where
  "read_line s =
     (let l = takeWhile (\<lambda>c. c \<noteq> newline) s
      in if length l < length s then (l @ [newline], True) else (l, False))"

lemma read_line_text: "json_ok j \<Longrightarrow> read_line (json_text j @ [newline]) = (json_text j @ [newline], True)"
proof -
  assume "json_ok j"
  then have "\<forall>c\<in>set (json_text j). c \<noteq> newline" using json_text_newline by blast
  then have "takeWhile (\<lambda>c. c \<noteq> newline) (json_text j @ [newline]) = json_text j" by simp
  then show ?thesis by (simp add: read_line_def Let_def)
qed

lemma json_parse_newline [simp]: "json_ok j \<Longrightarrow> json_parse (json_text j @ [newline]) = Some j"
  unfolding newline_def by (rule json_parse_line)

end
