(* ===== verification/JsonCompact.thy ===== *)
theory JsonCompact
  imports JsonDecode
begin

text \<open>
  \<open>json.Compact\<close> leaves the texts that \<open>json.Marshal\<close> writes as they are: a payload that was written
  by it travels through raw messages unchanged.
\<close>

text \<open>A character that compaction never looks at, inside a string or outside.\<close>

definition bare :: "char \<Rightarrow> bool" where
  "bare c \<longleftrightarrow> c \<noteq> backslash \<and> c \<noteq> quote_char \<and> c \<notin> {CHR ''<'', CHR ''>'', CHR ''&''} \<and> code c \<noteq> 226"

lemma sep_head: "c # cs = line_sep \<Longrightarrow> code c = 226" "c # cs = para_sep \<Longrightarrow> code c = 226"
  by (simp_all add: line_sep_def para_sep_def code_def)

lemma squeeze_bare: "bare c \<Longrightarrow> instr \<or> \<not> is_ws c \<Longrightarrow> squeeze instr (c # cs) = c # squeeze instr cs"
  using sep_head [of c "take 2 cs"] by (auto simp: bare_def)

lemma squeeze_bares: "\<forall>c\<in>set x. bare c \<and> (instr \<or> \<not> is_ws c) \<Longrightarrow> squeeze instr (x @ ys) = x @ squeeze instr ys"
  by (induction x) (simp_all add: squeeze_bare del: squeeze.simps)

lemma bare_high: "128 \<le> code c \<Longrightarrow> code c \<noteq> 226 \<Longrightarrow> bare c"
  by (auto simp: bare_def backslash_def quote_char_def code_def)

lemma bare_hex: "n < 16 \<Longrightarrow> bare (hex_lower n)"
  by (auto simp: hex_lower_def less_Suc_eq numeral_eq_Suc bare_def backslash_def quote_char_def code_def)

section \<open>Strings\<close>

lemma squeeze_escaped: "squeeze True (backslash # c # ys) = backslash # c # squeeze True ys"
  by simp

lemma squeeze_u_escape: "squeeze True (u_escape r @ ys) = u_escape r @ squeeze True ys"
proof -
  let ?h = "[hex_lower (r div 4096 mod 16), hex_lower (r div 256 mod 16), hex_lower (r div 16 mod 16), hex_lower (r mod 16)]"
  have "squeeze True (?h @ ys) = ?h @ squeeze True ys"
    by (rule squeeze_bares) (simp add: bare_hex)
  then show ?thesis
    by (simp add: u_escape_def del: squeeze.simps) (simp add: squeeze_escaped del: squeeze.simps)
qed

lemma squeeze_ascii:
  assumes "code c < 128"
  shows "squeeze True (ascii_escape c @ ys) = ascii_escape c @ squeeze True ys"
proof (cases "bare c \<and> \<not> code c < 32")
  case True
  then have "ascii_escape c = [c]"
    by (auto simp: ascii_escape_def bare_def)
  then show ?thesis
    using True by (simp add: squeeze_bare del: squeeze.simps)
next
  case False
  then have "c = quote_char \<or> c = backslash \<or> code c < 32 \<or> c \<in> {CHR ''<'', CHR ''>'', CHR ''&''}"
    using assms by (auto simp: bare_def)
  then show ?thesis
    by (auto simp: ascii_escape_def squeeze_escaped squeeze_u_escape simp del: squeeze.simps)
qed

lemma rune_shape:
  "rune_tail (c # cs) = Some n \<Longrightarrow> \<not> code c < 128 \<Longrightarrow> (code c = 226 \<longrightarrow> n = 2 \<and> 2 \<le> length cs) \<and> (\<forall>d\<in>set (take n cs). cont_byte d)"
  by (auto simp: Let_def split: if_splits list.splits)

lemma squeeze_rune:
  assumes "rune_tail (c # cs) = Some n" "\<not> code c < 128" "c # take n cs \<noteq> line_sep" "c # take n cs \<noteq> para_sep"
  shows "squeeze True ((c # take n cs) @ ys) = (c # take n cs) @ squeeze True ys"
proof -
  note shape = rune_shape [OF assms(1,2)]
  have "\<forall>d\<in>set (take n cs). bare d"
    using shape bare_high by (auto simp: cont_byte_def)
  then have tail: "squeeze True (take n cs @ ys) = take n cs @ squeeze True ys"
    by (intro squeeze_bares) simp
  have "squeeze True (c # (take n cs @ ys)) = c # squeeze True (take n cs @ ys)"
  proof (cases "code c = 226")
    case False
    then show ?thesis
      using assms(2) by (intro squeeze_bare bare_high) simp_all
  next
    case True
    then have "take 2 (take n cs @ ys) = take n cs"
      using shape by simp
    moreover have "c \<noteq> backslash" "c \<noteq> quote_char" "c \<noteq> CHR ''<''" "c \<noteq> CHR ''>''" "c \<noteq> CHR ''&''"
      using True by (auto simp: backslash_def quote_char_def code_def)
    ultimately show ?thesis
      using assms(3,4) by simp
  qed
  then show ?thesis
    using tail by simp
qed

lemma squeeze_str_text: "squeeze True (str_text n s @ ys) = str_text n s @ squeeze True ys"
proof (induction n s rule: str_text.induct)
  case (3 k c cs)
  show ?case
  proof (cases "code c < 128")
    case True
    then show ?thesis
      using 3 squeeze_ascii [OF True] by simp
  next
    case False
    show ?thesis
    proof (cases "rune_tail (c # cs)")
      case None
      then show ?thesis
        using 3 False squeeze_u_escape by (simp del: rune_tail.simps squeeze.simps)
    next
      case (Some n)
      then show ?thesis
        using 3(3) [OF False Some] False squeeze_u_escape squeeze_rune [OF Some False]
        by (auto simp del: rune_tail.simps squeeze.simps)
    qed
  qed
qed simp_all

lemma squeeze_quote: "squeeze instr (quote_char # ys) = quote_char # squeeze (\<not> instr) ys"
  by (simp add: quote_char_def backslash_def)

lemma squeeze_quoted: "squeeze False (quoted s @ ys) = quoted s @ squeeze False ys"
  by (simp add: quoted_def squeeze_quote squeeze_str_text del: squeeze.simps)

section \<open>Values\<close>

lemma bare_punctuation:
  "\<forall>c\<in>set ''null''. bare c \<and> \<not> is_ws c" "\<forall>c\<in>set ''true''. bare c \<and> \<not> is_ws c" "\<forall>c\<in>set ''false''. bare c \<and> \<not> is_ws c"
  "\<forall>c\<in>set ''[]{},:''. bare c \<and> \<not> is_ws c"
  by (simp_all add: bare_def is_ws_def code_def backslash_def quote_char_def)

lemma squeeze_punct: "c \<in> set ''[]{},:'' \<Longrightarrow> squeeze False (c # ys) = c # squeeze False ys"
  using bare_punctuation(4) by (intro squeeze_bare) blast+

lemma num_char_bare: "num_char c \<Longrightarrow> bare c \<and> \<not> is_ws c"
  by (auto simp: num_char_def is_digit_def bare_def is_ws_def code_def backslash_def quote_char_def)

lemma squeeze_joined:
  assumes "\<And>x ys. x \<in> set xs \<Longrightarrow> squeeze False (x @ ys) = x @ squeeze False ys"
  shows "squeeze False (join_with '','' xs @ ys) = join_with '','' xs @ squeeze False ys"
  using assms
proof (induction "'',''" xs arbitrary: ys rule: join_with.induct)
  case (3 x y xs)
  then show ?case
    using squeeze_punct [of "CHR '',''"] by (simp del: squeeze.simps)
qed simp_all

lemma squeeze_text: "json_ok j \<Longrightarrow> squeeze False (json_text j @ ys) = json_text j @ squeeze False ys"
proof (induction j arbitrary: ys)
  case JNull
  show ?case
    unfolding json_text.simps using bare_punctuation by (intro squeeze_bares) blast
next
  case (JBool b)
  show ?case
    unfolding json_text.simps using bare_punctuation by (intro squeeze_bares) auto
next
  case (JNum n)
  then show ?case
    unfolding json_text.simps using num_char_bare by (intro squeeze_bares) (auto simp: num_ok_def list_all_iff)
next
  case (JStr s)
  show ?case
    unfolding json_text.simps by (rule squeeze_quoted)
next
  case (JArr js)
  have "squeeze False (join_with '','' (map json_text js) @ zs) = join_with '','' (map json_text js) @ squeeze False zs" for zs
    using JArr by (intro squeeze_joined) (auto simp: list_all_iff simp del: squeeze.simps)
  then show ?case
    using squeeze_punct [of "CHR ''[''"] squeeze_punct [of "CHR '']''"] by (simp del: squeeze.simps)
next
  case (JObj kvs)
  let ?xs = "map (\<lambda>x. quoted (fst x) @ '':'' @ json_text (snd x)) kvs"
  have "squeeze False (json_text (snd x) @ zs) = json_text (snd x) @ squeeze False zs" if x: "x \<in> set kvs" for x zs
    using JObj.IH [OF x, of "snd x"] JObj.prems x by (auto simp: snds.simps list_all_iff)
  then have "squeeze False (join_with '','' ?xs @ zs) = join_with '','' ?xs @ squeeze False zs" for zs
    using squeeze_punct [of "CHR '':''"] by (intro squeeze_joined) (auto simp: squeeze_quoted simp del: squeeze.simps)
  moreover have "json_text (JObj kvs) = ''{'' @ join_with '','' ?xs @ ''}''"
    by (simp add: comp_def case_prod_beta)
  ultimately show ?case
    using squeeze_punct [of "CHR ''{''"] squeeze_punct [of "CHR ''}''"] by (simp del: squeeze.simps json_text.simps)
qed

lemma compact_text [simp]: "json_ok j \<Longrightarrow> json_compact (json_text j) = Some (json_text j)"
  using squeeze_text [of j "[]"] by (simp add: json_compact_def json_parse_text del: json_text.simps)

end
