(* ===== verification/JsonIndent.thy ===== *)
theory JsonIndent
  imports JsonCompact
begin

text \<open>
  \<open>json.Indent\<close> as a function on bytes, which \<open>json.MarshalIndent\<close> applies to what \<open>json.Marshal\<close>
  wrote: white space outside strings goes, and line breaks and spaces are put around the
  punctuation.  On the text of a value it gives the layout that the parser reads back.
\<close>

definition line_break :: "nat \<Rightarrow> bytes" where
  "line_break d = CHR 0x0A # replicate (2 * d) (CHR '' '')"

text \<open>
  \<open>instr\<close> is whether the scanner is inside a string, \<open>open_pending\<close> whether the break after an
  opening bracket is still to be written (an empty array or object stays closed), \<open>d\<close> the depth.
\<close>

fun indent_text :: "bool \<Rightarrow> bool \<Rightarrow> nat \<Rightarrow> bytes \<Rightarrow> bytes" where
  "indent_text instr open_pending d [] = []"
| "indent_text instr open_pending d (c # cs) =
     (if instr then
        (if c = backslash then (case cs of [] \<Rightarrow> [c] | e # es \<Rightarrow> c # e # indent_text True open_pending d es)
         else c # indent_text (c \<noteq> quote_char) open_pending d cs)
      else if is_ws c then indent_text False open_pending d cs
      else if c = CHR '']'' \<or> c = CHR ''}'' then
        (if open_pending then c # indent_text False False d cs
         else line_break (d - 1) @ c # indent_text False False (d - 1) cs)
      else
        (let d' = (if open_pending then Suc d else d)
         in (if open_pending then line_break d' else []) @
            (if c = CHR ''['' \<or> c = CHR ''{'' then c # indent_text False True d' cs
             else if c = CHR '','' then c # line_break d' @ indent_text False False d' cs
             else if c = CHR '':'' then c # CHR '' '' # indent_text False False d' cs
             else c # indent_text (c = quote_char) False d' cs)))"

declare indent_text.simps(2) [simp del]

section \<open>Strings\<close>

lemma indent_in_char: "c \<noteq> backslash \<Longrightarrow> c \<noteq> quote_char \<Longrightarrow> indent_text True b d (c # ys) = c # indent_text True b d ys"
  by (simp add: indent_text.simps)

lemma indent_in_chars: "\<forall>c\<in>set x. c \<noteq> backslash \<and> c \<noteq> quote_char \<Longrightarrow> indent_text True b d (x @ ys) = x @ indent_text True b d ys"
  by (induction x) (simp_all add: indent_in_char)

lemma indent_escaped: "indent_text True b d (backslash # c # ys) = backslash # c # indent_text True b d ys"
  by (simp add: indent_text.simps)

lemma indent_u_escape: "indent_text True b d (u_escape r @ ys) = u_escape r @ indent_text True b d ys"
proof -
  let ?h = "[hex_lower (r div 4096 mod 16), hex_lower (r div 256 mod 16), hex_lower (r div 16 mod 16), hex_lower (r mod 16)]"
  have "bare (hex_lower (n mod 16))" for n
    by (rule bare_hex) simp
  then have "indent_text True b d (?h @ ys) = ?h @ indent_text True b d ys"
    by (intro indent_in_chars) (simp add: bare_def)
  then show ?thesis
    by (simp add: u_escape_def indent_escaped)
qed

lemma indent_ascii: "indent_text True b d (ascii_escape c @ ys) = ascii_escape c @ indent_text True b d ys"
  by (simp add: ascii_escape_def indent_escaped indent_u_escape indent_in_char)

lemma indent_str_text: "indent_text True b d (str_text n s @ ys) = str_text n s @ indent_text True b d ys"
proof (induction n s rule: str_text.induct)
  case (3 k c cs)
  show ?case
  proof (cases "code c < 128")
    case True
    then show ?thesis
      using 3 indent_ascii by simp
  next
    case False
    show ?thesis
    proof (cases "rune_tail (c # cs)")
      case None
      then show ?thesis
        using 3 False indent_u_escape by (simp del: rune_tail.simps)
    next
      case (Some n)
      have high: "e \<noteq> backslash \<and> e \<noteq> quote_char" if "128 \<le> code e" for e
        using that by (auto simp: backslash_def quote_char_def code_def)
      have "indent_text True b d ((c # take n cs) @ zs) = (c # take n cs) @ indent_text True b d zs" for zs
        using False rune_tail_cont [OF Some False] high by (intro indent_in_chars) auto
      then show ?thesis
        using 3(3) [OF False Some] False Some indent_u_escape by (simp del: rune_tail.simps)
    qed
  qed
qed simp_all

section \<open>Values\<close>

text \<open>The break that is written before a value when one is pending, and the depth after it.\<close>

definition pend :: "bool \<Rightarrow> nat \<Rightarrow> bytes" where
  "pend b d = (if b then line_break (Suc d) else [])"

definition deep :: "bool \<Rightarrow> nat \<Rightarrow> nat" where
  "deep b d = (if b then Suc d else d)"

lemma pend_deep [simp]: "pend False d = []" "pend True d = line_break (Suc d)" "deep False d = d" "deep True d = Suc d"
  by (simp_all add: pend_def deep_def)

definition loose :: "char \<Rightarrow> bool" where
  "loose c \<longleftrightarrow> \<not> is_ws c \<and> c \<notin> set ''[]{},:'' \<and> c \<noteq> quote_char"

lemma indent_loose: "loose c \<Longrightarrow> indent_text False b d (c # ys) = pend b d @ c # indent_text False False (deep b d) ys"
  by (simp add: indent_text.simps Let_def loose_def pend_def deep_def)

lemma indent_looses:
  assumes "\<forall>c\<in>set x. loose c" "x \<noteq> []"
  shows "indent_text False b d (x @ ys) = pend b d @ x @ indent_text False False (deep b d) ys"
  using assms
proof (induction x arbitrary: b d)
  case (Cons c x)
  then show ?case
    by (cases "x = []") (simp_all add: indent_loose)
qed simp

lemma indent_quoted: "indent_text False b d (quoted s @ ys) = pend b d @ quoted s @ indent_text False False (deep b d) ys"
proof -
  have "indent_text False b d (quote_char # zs) = pend b d @ quote_char # indent_text True False (deep b d) zs" for zs
    by (simp add: indent_text.simps Let_def pend_def deep_def) (simp add: quote_char_def)
  moreover have "indent_text True False e (quote_char # zs) = quote_char # indent_text False False e zs" for e zs
    by (simp add: indent_text.simps quote_char_def backslash_def)
  ultimately show ?thesis
    by (simp add: quoted_def indent_str_text)
qed

lemma indent_punct:
  "indent_text False b d (CHR ''['' # ys) = pend b d @ CHR ''['' # indent_text False True (deep b d) ys"
  "indent_text False b d (CHR ''{'' # ys) = pend b d @ CHR ''{'' # indent_text False True (deep b d) ys"
  "indent_text False True d (CHR '']'' # ys) = CHR '']'' # indent_text False False d ys"
  "indent_text False True d (CHR ''}'' # ys) = CHR ''}'' # indent_text False False d ys"
  "indent_text False False (Suc d) (CHR '']'' # ys) = line_break d @ CHR '']'' # indent_text False False d ys"
  "indent_text False False (Suc d) (CHR ''}'' # ys) = line_break d @ CHR ''}'' # indent_text False False d ys"
  "indent_text False False d (CHR '','' # ys) = CHR '','' # line_break d @ indent_text False False d ys"
  "indent_text False False d (CHR '':'' # ys) = CHR '':'' # CHR '' '' # indent_text False False d ys"
  by (simp_all add: indent_text.simps Let_def pend_def deep_def is_ws_def code_def)

lemma indent_joined:
  assumes "\<And>x b d ys. x \<in> set xs \<Longrightarrow> indent_text False b d (f x @ ys) = pend b d @ g x (deep b d) @ indent_text False False (deep b d) ys"
    and "xs \<noteq> []"
  shows "indent_text False b d (join_with '','' (map f xs) @ ys)
    = pend b d @ join_with ('','' @ line_break (deep b d)) (map (\<lambda>x. g x (deep b d)) xs) @ indent_text False False (deep b d) ys"
  using assms
proof (induction xs arbitrary: b d ys rule: induct_list012)
  case (3 x y xs)
  have "indent_text False b' d' (join_with '','' (map f (y # xs)) @ ys)
    = pend b' d' @ join_with ('','' @ line_break (deep b' d')) (map (\<lambda>x. g x (deep b' d')) (y # xs)) @ indent_text False False (deep b' d') ys" for b' d'
    using 3 by (intro "3.IH"(2)) auto
  from this [of False "deep b d"] show ?case
    using 3(3) [of x] by (simp add: indent_punct)
qed simp_all

lemma indent_json:
  "json_ok j \<Longrightarrow> indent_text False b d (json_text j @ ys)
    = pend b d @ json_lay line_break '' '' j (deep b d) @ indent_text False False (deep b d) ys"
proof (induction j arbitrary: b d ys)
  case JNull
  show ?case
    unfolding json_text.simps json_lay.simps by (rule indent_looses) (simp_all add: loose_def is_ws_def code_def quote_char_def)
next
  case (JBool c)
  show ?case
    unfolding json_text.simps json_lay.simps by (rule indent_looses) (simp_all add: loose_def is_ws_def code_def quote_char_def)
next
  case (JNum n)
  have "loose c" if "num_char c" for c
    using that by (auto simp: num_char_def is_digit_def loose_def is_ws_def code_def quote_char_def)
  then show ?case
    using JNum unfolding json_text.simps json_lay.simps
    by (intro indent_looses) (auto simp: num_ok_def list_all_iff valid_num_def)
next
  case (JStr s)
  show ?case
    unfolding json_text.simps json_lay.simps by (rule indent_quoted)
next
  case (JArr js)
  show ?case
  proof (cases "js = []")
    case False
    have "indent_text False c e (join_with '','' (map json_text js) @ zs) = pend c e
        @ join_with ('','' @ line_break (deep c e)) (map (\<lambda>j. json_lay line_break '' '' j (deep c e)) js)
        @ indent_text False False (deep c e) zs" for c e zs
      using JArr False by (intro indent_joined) (auto simp: list_all_iff)
    from this [of True "deep b d"] show ?thesis
      using False by (simp add: indent_punct comp_def)
  qed (simp add: indent_punct)
next
  case (JObj kvs)
  show ?case
  proof (cases "kvs = []")
    case False
    let ?f = "\<lambda>x. quoted (fst x) @ '':'' @ json_text (snd x)"
    let ?g = "\<lambda>x d. quoted (fst x) @ '':'' @ '' '' @ json_lay line_break '' '' (snd x) d"
    have "indent_text False c e (?f x @ zs) = pend c e @ ?g x (deep c e) @ indent_text False False (deep c e) zs"
      if x: "x \<in> set kvs" for x c e zs
      using JObj.IH [OF x, of "snd x" False "deep c e"] JObj.prems x by (simp add: snds.simps list_all_iff indent_quoted indent_punct)
    then have "indent_text False c e (join_with '','' (map ?f kvs) @ zs) = pend c e
        @ join_with ('','' @ line_break (deep c e)) (map (\<lambda>x. ?g x (deep c e)) kvs) @ indent_text False False (deep c e) zs" for c e zs
      using False by (intro indent_joined)
    from this [of True "deep b d"] show ?thesis
      using False by (simp add: indent_punct comp_def case_prod_beta)
  qed (simp add: indent_punct)
qed

definition json_MarshalIndent :: "bytes \<Rightarrow> bytes" where
  "json_MarshalIndent marshalled = indent_text False False 0 marshalled"

lemma MarshalIndent_text: "json_ok j \<Longrightarrow> json_MarshalIndent (json_text j) = json_indent j"
  using indent_json [of j False 0 "[]"] by (simp add: json_MarshalIndent_def json_indent_def line_break_def [abs_def])

end
