(* ===== verification/StoreSpec.thy ===== *)
theory StoreSpec
  imports Prelude
begin

text \<open>
  What the relay node relies on when it stores messages for offline peers: the interface as
  a locale.  \<open>view s p\<close> is the list of messages stored for a peer, oldest first, \<open>mid\<close> a
  message's identifier and \<open>target\<close> the peer it is for; \<open>prepared\<close> is the message as the
  store keeps it.  The operations take an argument \<open>e\<close>, the environment of the call.
\<close>

locale message_store =
  fixes sinv :: "'s \<Rightarrow> bool"
    and view :: "'s \<Rightarrow> 'p \<Rightarrow> 'm list"
    and mid :: "'m \<Rightarrow> string"
    and target :: "'m \<Rightarrow> 'p"
    and put :: "'e \<Rightarrow> 's \<Rightarrow> 'm \<Rightarrow> 's"
    and prepared :: "'e \<Rightarrow> 's \<Rightarrow> 'm \<Rightarrow> 'm"
    and remove :: "'e \<Rightarrow> 's \<Rightarrow> 'p \<Rightarrow> string \<Rightarrow> 's"
  assumes put_inv: "sinv s \<Longrightarrow> sinv (put e s m)"
    and put_view: "sinv s \<Longrightarrow> view (put e s m) p =
      (if p = target m then view s p @ [prepared e s m] else view s p)"
    and remove_inv: "sinv s \<Longrightarrow> sinv (remove e s p i)"
    and remove_view: "sinv s \<Longrightarrow> view (remove e s p i) p' =
      (if p' = p then remove_first (\<lambda>m. mid m = i) (view s p) else view s p')"
begin

lemma put_stored: "sinv s \<Longrightarrow> prepared e s m \<in> set (view (put e s m) (target m))"
  by (simp add: put_view)

lemma put_keeps: "sinv s \<Longrightarrow> x \<in> set (view s p) \<Longrightarrow> x \<in> set (view (put e s m) p)"
  by (auto simp: put_view)

lemma remove_keeps_others:
  "sinv s \<Longrightarrow> x \<in> set (view s p') \<Longrightarrow> p' \<noteq> p \<or> mid x \<noteq> i \<Longrightarrow> x \<in> set (view (remove e s p i) p')"
  by (auto simp: remove_view intro: remove_first_keeps)

lemma remove_only_shrinks: "sinv s \<Longrightarrow> set (view (remove e s p i) p') \<subseteq> set (view s p')"
  by (auto simp: remove_view dest: set_remove_first_subset [THEN subsetD])

end

text \<open>A store that also counts delivery attempts; marking keeps every message and its place.\<close>

locale retrying_store = message_store sinv view mid target put prepared remove
  for sinv :: "'s \<Rightarrow> bool" and view :: "'s \<Rightarrow> 'p \<Rightarrow> 'm list" and mid :: "'m \<Rightarrow> string"
    and target :: "'m \<Rightarrow> 'p" and put :: "'e \<Rightarrow> 's \<Rightarrow> 'm \<Rightarrow> 's"
    and prepared :: "'e \<Rightarrow> 's \<Rightarrow> 'm \<Rightarrow> 'm" and remove :: "'e \<Rightarrow> 's \<Rightarrow> 'p \<Rightarrow> string \<Rightarrow> 's" +
  fixes mark :: "'e \<Rightarrow> 's \<Rightarrow> 'p \<Rightarrow> string \<Rightarrow> 's"
  assumes mark_inv: "sinv s \<Longrightarrow> sinv (mark e s p i)"
    and mark_ids: "sinv s \<Longrightarrow> map mid (view (mark e s p i) p') = map mid (view s p')"
begin

lemma mark_id_set: "sinv s \<Longrightarrow> mid ` set (view (mark e s p i) p') = mid ` set (view s p')"
  using mark_ids [of s e p i p'] by (metis set_map)

end

end
