(* ===== verification/MessageQueue.thy ===== *)
theory MessageQueue
  imports GoSlice JsonIndent StoreSpec Float64
begin

text \<open>
  The store-and-forward queue of \<open>internal/relay/queue.go\<close>: pending messages per peer, each
  list a Go slice over a backing array that \<open>Peek\<close> hands out, and one file per peer
  that holds the same messages.  The model keeps the slices and their arrays, because the
  delivery loops of the relay node read a peeked slice while they remove messages from it.

  A file of the queue directory holds bytes: the indented JSON text of a list of messages, which
  a restart parses and decodes again.  \<open>env\<close> holds what the code takes from elsewhere: libp2p's
  text form of a peer ID, the Go runtime's growth of a full slice, the literal that a
  number comes back as after \<open>encoding/json\<close> has read it as a \<open>float64\<close> (none when it is
  out of range), and the text of a \<open>time.Time\<close>.  An operation that ranges
  over the \<open>pending\<close> map takes the order in which the runtime visits the keys.
\<close>

section \<open>State\<close>

type_synonym peer = string

text \<open>The text of a \<open>time.Time\<close>, which has none outside the years 0 to 9999, and its parser.\<close>

record time_codec =
  tm_text :: "time \<Rightarrow> string option"
  tm_parse :: "string \<Rightarrow> time option"

record env =
  pid_String :: "peer \<Rightarrow> string"
  pid_Decode :: "string \<Rightarrow> peer option"
  grow :: "nat \<Rightarrow> nat"
  num_any :: "string \<Rightarrow> string option"
  en_time :: time_codec

text \<open>
  The dynamic values of a \<open>Content interface{}\<close>: a byte slice, a raw JSON message, or what
  \<open>encoding/json\<close> decodes a value into.
\<close>

datatype content = CBytes bytes | CRaw bytes | CAny json

text \<open>\<open>json.Marshal\<close> of a content: a byte slice is base64 text, a nil raw message is \<open>null\<close>.\<close>

fun content_text :: "content \<Rightarrow> bytes option" where
  "content_text (CBytes b) = Some (json_text (JStr (base64 b)))"
| "content_text (CRaw b) = (if b = [] then Some ''null'' else json_compact b)"
| "content_text (CAny j) = Some (json_text j)"

fun content_value :: "content \<Rightarrow> json option" where
  "content_value (CBytes b) = Some (JStr (base64 b))"
| "content_value (CRaw b) = (if b = [] then Some JNull else json_parse b)"
| "content_value (CAny j) = Some j"

definition content_ok :: "content \<Rightarrow> bool" where
  "content_ok c \<longleftrightarrow> content_text c \<noteq> None"

lemma content_value_text: "content_value c \<noteq> None \<longleftrightarrow> content_ok c"
  by (cases c) (auto simp: content_ok_def json_compact_def)

record queued_msg =
  qm_ID :: string
  qm_From :: peer
  qm_To :: peer
  qm_Type :: string
  qm_Content :: content
  qm_CreatedAt :: time
  qm_ExpiresAt :: time
  qm_Attempts :: int
  qm_LastAttempt :: time

text \<open>An entry of the queue directory: a directory, and whether it is empty, or a file with its bytes.\<close>

datatype dirent = SubDir bool | QueueFile bytes

datatype os_error = NotExist | IsDirectory | NotEmpty | MarshalFailed

record msg_queue =
  q_pending :: "peer \<rightharpoonup> slice"
  q_arrays :: "queued_msg arrays"
  q_disk :: "(string \<times> dirent) list"
  q_ttl :: duration
  q_maxRetry :: int

definition DefaultTTL :: duration where
  "DefaultTTL = 7 * 24 * hour"

text \<open>Go's zero \<open>time.Time\<close> is the first of January of year 1.\<close>

definition zero_time :: time where
  "zero_time = - 62135596800 * second"

definition zero_msg :: queued_msg where
  "zero_msg = \<lparr>qm_ID = [], qm_From = [], qm_To = [], qm_Type = [], qm_Content = CAny JNull,
     qm_CreatedAt = zero_time, qm_ExpiresAt = zero_time, qm_Attempts = 0,
     qm_LastAttempt = zero_time\<rparr>"

definition queue_file :: "env \<Rightarrow> peer \<Rightarrow> string" where
  "queue_file en p = pid_String en p @ ''.json''"

definition pslice :: "msg_queue \<Rightarrow> peer \<Rightarrow> slice" where
  "pslice q p = (case q_pending q p of None \<Rightarrow> nil_slice | Some s \<Rightarrow> s)"

text \<open>The messages pending for a peer, as the map entry reads now.\<close>

definition qview :: "msg_queue \<Rightarrow> peer \<Rightarrow> queued_msg list" where
  "qview q p = elems_of (q_arrays q) (pslice q p)"

section \<open>Operations\<close>

text \<open>\<open>os.Remove\<close> removes a file or an empty directory.\<close>

definition dir_Remove :: "msg_queue \<Rightarrow> string \<Rightarrow> msg_queue \<times> os_error option" where
  "dir_Remove q name =
     (case map_of (q_disk q) name of
        None \<Rightarrow> (q, Some NotExist)
      | Some (SubDir False) \<Rightarrow> (q, Some NotEmpty)
      | Some _ \<Rightarrow> (q\<lparr>q_disk := AList.delete name (q_disk q)\<rparr>, None))"

definition dir_WriteFile :: "msg_queue \<Rightarrow> string \<Rightarrow> bytes \<Rightarrow> msg_queue \<times> os_error option" where
  "dir_WriteFile q name data =
     (case map_of (q_disk q) name of
        Some (SubDir e) \<Rightarrow> (q, Some IsDirectory)
      | _ \<Rightarrow> (q\<lparr>q_disk := AList.update name (QueueFile data) (q_disk q)\<rparr>, None))"

text \<open>
  The text of a message, with the tags of \<open>QueuedMessage\<close>: a content that is not JSON or a time
  without a text is an error.
\<close>

definition qmsg_text :: "env \<Rightarrow> queued_msg \<Rightarrow> bytes option" where
  "qmsg_text en m =
     (case (content_text (qm_Content m), tm_text (en_time en) (qm_CreatedAt m),
         tm_text (en_time en) (qm_ExpiresAt m), tm_text (en_time en) (qm_LastAttempt m)) of
        (Some c, Some created, Some expires, Some attempted) \<Rightarrow>
          Some (''{'' @ join_with '','' (map (\<lambda>(k, v). quoted k @ '':'' @ v)
            [(''id'', quoted (qm_ID m)), (''from'', quoted (pid_String en (qm_From m))),
             (''to'', quoted (pid_String en (qm_To m))), (''type'', quoted (qm_Type m)), (''content'', c),
             (''created_at'', quoted created), (''expires_at'', quoted expires),
             (''attempts'', show_int (qm_Attempts m)), (''last_attempt'', quoted attempted)]) @ ''}'')
      | _ \<Rightarrow> None)"

definition queue_text :: "env \<Rightarrow> queued_msg list \<Rightarrow> bytes option" where
  "queue_text en ms =
     map_option (\<lambda>ts. json_MarshalIndent (''['' @ join_with '','' ts @ '']'')) (those (map (qmsg_text en) ms))"

definition savePeer :: "env \<Rightarrow> msg_queue \<Rightarrow> peer \<Rightarrow> msg_queue \<times> os_error option" where
  "savePeer en q p =
     (let messages = qview q p
      in if messages = [] then dir_Remove q (queue_file en p)
         else (case queue_text en messages of
                 None \<Rightarrow> (q, Some MarshalFailed)
               | Some data \<Rightarrow> dir_WriteFile q (queue_file en p) data))"

definition push_pending :: "env \<Rightarrow> msg_queue \<Rightarrow> peer \<Rightarrow> queued_msg \<Rightarrow> msg_queue" where
  "push_pending en q p m =
     (case append1 (grow en) zero_msg (q_arrays q) (pslice q p) m of
        (h, s) \<Rightarrow> q\<lparr>q_arrays := h, q_pending := (q_pending q)(p \<mapsto> s)\<rparr>)"

definition Enqueue ::
    "env \<Rightarrow> time \<Rightarrow> msg_queue \<Rightarrow> queued_msg \<Rightarrow> msg_queue \<times> os_error option" where
  "Enqueue en now q msg =
     (let msg1 = (if qm_ID msg = [] then msg\<lparr>qm_ID := show_int now\<rparr> else msg);
          msg2 = msg1\<lparr>qm_CreatedAt := now, qm_ExpiresAt := now + q_ttl q, qm_Attempts := 0\<rparr>
      in savePeer en (push_pending en q (qm_To msg2) msg2) (qm_To msg2))"

definition Dequeue :: "env \<Rightarrow> msg_queue \<Rightarrow> peer \<Rightarrow> msg_queue \<times> slice" where
  "Dequeue en q p =
     (let messages = pslice q p;
          q1 = q\<lparr>q_pending := (q_pending q)(p := None)\<rparr>
      in (fst (dir_Remove q1 (queue_file en p)), messages))"

definition Peek :: "msg_queue \<Rightarrow> peer \<Rightarrow> slice" where
  "Peek q p = pslice q p"

fun find_id :: "queued_msg list \<Rightarrow> string \<Rightarrow> nat option" where
  "find_id [] i = None"
| "find_id (m # ms) i = (if qm_ID m = i then Some 0 else map_option Suc (find_id ms i))"

definition bump_attempt :: "time \<Rightarrow> queued_msg \<Rightarrow> queued_msg" where
  "bump_attempt now m = m\<lparr>qm_Attempts := wrap64 (qm_Attempts m + 1), qm_LastAttempt := now\<rparr>"

definition MarkAttempt :: "env \<Rightarrow> time \<Rightarrow> msg_queue \<Rightarrow> peer \<Rightarrow> string \<Rightarrow> msg_queue" where
  "MarkAttempt en now q p msgID =
     (let s = pslice q p;
          q1 = (case find_id (elems_of (q_arrays q) s) msgID of
                  None \<Rightarrow> q
                | Some i \<Rightarrow> q\<lparr>q_arrays :=
                    set_at (q_arrays q) s i (bump_attempt now (elems_of (q_arrays q) s ! i))\<rparr>)
      in fst (savePeer en q1 p))"

definition RemoveMessage :: "env \<Rightarrow> msg_queue \<Rightarrow> peer \<Rightarrow> string \<Rightarrow> msg_queue \<times> bool" where
  "RemoveMessage en q p msgID =
     (let s = pslice q p
      in case find_id (elems_of (q_arrays q) s) msgID of
           None \<Rightarrow> (q, False)
         | Some i \<Rightarrow>
             (case cut_at (q_arrays q) s i of
                (h, s') \<Rightarrow>
                  (fst (savePeer en (q\<lparr>q_arrays := h, q_pending := (q_pending q)(p \<mapsto> s')\<rparr>) p), True)))"

definition HasPending :: "msg_queue \<Rightarrow> peer \<Rightarrow> bool" where
  "HasPending q p \<longleftrightarrow> 0 < snd (pslice q p)"

definition PendingCount :: "msg_queue \<Rightarrow> peer \<Rightarrow> int" where
  "PendingCount q p = int (snd (pslice q p))"

definition TotalPending :: "msg_queue \<Rightarrow> peer list \<Rightarrow> int" where
  "TotalPending q order = foldl (\<lambda>total p. wrap64 (total + int (snd (pslice q p)))) 0 order"

definition PeersWithPending :: "msg_queue \<Rightarrow> peer list \<Rightarrow> peer list" where
  "PeersWithPending q order = filter (\<lambda>p. 0 < snd (pslice q p)) order"

definition still_valid :: "time \<Rightarrow> int \<Rightarrow> queued_msg \<Rightarrow> bool" where
  "still_valid now maxR m \<longleftrightarrow> now < qm_ExpiresAt m \<and> qm_Attempts m < maxR"

text \<open>A slice built by appending to nil, as \<open>valid\<close> in \<open>Cleanup\<close> and the result of \<open>Unmarshal\<close>.\<close>

definition build_slice ::
    "env \<Rightarrow> queued_msg arrays \<Rightarrow> queued_msg list \<Rightarrow> queued_msg arrays \<times> slice" where
  "build_slice en h ms = foldl (\<lambda>(h, s) m. append1 (grow en) zero_msg h s m) (h, nil_slice) ms"

definition cleanup_peer :: "env \<Rightarrow> time \<Rightarrow> msg_queue \<times> int \<Rightarrow> peer \<Rightarrow> msg_queue \<times> int" where
  "cleanup_peer en now qr p =
     (case qr of (q, removed) \<Rightarrow>
       let messages = qview q p;
           valid = filter (still_valid now (q_maxRetry q)) messages;
           removed' = removed + int (length messages - length valid);
           (h, s) = build_slice en (q_arrays q) valid
       in if valid = []
          then (fst (dir_Remove (q\<lparr>q_pending := (q_pending q)(p := None)\<rparr>) (queue_file en p)), removed')
          else (fst (savePeer en (q\<lparr>q_arrays := h, q_pending := (q_pending q)(p \<mapsto> s)\<rparr>) p), removed'))"

definition Queue_Cleanup :: "env \<Rightarrow> time \<Rightarrow> msg_queue \<Rightarrow> peer list \<Rightarrow> msg_queue \<times> int" where
  "Queue_Cleanup en now q order = foldl (cleanup_peer en now) (q, 0) order"

text \<open>
  Decoding a file.  A peer ID is read from its text form, \<open>null\<close> as the empty text; a time from its
  text; \<open>Content\<close> into an \<open>interface{}\<close>.  An error in any message is an error of the whole file.
\<close>

definition as_peer :: "env \<Rightarrow> json \<Rightarrow> peer option" where
  "as_peer en j = (case j of JStr s \<Rightarrow> pid_Decode en s | JNull \<Rightarrow> pid_Decode en [] | _ \<Rightarrow> None)"

definition as_time :: "time_codec \<Rightarrow> json \<Rightarrow> time \<Rightarrow> time option" where
  "as_time tc j old = (case j of JStr s \<Rightarrow> tm_parse tc s | JNull \<Rightarrow> Some old | _ \<Rightarrow> None)"

definition qmsg_field :: "env \<Rightarrow> string \<Rightarrow> json \<Rightarrow> queued_msg \<Rightarrow> queued_msg option" where
  "qmsg_field en n j m =
     (if n = ''id'' then map_option (\<lambda>s. m\<lparr>qm_ID := s\<rparr>) (as_string j (qm_ID m))
      else if n = ''from'' then map_option (\<lambda>p. m\<lparr>qm_From := p\<rparr>) (as_peer en j)
      else if n = ''to'' then map_option (\<lambda>p. m\<lparr>qm_To := p\<rparr>) (as_peer en j)
      else if n = ''type'' then map_option (\<lambda>s. m\<lparr>qm_Type := s\<rparr>) (as_string j (qm_Type m))
      else if n = ''content'' then map_option (\<lambda>c. m\<lparr>qm_Content := CAny c\<rparr>) (json_any (num_any en) j)
      else if n = ''created_at'' then map_option (\<lambda>t. m\<lparr>qm_CreatedAt := t\<rparr>) (as_time (en_time en) j (qm_CreatedAt m))
      else if n = ''expires_at'' then map_option (\<lambda>t. m\<lparr>qm_ExpiresAt := t\<rparr>) (as_time (en_time en) j (qm_ExpiresAt m))
      else if n = ''attempts'' then map_option (\<lambda>i. m\<lparr>qm_Attempts := i\<rparr>) (as_int64 j (qm_Attempts m))
      else if n = ''last_attempt'' then map_option (\<lambda>t. m\<lparr>qm_LastAttempt := t\<rparr>) (as_time (en_time en) j (qm_LastAttempt m))
      else Some m)"

definition queue_decode :: "env \<Rightarrow> bytes \<Rightarrow> queued_msg list option" where
  "queue_decode en data =
     Option.bind (json_parse data) (\<lambda>j. as_list (\<lambda>m j. decode_struct (qmsg_field en) j m) zero_msg j [])"

definition load_entry :: "env \<Rightarrow> msg_queue \<Rightarrow> string \<times> dirent \<Rightarrow> msg_queue" where
  "load_entry en q file =
     (case file of
        (name, SubDir e) \<Rightarrow> q
      | (name, QueueFile data) \<Rightarrow>
          if path_ext name \<noteq> ''.json'' then q
          else (case pid_Decode en (take (length name - 5) name) of
                  None \<Rightarrow> q
                | Some p \<Rightarrow>
                    (case queue_decode en data of
                       None \<Rightarrow> q
                     | Some messages \<Rightarrow>
                         (case build_slice en (q_arrays q) messages of
                            (h, s) \<Rightarrow> q\<lparr>q_arrays := h, q_pending := (q_pending q)(p \<mapsto> s)\<rparr>))))"

text \<open>\<open>os.ReadDir\<close> lists a directory sorted by name.\<close>

definition queue_load :: "env \<Rightarrow> msg_queue \<Rightarrow> msg_queue" where
  "queue_load en q = foldl (load_entry en) q (sort_key fst (q_disk q))"

definition empty_queue :: "(string \<times> dirent) list \<Rightarrow> msg_queue" where
  "empty_queue disk = \<lparr>q_pending = Map.empty, q_arrays = no_arrays,
     q_disk = disk, q_ttl = DefaultTTL, q_maxRetry = 10\<rparr>"

text \<open>\<open>None\<close> for the directory: \<open>MkdirAll\<close> could not create it.\<close>

definition NewMessageQueue :: "env \<Rightarrow> (string \<times> dirent) list option \<Rightarrow> msg_queue option" where
  "NewMessageQueue en dir = (case dir of None \<Rightarrow> None | Some disk \<Rightarrow> Some (queue_load en (empty_queue disk)))"

record queue_stats =
  qs_TotalMessages :: int
  qs_TotalPeers :: int
  qs_OldestMessage :: time
  qs_AverageAttempts :: float64

definition stats_msg :: "int \<times> time \<Rightarrow> queued_msg \<Rightarrow> int \<times> time" where
  "stats_msg acc m =
     (case acc of (attempts, oldest) \<Rightarrow>
       (wrap64 (attempts + qm_Attempts m),
        if oldest = zero_time \<or> qm_CreatedAt m < oldest then qm_CreatedAt m else oldest))"

definition stats_peer :: "msg_queue \<Rightarrow> int \<times> int \<times> time \<Rightarrow> peer \<Rightarrow> int \<times> int \<times> time" where
  "stats_peer q acc p =
     (case acc of (tot, rest) \<Rightarrow>
       (wrap64 (tot + int (length (qview q p))), foldl stats_msg rest (qview q p)))"

definition Queue_Stats :: "msg_queue \<Rightarrow> peer list \<Rightarrow> queue_stats" where
  "Queue_Stats q order =
     (case foldl (stats_peer q) (0, 0, zero_time) order of
        (tot, attempts, oldest) \<Rightarrow>
          \<lparr>qs_TotalMessages = tot, qs_TotalPeers = int (length order), qs_OldestMessage = oldest,
           qs_AverageAttempts = (if 0 < tot then f_div (f_of_int attempts) (f_of_int tot) else 0)\<rparr>)"

text \<open>
  The goroutine of \<open>StartCleanupLoop\<close>: it cleans up at every tick until the caller closes
  the channel it got; what comes after is not read.
\<close>

datatype loop_event = Tick time "peer list" | LoopDone

fun StartCleanupLoop :: "env \<Rightarrow> msg_queue \<Rightarrow> loop_event list \<Rightarrow> msg_queue" where
  "StartCleanupLoop en q [] = q"
| "StartCleanupLoop en q (Tick now order # evs) = StartCleanupLoop en (fst (Queue_Cleanup en now q order)) evs"
| "StartCleanupLoop en q (LoopDone # evs) = q"

section \<open>Invariant\<close>

text \<open>Every pending slice lies inside its array, and no two peers share an array.\<close>

definition queue_inv :: "msg_queue \<Rightarrow> bool" where
  "queue_inv q \<longleftrightarrow>
     wf_arrays (q_arrays q)
     \<and> (\<forall>p. wf_slice (q_arrays q) (pslice q p))
     \<and> (\<forall>p p'. p \<noteq> p' \<longrightarrow> fst (pslice q p) = fst (pslice q p') \<longrightarrow> fst (pslice q p) = 0)
     \<and> finite (dom (q_pending q))"

lemma queue_invD:
  assumes "queue_inv q"
  shows "wf_arrays (q_arrays q)" "wf_slice (q_arrays q) (pslice q p)"
    "p \<noteq> p' \<Longrightarrow> fst (pslice q p) = fst (pslice q p') \<Longrightarrow> fst (pslice q p) = 0"
    "finite (dom (q_pending q))"
  using assms by (auto simp: queue_inv_def)

lemma wf_slice_0: "wf_arrays h \<Longrightarrow> wf_slice h s \<Longrightarrow> fst s = 0 \<Longrightarrow> s = nil_slice"
  by (cases s) (auto simp: wf_slice_def wf_arrays_def nil_slice_def)

lemma wf_slice_pos: "wf_arrays h \<Longrightarrow> wf_slice h s \<Longrightarrow> n < snd s \<Longrightarrow> 0 < fst s"
  using wf_slice_0 [of h s] by (cases "fst s = 0") (simp_all add: nil_slice_def)

lemma wf_slice_nil [simp]: "wf_arrays h \<Longrightarrow> wf_slice h nil_slice"
  by (simp add: wf_arrays_def wf_slice_def nil_slice_def)

lemma length_qview: "queue_inv q \<Longrightarrow> length (qview q p) = snd (pslice q p)"
  by (simp add: qview_def length_elems_of queue_invD)

text \<open>The file operations leave the messages alone.\<close>

lemma savePeer_frame [simp]:
  "q_pending (fst (savePeer en q p)) = q_pending q" "q_arrays (fst (savePeer en q p)) = q_arrays q"
  "q_ttl (fst (savePeer en q p)) = q_ttl q" "q_maxRetry (fst (savePeer en q p)) = q_maxRetry q"
  "q_pending (fst (dir_Remove q n)) = q_pending q" "q_arrays (fst (dir_Remove q n)) = q_arrays q"
  "q_ttl (fst (dir_Remove q n)) = q_ttl q" "q_maxRetry (fst (dir_Remove q n)) = q_maxRetry q"
  by (auto simp: savePeer_def dir_Remove_def dir_WriteFile_def Let_def split: option.splits dirent.splits bool.splits)

lemma pslice_frame [simp]:
  "pslice (fst (savePeer en q p)) = pslice q" "pslice (fst (dir_Remove q n)) = pslice q"
  "pslice (q\<lparr>q_arrays := h\<rparr>) = pslice q"
  by (auto simp: pslice_def fun_eq_iff)

lemma pslice_update [simp]:
  "pslice (q\<lparr>q_arrays := h, q_pending := (q_pending q)(p \<mapsto> s)\<rparr>) p' = (if p' = p then s else pslice q p')"
  "pslice (q\<lparr>q_pending := (q_pending q)(p := None)\<rparr>) p' = (if p' = p then nil_slice else pslice q p')"
  by (auto simp: pslice_def)

lemma qview_frame [simp]:
  "qview (fst (savePeer en q p)) = qview q" "qview (fst (dir_Remove q n)) = qview q"
  by (auto simp: qview_def fun_eq_iff)

lemma queue_inv_frame [simp]:
  "queue_inv (fst (savePeer en q p)) = queue_inv q" "queue_inv (fst (dir_Remove q n)) = queue_inv q"
  by (simp_all add: queue_inv_def)

section \<open>What each operation does to the pending messages\<close>

lemma push_pending_correct:
  assumes inv: "queue_inv q"
  shows "queue_inv (push_pending en q p m)"
    "qview (push_pending en q p m) p' = (if p' = p then qview q p @ [m] else qview q p')"
    "q_ttl (push_pending en q p m) = q_ttl q" "q_disk (push_pending en q p m) = q_disk q"
    "q_maxRetry (push_pending en q p m) = q_maxRetry q"
    "dom (q_pending (push_pending en q p m)) = insert p (dom (q_pending q))"
proof -
  obtain h s where hs: "append1 (grow en) zero_msg (q_arrays q) (pslice q p) m = (h, s)"
    by (cases "append1 (grow en) zero_msg (q_arrays q) (pslice q p) m") auto
  have r: "push_pending en q p m = q\<lparr>q_arrays := h, q_pending := (q_pending q)(p \<mapsto> s)\<rparr>"
    by (simp add: push_pending_def hs)
  note wf = queue_invD(2) [OF inv]
  have other: "fst (pslice q p') \<noteq> fst (pslice q p) \<or> snd (pslice q p') \<le> snd (pslice q p)"
    if "p' \<noteq> p" for p'
    using queue_invD(3) [OF inv that] wf_slice_0 [OF queue_invD(1) [OF inv] wf [of p']]
    by (auto simp: nil_slice_def)
  note o = elems_of_append1_other [OF wf hs other]
  have sep: "fst (pslice q p') = 0" if "p' \<noteq> p" "fst s = fst (pslice q p')" for p'
    using append1_base(1) [OF hs] that queue_invD(3) [OF inv that(1)] wf [of p']
    by (auto simp: wf_slice_def)
  show "queue_inv (push_pending en q p m)"
    unfolding queue_inv_def r
    using elems_of_append1 [OF wf hs] append1_wf_arrays(1) [OF queue_invD(1) [OF inv] hs] o
      sep queue_invD(3,4) [OF inv] append1_wf_arrays(2) [OF queue_invD(1) [OF inv] hs wf]
    by (simp; metis less_irrefl)
  show "qview (push_pending en q p m) p' = (if p' = p then qview q p @ [m] else qview q p')"
    using elems_of_append1 [OF wf hs] o by (simp add: r qview_def)
qed (simp_all add: push_pending_def split: prod.splits)

text \<open>The list functions behind \<open>RemoveMessage\<close> and \<open>MarkAttempt\<close>.\<close>

definition remove_id :: "string \<Rightarrow> queued_msg list \<Rightarrow> queued_msg list" where
  "remove_id i ms = (case find_id ms i of None \<Rightarrow> ms | Some n \<Rightarrow> take n ms @ drop (Suc n) ms)"

definition mark_id :: "time \<Rightarrow> string \<Rightarrow> queued_msg list \<Rightarrow> queued_msg list" where
  "mark_id now i ms =
     (case find_id ms i of None \<Rightarrow> ms | Some n \<Rightarrow> ms[n := bump_attempt now (ms ! n)])"

lemma find_id_SomeD:
  "find_id ms i = Some n \<Longrightarrow> n < length ms \<and> qm_ID (ms ! n) = i \<and> (\<forall>j < n. qm_ID (ms ! j) \<noteq> i)"
proof (induction ms arbitrary: n)
  case (Cons m ms)
  show ?case
  proof (cases "qm_ID m = i")
    case False
    then obtain k where k: "find_id ms i = Some k" "n = Suc k" using Cons.prems by auto
    with Cons.IH [OF k(1)] False show ?thesis by (auto simp: less_Suc_eq_0_disj)
  qed (use Cons.prems in auto)
qed simp

lemma find_id_None_iff: "find_id ms i = None \<longleftrightarrow> i \<notin> qm_ID ` set ms"
  by (induction ms) auto

lemma remove_id_Cons: "remove_id i (m # ms) = (if qm_ID m = i then ms else m # remove_id i ms)"
  by (auto simp: remove_id_def split: option.splits)

lemma remove_id_Nil [simp]: "remove_id i [] = []"
  by (simp add: remove_id_def)

lemma remove_id_absent: "i \<notin> qm_ID ` set ms \<Longrightarrow> remove_id i ms = ms"
  by (simp add: remove_id_def find_id_None_iff [THEN iffD2])

lemma remove_id_distinct:
  "distinct (map qm_ID ms) \<Longrightarrow> remove_id i ms = filter (\<lambda>m. qm_ID m \<noteq> i) ms"
proof (induction ms)
  case (Cons m ms)
  have "\<forall>x \<in> set ms. qm_ID x \<noteq> i" if "qm_ID m = i"
    using Cons.prems that by (auto simp: image_iff)
  with Cons show ?case by (auto simp: remove_id_Cons)
qed simp

lemma map_mark_id: "map qm_ID (mark_id now i ms) = map qm_ID ms"
  by (auto simp: mark_id_def map_update bump_attempt_def split: option.splits dest!: find_id_SomeD)
    (metis length_map list_update_id nth_map)

lemma RemoveMessage_correct:
  assumes inv: "queue_inv q"
  shows "queue_inv (fst (RemoveMessage en q p i))"
    "qview (fst (RemoveMessage en q p i)) p' = (if p' = p then remove_id i (qview q p) else qview q p')"
    "snd (RemoveMessage en q p i) \<longleftrightarrow> i \<in> qm_ID ` set (qview q p)"
    "q_maxRetry (fst (RemoveMessage en q p i)) = q_maxRetry q"
proof -
  let ?q = "fst (RemoveMessage en q p i)"
  have "queue_inv ?q \<and> (\<forall>p'. qview ?q p' = (if p' = p then remove_id i (qview q p) else qview q p'))
    \<and> (snd (RemoveMessage en q p i) \<longleftrightarrow> i \<in> qm_ID ` set (qview q p)) \<and> q_maxRetry ?q = q_maxRetry q"
  proof (cases "find_id (qview q p) i")
    case None
    then show ?thesis
      using inv by (auto simp: RemoveMessage_def remove_id_def find_id_None_iff [symmetric] qview_def Let_def)
  next
    case (Some n)
    obtain h s where hs: "cut_at (q_arrays q) (pslice q p) n = (h, s)"
      by (cases "cut_at (q_arrays q) (pslice q p) n") auto
    note wf = queue_invD(2) [OF inv]
    have n: "n < snd (pslice q p)"
      using find_id_SomeD [OF Some] by (simp add: length_qview inv)
    note c = elems_of_cut [OF wf n hs]
    let ?q1 = "q\<lparr>q_arrays := h, q_pending := (q_pending q)(p \<mapsto> s)\<rparr>"
    have r: "RemoveMessage en q p i = (fst (savePeer en ?q1 p), True)"
      using Some by (simp add: RemoveMessage_def qview_def hs Let_def)
    have "0 < fst (pslice q p)"
      by (rule wf_slice_pos [OF queue_invD(1) [OF inv] wf n])
    then have ne: "fst (pslice q p') \<noteq> fst (pslice q p)" if "p' \<noteq> p" for p'
      using queue_invD(3) [OF inv that] by auto
    have "queue_inv ?q1"
      using c ne wf queue_invD(1,3,4) [OF inv]
      by (auto simp: queue_inv_def wf_slice_def wf_arrays_def)
        (metis length_0_conv, metis gr_implies_not0 gr0I)
    moreover have "qview ?q1 p' = (if p' = p then remove_id i (qview q p) else qview q p')" for p'
      using c(1) elems_of_cut_other [OF hs ne] Some by (simp add: qview_def remove_id_def)
    ultimately show ?thesis
      using Some find_id_None_iff [of "qview q p" i] by (auto simp: r)
  qed
  then show "queue_inv ?q" "qview ?q p' = (if p' = p then remove_id i (qview q p) else qview q p')"
    "snd (RemoveMessage en q p i) \<longleftrightarrow> i \<in> qm_ID ` set (qview q p)" "q_maxRetry ?q = q_maxRetry q"
    by auto
qed

lemma MarkAttempt_correct:
  assumes inv: "queue_inv q"
  shows "queue_inv (MarkAttempt en now q p i)"
    "qview (MarkAttempt en now q p i) p' = (if p' = p then mark_id now i (qview q p) else qview q p')"
proof -
  let ?s = "pslice q p"
  have "queue_inv (MarkAttempt en now q p i) \<and> (\<forall>p'. qview (MarkAttempt en now q p i) p' =
      (if p' = p then mark_id now i (qview q p) else qview q p'))"
  proof (cases "find_id (qview q p) i")
    case None
    then show ?thesis using inv by (simp add: MarkAttempt_def mark_id_def qview_def Let_def)
  next
    case (Some n)
    note wf = queue_invD(2) [OF inv]
    have n: "n < snd ?s" using find_id_SomeD [OF Some] by (simp add: length_qview inv)
    let ?q1 = "q\<lparr>q_arrays := set_at (q_arrays q) ?s n (bump_attempt now (qview q p ! n))\<rparr>"
    have r: "MarkAttempt en now q p i = fst (savePeer en ?q1 p)"
      using Some by (simp add: MarkAttempt_def qview_def Let_def)
    have pos: "0 < fst ?s"
      by (rule wf_slice_pos [OF queue_invD(1) [OF inv] wf n])
    then have ne: "fst (pslice q p') \<noteq> fst ?s" if "p' \<noteq> p" for p'
      using queue_invD(3) [OF inv that] by auto
    have "queue_inv ?q1"
      using pos wf queue_invD(1,3,4) [OF inv]
      by (auto simp: queue_inv_def elems_of_set_at [OF wf n] wf_arrays_def) (simp add: set_at_def)
    moreover have "qview ?q1 p' = (if p' = p then mark_id now i (qview q p) else qview q p')" for p'
      using elems_of_set_at(1) [OF wf n] ne Some
      by (simp add: mark_id_def elems_of_set_at_other) (simp add: qview_def elems_of_set_at_other)
    ultimately show ?thesis by (simp add: r)
  qed
  then show "queue_inv (MarkAttempt en now q p i)"
    "qview (MarkAttempt en now q p i) p' = (if p' = p then mark_id now i (qview q p) else qview q p')"
    by auto
qed

section \<open>Slices built from nil: \<open>Cleanup\<close> and \<open>load\<close>\<close>

lemma build_from:
  assumes "wf_arrays h" and "wf_slice h s" and "s = nil_slice \<or> N \<le> fst s" and "N \<le> next_arr h"
    and "foldl (\<lambda>(h, s) m. append1 g z h s m) (h, s) ms = (h', s')"
  shows "wf_arrays h' \<and> wf_slice h' s' \<and> elems_of h' s' = elems_of h s @ ms
    \<and> (s' = nil_slice \<or> N \<le> fst s') \<and> N \<le> next_arr h'
    \<and> (\<forall>t. wf_slice h t \<longrightarrow> fst t < N \<longrightarrow> elems_of h' t = elems_of h t \<and> wf_slice h' t)"
  using assms
proof (induction ms arbitrary: h s)
  case (Cons m ms)
  obtain h1 s1 where a: "append1 g z h s m = (h1, s1)" by (cases "append1 g z h s m") auto
  note e = elems_of_append1 [OF Cons.prems(2) a]
  have w: "wf_arrays h1" "0 < fst s1"
    using append1_wf_arrays [OF Cons.prems(1) a] Cons.prems(2) by simp_all
  have b: "N \<le> fst s1" "N \<le> next_arr h1"
    using append1_base [OF a] Cons.prems(3,4) w(2) by (auto simp: nil_slice_def)
  have o: "elems_of h1 t = elems_of h t \<and> wf_slice h1 t" if "wf_slice h t" "fst t < N" for t
  proof -
    have "fst t \<noteq> fst s \<or> snd t \<le> snd s"
    proof (cases "fst t = fst s")
      case True
      then have "fst t = 0" using Cons.prems(3) that(2) by (auto simp: nil_slice_def)
      then have "t = nil_slice" by (rule wf_slice_0 [OF Cons.prems(1) that(1)])
      then show ?thesis by (simp add: nil_slice_def)
    qed simp
    from elems_of_append1_other [OF that(1) a this] show ?thesis by simp
  qed
  have "foldl (\<lambda>(h, s) m. append1 g z h s m) (h1, s1) ms = (h', s')"
    using Cons.prems(5) by (simp add: a)
  note IH = Cons.IH [OF w(1) e(2) disjI2 [OF b(1)] b(2) this]
  have "elems_of h' s' = elems_of h s @ m # ms" using IH by (simp only: e(1)) simp
  moreover have "elems_of h' t = elems_of h t \<and> wf_slice h' t" if "wf_slice h t" "fst t < N" for t
    using IH o [OF that] that(2) by metis
  ultimately show ?case using IH by blast
qed (auto simp del: split_paired_All)

lemma set_built_slice:
  assumes inv: "queue_inv q" and b: "build_slice en (q_arrays q) ms = (h, s)"
  shows "queue_inv (q\<lparr>q_arrays := h, q_pending := (q_pending q)(p \<mapsto> s)\<rparr>)"
    "qview (q\<lparr>q_arrays := h, q_pending := (q_pending q)(p \<mapsto> s)\<rparr>) p' =
      (if p' = p then ms else qview q p')"
proof -
  have N: "fst (pslice q p') < next_arr (q_arrays q)" for p'
    using queue_invD(2) [OF inv, of p'] by (simp add: wf_slice_def)
  have all: "wf_arrays h \<and> wf_slice h s \<and> elems_of h s = elems_of (q_arrays q) nil_slice @ ms
    \<and> (s = nil_slice \<or> next_arr (q_arrays q) \<le> fst s) \<and> next_arr (q_arrays q) \<le> next_arr h
    \<and> (\<forall>t. wf_slice (q_arrays q) t \<longrightarrow> fst t < next_arr (q_arrays q) \<longrightarrow>
          elems_of h t = elems_of (q_arrays q) t \<and> wf_slice h t)"
    by (rule build_from [OF queue_invD(1) [OF inv] _ _ _ b [unfolded build_slice_def]])
      (simp_all add: queue_invD(1) [OF inv])
  then have o: "elems_of h (pslice q p') = qview q p'" "wf_slice h (pslice q p')" for p'
    using N queue_invD(2) [OF inv] by (simp_all add: qview_def del: split_paired_All)
  have sep: "fst (pslice q p') = 0" if "fst s = fst (pslice q p')" for p'
    using all N [of p'] that by (auto simp: nil_slice_def)
  show "queue_inv (q\<lparr>q_arrays := h, q_pending := (q_pending q)(p \<mapsto> s)\<rparr>)"
    using all o(2) sep queue_invD(3,4) [OF inv] unfolding queue_inv_def by (simp; metis)
  show "qview (q\<lparr>q_arrays := h, q_pending := (q_pending q)(p \<mapsto> s)\<rparr>) p' =
      (if p' = p then ms else qview q p')"
    using all o(1) by (simp add: qview_def)
qed

lemma drop_pending:
  assumes "queue_inv q"
  shows "queue_inv (q\<lparr>q_pending := (q_pending q)(p := None)\<rparr>)"
    "qview (q\<lparr>q_pending := (q_pending q)(p := None)\<rparr>) p' = (if p' = p then [] else qview q p')"
proof -
  have "wf_arrays (q_arrays q)" using assms by (rule queue_invD)
  then show "queue_inv (q\<lparr>q_pending := (q_pending q)(p := None)\<rparr>)"
    using assms by (auto simp: queue_inv_def nil_slice_def)
      (simp_all add: wf_arrays_def wf_slice_def)
qed (simp add: qview_def)

lemma Dequeue_correct:
  assumes "queue_inv q"
  shows "queue_inv (fst (Dequeue en q p))"
    "qview (fst (Dequeue en q p)) p' = (if p' = p then [] else qview q p')"
    "elems_of (q_arrays (fst (Dequeue en q p))) (snd (Dequeue en q p)) = qview q p"
  using drop_pending [OF assms, of p] by (simp_all add: Dequeue_def Let_def) (simp add: qview_def)

definition stamped :: "time \<Rightarrow> duration \<Rightarrow> queued_msg \<Rightarrow> queued_msg" where
  "stamped now ttl msg = msg\<lparr>qm_ID := (if qm_ID msg = [] then show_int now else qm_ID msg),
     qm_CreatedAt := now, qm_ExpiresAt := now + ttl, qm_Attempts := 0\<rparr>"

lemma Enqueue_eq:
  "Enqueue en now q msg = savePeer en (push_pending en q (qm_To msg) (stamped now (q_ttl q) msg)) (qm_To msg)"
  by (simp add: Enqueue_def stamped_def Let_def)

lemma Enqueue_correct:
  assumes "queue_inv q"
  shows "queue_inv (fst (Enqueue en now q msg))"
    "qview (fst (Enqueue en now q msg)) p =
      (if p = qm_To msg then qview q p @ [stamped now (q_ttl q) msg] else qview q p)"
  using push_pending_correct [OF assms] by (simp_all add: Enqueue_eq)

lemma cleanup_peer_correct:
  assumes inv: "queue_inv q" and r: "cleanup_peer en now (q, n) p = (q', n')"
  shows "queue_inv q'"
    "qview q' p' = (if p' = p then filter (still_valid now (q_maxRetry q)) (qview q p) else qview q p')"
    "n' = n + int (length (filter (\<lambda>m. \<not> still_valid now (q_maxRetry q) m) (qview q p)))"
    "q_maxRetry q' = q_maxRetry q"
proof -
  let ?v = "filter (still_valid now (q_maxRetry q)) (qview q p)"
  obtain h s where b: "build_slice en (q_arrays q) ?v = (h, s)"
    by (cases "build_slice en (q_arrays q) ?v") auto
  have "length (qview q p) - length ?v = length (filter (\<lambda>m. \<not> still_valid now (q_maxRetry q) m) (qview q p))"
    using sum_length_filter_compl [of "still_valid now (q_maxRetry q)" "qview q p"] by simp
  then have n: "n' = n + int (length (filter (\<lambda>m. \<not> still_valid now (q_maxRetry q) m) (qview q p)))"
    using r b by (auto simp: cleanup_peer_def Let_def split: if_splits)
  have q': "q' = (if ?v = [] then fst (dir_Remove (q\<lparr>q_pending := (q_pending q)(p := None)\<rparr>) (queue_file en p))
      else fst (savePeer en (q\<lparr>q_arrays := h, q_pending := (q_pending q)(p \<mapsto> s)\<rparr>) p))"
    using r b by (auto simp: cleanup_peer_def Let_def split: if_splits)
  show "queue_inv q'"
    using drop_pending [OF inv] set_built_slice [OF inv b] by (simp add: q')
  show "qview q' p' = (if p' = p then ?v else qview q p')"
    using drop_pending [OF inv] set_built_slice [OF inv b] by (simp add: q')
  show "n' = n + int (length (filter (\<lambda>m. \<not> still_valid now (q_maxRetry q) m) (qview q p)))" by (rule n)
  show "q_maxRetry q' = q_maxRetry q" by (simp add: q')
qed

lemma cleanup_fold:
  assumes "queue_inv q" and "distinct order" and "foldl (cleanup_peer en now) (q, n) order = (q', n')"
  shows "queue_inv q'"
    "qview q' p = (if p \<in> set order then filter (still_valid now (q_maxRetry q)) (qview q p) else qview q p)"
    "n' = n + (\<Sum>p\<leftarrow>order. int (length (filter (\<lambda>m. \<not> still_valid now (q_maxRetry q) m) (qview q p))))"
proof -
  have "queue_inv q' \<and> (\<forall>p. qview q' p =
      (if p \<in> set order then filter (still_valid now (q_maxRetry q)) (qview q p) else qview q p))
    \<and> n' = n + (\<Sum>p\<leftarrow>order. int (length (filter (\<lambda>m. \<not> still_valid now (q_maxRetry q) m) (qview q p))))"
    using assms
  proof (induction order arbitrary: q n)
    case (Cons p order)
    obtain q1 n1 where c: "cleanup_peer en now (q, n) p = (q1, n1)"
      by (cases "cleanup_peer en now (q, n) p") auto
    note p = cleanup_peer_correct [OF Cons.prems(1) c]
    have "foldl (cleanup_peer en now) (q1, n1) order = (q', n')" using Cons.prems(3) c by simp
    note IH = Cons.IH [OF p(1) _ this]
    have "(\<Sum>p\<leftarrow>order. int (length (filter (\<lambda>m. \<not> still_valid now (q_maxRetry q) m) (qview q1 p))))
      = (\<Sum>p\<leftarrow>order. int (length (filter (\<lambda>m. \<not> still_valid now (q_maxRetry q) m) (qview q p))))"
      using Cons.prems(2) by (intro arg_cong [where f = sum_list] map_cong) (auto simp: p(2))
    with IH Cons.prems(2) show ?case by (auto simp: p(2-4))
  qed auto
  then show "queue_inv q'" "qview q' p =
      (if p \<in> set order then filter (still_valid now (q_maxRetry q)) (qview q p) else qview q p)"
    "n' = n + (\<Sum>p\<leftarrow>order. int (length (filter (\<lambda>m. \<not> still_valid now (q_maxRetry q) m) (qview q p))))"
    by auto
qed

section \<open>The files follow the memory\<close>

text \<open>
  What libp2p documents of the text form of a peer ID, and what is used of it here: no two
  IDs have the same text, and decoding it gives the ID back or fails (as it does for the
  empty ID).
\<close>

definition pid_ok :: "env \<Rightarrow> bool" where
  "pid_ok en \<longleftrightarrow> inj (pid_String en)
     \<and> (\<forall>p. pid_Decode en (pid_String en p) = None \<or> pid_Decode en (pid_String en p) = Some p)"

definition valid_peer :: "env \<Rightarrow> peer \<Rightarrow> bool" where
  "valid_peer en p \<longleftrightarrow> pid_Decode en (pid_String en p) = Some p"

lemma pid_ok_cases:
  "pid_ok en \<Longrightarrow> pid_Decode en (pid_String en p) = (if valid_peer en p then Some p else None)"
  by (auto simp: pid_ok_def valid_peer_def)

text \<open>
  What can be written and read back: a time with a text, text in UTF-8, a payload whose text is the
  one that \<open>json.Marshal\<close> writes for its value.
\<close>

definition time_ok :: "env \<Rightarrow> time \<Rightarrow> bool" where
  "time_ok en t \<longleftrightarrow>
     (case tm_text (en_time en) t of None \<Rightarrow> False | Some s \<Rightarrow> utf8_ok s \<and> tm_parse (en_time en) s = Some t)"

definition content_canon :: "content \<Rightarrow> bool" where
  "content_canon c \<longleftrightarrow>
     (case content_value c of None \<Rightarrow> False | Some j \<Rightarrow> json_ok j \<and> content_text c = Some (json_text j))"

definition msg_ok :: "env \<Rightarrow> queued_msg \<Rightarrow> bool" where
  "msg_ok en m \<longleftrightarrow> utf8_ok (qm_ID m) \<and> utf8_ok (qm_Type m) \<and> utf8_ok (pid_String en (qm_From m))
     \<and> utf8_ok (pid_String en (qm_To m)) \<and> content_canon (qm_Content m) \<and> in64 (qm_Attempts m)
     \<and> time_ok en (qm_CreatedAt m) \<and> time_ok en (qm_ExpiresAt m) \<and> time_ok en (qm_LastAttempt m)"

lemma time_okE:
  assumes "time_ok en t"
  obtains s where "tm_text (en_time en) t = Some s" "utf8_ok s" "tm_parse (en_time en) s = Some t"
  using assms by (auto simp: time_ok_def split: option.splits)

text \<open>What a restart makes of a message: it needs both peer IDs and the content to decode.\<close>

definition reload_msg :: "env \<Rightarrow> queued_msg \<Rightarrow> queued_msg option" where
  "reload_msg en m =
     (if valid_peer en (qm_From m) \<and> valid_peer en (qm_To m)
      then map_option (\<lambda>j. m\<lparr>qm_Content := CAny j\<rparr>) (Option.bind (content_value (qm_Content m)) (json_any (num_any en)))
      else None)"

definition reload_msgs :: "env \<Rightarrow> queued_msg list \<Rightarrow> queued_msg list option" where
  "reload_msgs en ms = those (map (reload_msg en) ms)"

definition reloaded :: "env \<Rightarrow> queued_msg list \<Rightarrow> queued_msg list" where
  "reloaded en ms = (case reload_msgs en ms of None \<Rightarrow> [] | Some ms' \<Rightarrow> ms')"

lemma reloaded_plain:
  assumes "\<forall>m\<in>set ms. valid_peer en (qm_From m) \<and> valid_peer en (qm_To m)
    \<and> (\<exists>j. content_value (qm_Content m) = Some j \<and> json_plain j)"
  shows "reloaded en ms = map (\<lambda>m. m\<lparr>qm_Content := CAny (the (content_value (qm_Content m)))\<rparr>) ms"
proof -
  have "those (map (reload_msg en) ms) = Some (map (\<lambda>m. m\<lparr>qm_Content := CAny (the (content_value (qm_Content m)))\<rparr>) ms)"
  proof (rule those_map_Some)
    fix m assume "m \<in> set ms"
    then obtain j where "content_value (qm_Content m) = Some j" "json_plain j" "valid_peer en (qm_From m)" "valid_peer en (qm_To m)"
      using assms by blast
    then show "reload_msg en m = Some (m\<lparr>qm_Content := CAny (the (content_value (qm_Content m)))\<rparr>)"
      by (simp add: reload_msg_def json_any_plain)
  qed
  then show ?thesis by (simp add: reloaded_def reload_msgs_def)
qed

text \<open>One message whose sender or content does not decode, and the whole file is lost.\<close>

lemma reloaded_lost:
  assumes "m \<in> set ms"
    and "\<not> valid_peer en (qm_From m) \<or> Option.bind (content_value (qm_Content m)) (json_any (num_any en)) = None"
  shows "reloaded en ms = []"
proof -
  have "reload_msg en m = None"
    using assms(2) by (auto simp: reload_msg_def)
  then have "reload_msgs en ms = None"
    using assms(1) unfolding reload_msgs_def by (induction ms) (auto split: option.split)
  then show ?thesis by (simp add: reloaded_def)
qed

definition qmsg_json :: "env \<Rightarrow> queued_msg \<Rightarrow> json" where
  "qmsg_json en m = JObj [(''id'', JStr (qm_ID m)), (''from'', JStr (pid_String en (qm_From m))),
     (''to'', JStr (pid_String en (qm_To m))), (''type'', JStr (qm_Type m)), (''content'', the (content_value (qm_Content m))),
     (''created_at'', JStr (the (tm_text (en_time en) (qm_CreatedAt m)))),
     (''expires_at'', JStr (the (tm_text (en_time en) (qm_ExpiresAt m)))),
     (''attempts'', JNum (show_int (qm_Attempts m))),
     (''last_attempt'', JStr (the (tm_text (en_time en) (qm_LastAttempt m))))]"

lemma qmsg_text_json:
  assumes "msg_ok en m"
  shows "qmsg_text en m = Some (json_text (qmsg_json en m))" "json_ok (qmsg_json en m)"
proof -
  obtain a b c where t: "tm_text (en_time en) (qm_CreatedAt m) = Some a" "tm_text (en_time en) (qm_ExpiresAt m) = Some b"
      "tm_text (en_time en) (qm_LastAttempt m) = Some c" "utf8_ok a" "utf8_ok b" "utf8_ok c"
    using assms by (metis msg_ok_def time_okE)
  obtain j where j: "content_value (qm_Content m) = Some j" "json_ok j" "content_text (qm_Content m) = Some (json_text j)"
    using assms by (auto simp: msg_ok_def content_canon_def split: option.splits)
  show "qmsg_text en m = Some (json_text (qmsg_json en m))"
    by (simp add: qmsg_text_def qmsg_json_def t j)
  show "json_ok (qmsg_json en m)"
    using assms t j by (simp add: qmsg_json_def msg_ok_def code_def)
qed

lemma decode_struct_fail: "field (fold_name n) j z = None \<Longrightarrow> decode_struct field (JObj ((n, j) # ms)) z = None"
proof -
  assume f: "field (fold_name n) j z = None"
  have "foldl (\<lambda>acc x. Option.bind acc (field (fold_name (fst x)) (snd x))) None ms = None"
    by (induction ms) simp_all
  with f show ?thesis by (simp add: decode_struct_def)
qed

lemma qmsg_decode:
  assumes "pid_ok en" "msg_ok en m"
  shows "decode_struct (qmsg_field en) (qmsg_json en m) zero_msg = reload_msg en m"
proof -
  have names: "fold_name n = n" if "n \<in> {''id'', ''from'', ''to'', ''type'', ''content'', ''created_at'', ''expires_at'', ''attempts'', ''last_attempt''}" for n
    using that by (intro fold_name_plain) (auto simp: code_def)
  obtain a b c where t: "tm_text (en_time en) (qm_CreatedAt m) = Some a" "tm_text (en_time en) (qm_ExpiresAt m) = Some b"
      "tm_text (en_time en) (qm_LastAttempt m) = Some c" "tm_parse (en_time en) a = Some (qm_CreatedAt m)"
      "tm_parse (en_time en) b = Some (qm_ExpiresAt m)" "tm_parse (en_time en) c = Some (qm_LastAttempt m)"
    using assms(2) by (metis msg_ok_def time_okE)
  obtain j where j: "content_value (qm_Content m) = Some j"
    using assms(2) by (auto simp: msg_ok_def content_canon_def split: option.splits)
  have peer: "as_peer en (JStr (pid_String en p)) = (if valid_peer en p then Some p else None)" for p
    by (simp add: as_peer_def pid_ok_cases [OF assms(1)])
  have a: "in64 (qm_Attempts m)"
    using assms(2) by (simp add: msg_ok_def)
  show ?thesis
  proof (cases "valid_peer en (qm_From m) \<and> valid_peer en (qm_To m) \<and> json_any (num_any en) j \<noteq> None")
    case True
    then obtain j' where "json_any (num_any en) j = Some j'" by blast
    then show ?thesis
      using True a by (simp add: qmsg_json_def t j reload_msg_def decode_simps qmsg_field_def names peer as_time_def)
  next
    case False
    then show ?thesis
      by (cases "valid_peer en (qm_From m)"; cases "valid_peer en (qm_To m)")
        (simp_all add: qmsg_json_def j reload_msg_def decode_simps decode_struct_fail qmsg_field_def names peer)
  qed
qed

lemma merge_elems_those: "merge_elems dec z [] (map f xs) = those (map (\<lambda>x. dec z (f x)) xs)"
  by (induction xs) (simp_all split: option.split)

text \<open>The text of messages that can be written, and what reading it back gives.\<close>

lemma queue_text_decode:
  assumes "pid_ok en" "\<forall>m\<in>set ms. msg_ok en m"
  shows "queue_text en ms = Some (json_indent (JArr (map (qmsg_json en) ms)))"
    "queue_decode en (json_indent (JArr (map (qmsg_json en) ms))) = reload_msgs en ms"
proof -
  have ok: "json_ok (JArr (map (qmsg_json en) ms))"
    using qmsg_text_json(2) assms(2) by (auto simp: list_all_iff)
  have "those (map (qmsg_text en) ms) = Some (map (\<lambda>m. json_text (qmsg_json en m)) ms)"
    using qmsg_text_json(1) assms(2) by (intro those_map_Some) blast
  then show "queue_text en ms = Some (json_indent (JArr (map (qmsg_json en) ms)))"
    using MarshalIndent_text [OF ok] by (simp add: queue_text_def comp_def)
  have "map (\<lambda>m. decode_struct (qmsg_field en) (qmsg_json en m) zero_msg) ms = map (reload_msg en) ms"
    using qmsg_decode [OF assms(1)] assms(2) by simp
  then show "queue_decode en (json_indent (JArr (map (qmsg_json en) ms))) = reload_msgs en ms"
    by (simp only: queue_decode_def json_parse_indent [OF ok] bind.simps as_list_def json.case merge_elems_those reload_msgs_def)
qed

text \<open>A peer has a file exactly when messages are pending for it, with their text.\<close>

definition file_of_view :: "env \<Rightarrow> msg_queue \<Rightarrow> peer \<Rightarrow> dirent option" where
  "file_of_view en q p = (if qview q p = [] then None else map_option QueueFile (queue_text en (qview q p)))"

definition held :: "env \<Rightarrow> peer \<Rightarrow> queued_msg \<Rightarrow> bool" where
  "held en p m \<longleftrightarrow> msg_ok en m \<and> qm_To m = p"

definition disk_synced :: "env \<Rightarrow> msg_queue \<Rightarrow> bool" where
  "disk_synced en q \<longleftrightarrow>
     (\<forall>p. map_of (q_disk q) (queue_file en p) = file_of_view en q p)
     \<and> distinct (map fst (q_disk q)) \<and> fst ` set (q_disk q) \<subseteq> range (queue_file en)
     \<and> (\<forall>p. \<forall>m\<in>set (qview q p). held en p m)"

lemma queue_file_eq_iff: "pid_ok en \<Longrightarrow> queue_file en p = queue_file en p' \<longleftrightarrow> p = p'"
  by (auto simp: queue_file_def pid_ok_def inj_eq)

lemma savePeer_synced:
  assumes "pid_ok en" and "disk_synced en q0" and "q_disk q = q_disk q0"
    and "\<And>p'. p' \<noteq> p \<Longrightarrow> qview q p' = qview q0 p'"
    and cont: "\<forall>m\<in>set (qview q p). held en p m"
  shows "disk_synced en (fst (savePeer en q p))"
    "qview q p \<noteq> [] \<Longrightarrow> snd (savePeer en q p) = None"
proof -
  have old: "map_of (q_disk q) (queue_file en p') = file_of_view en q0 p'" for p'
    using assms(2,3) by (simp add: disk_synced_def)
  then have nodir: "map_of (q_disk q) (queue_file en p) \<noteq> Some (SubDir e)" for e
    by (cases "queue_text en (qview q0 p)") (simp_all add: file_of_view_def)
  obtain data where data: "queue_text en (qview q p) = Some data"
    using queue_text_decode(1) [OF assms(1)] cont by (auto simp: held_def)
  have sub0: "fst ` set (q_disk q0) \<subseteq> range (queue_file en)"
    using assms(2) by (simp add: disk_synced_def)
  have eq: "file_of_view en q0 p' = file_of_view en q p'" if "p' \<noteq> p" for p'
    using assms(4) that by (simp add: file_of_view_def)
  have disk: "q_disk (fst (savePeer en q p)) =
      (if qview q p = [] then AList.delete (queue_file en p) (q_disk q)
       else AList.update (queue_file en p) (QueueFile data) (q_disk q))"
    using nodir data
    by (auto simp: savePeer_def dir_Remove_def dir_WriteFile_def Let_def map_of_eq_None_iff
        delete_id split: option.splits dirent.splits bool.splits)
  have "map_of (q_disk (fst (savePeer en q p))) (queue_file en p') = file_of_view en q p'" for p'
    using old eq assms(1) data
    by (cases "p' = p") (simp_all add: disk queue_file_eq_iff update_conv' delete_conv' file_of_view_def)
  moreover have "distinct (map fst (q_disk (fst (savePeer en q p))))"
    using assms(2,3) by (simp add: disk disk_synced_def distinct_update distinct_delete)
  moreover have "fst ` set (q_disk (fst (savePeer en q p))) \<subseteq> range (queue_file en)"
    using sub0 assms(3) dom_delete_subset [of "queue_file en p" "q_disk q0"]
    by (simp add: disk dom_update) blast
  moreover have "held en p' m" if "m \<in> set (qview q p')" for p' m
    using assms(2,4) cont that by (cases "p' = p") (auto simp: disk_synced_def)
  moreover have "file_of_view en (fst (savePeer en q p)) = file_of_view en q"
    by (simp add: file_of_view_def fun_eq_iff)
  ultimately show "disk_synced en (fst (savePeer en q p))"
    by (simp add: disk_synced_def del: split_paired_All)
  show "qview q p \<noteq> [] \<Longrightarrow> snd (savePeer en q p) = None"
    using nodir data by (auto simp: savePeer_def dir_WriteFile_def Let_def split: option.splits dirent.splits)
qed

lemma disk_synced_held: "disk_synced en q \<Longrightarrow> m \<in> set (qview q p) \<Longrightarrow> held en p m"
  by (simp add: disk_synced_def)

lemma push_pending_sync:
  assumes "pid_ok en" and "queue_inv q" and "disk_synced en q" and "msg_ok en (stamped now (q_ttl q) msg)"
  shows "disk_synced en (fst (Enqueue en now q msg))" "snd (Enqueue en now q msg) = None"
  using savePeer_synced [OF assms(1,3), of "push_pending en q (qm_To msg) (stamped now (q_ttl q) msg)" "qm_To msg"]
    push_pending_correct [OF assms(2)] disk_synced_held [OF assms(3)] assms(4)
  by (simp_all add: Enqueue_eq held_def) (simp_all add: stamped_def)

lemma dir_Remove_empty: "qview q p = [] \<Longrightarrow> dir_Remove q (queue_file en p) = savePeer en q p"
  by (simp add: savePeer_def Let_def)

lemma Dequeue_sync:
  assumes "pid_ok en" and "queue_inv q" and "disk_synced en q"
  shows "disk_synced en (fst (Dequeue en q p))"
  using savePeer_synced(1) [OF assms(1,3), of "q\<lparr>q_pending := (q_pending q)(p := None)\<rparr>" p]
    drop_pending(2) [OF assms(2), of p]
  by (simp add: Dequeue_def dir_Remove_empty)

lemma set_remove_id_subset: "set (remove_id i ms) \<subseteq> set ms"
  by (induction ms) (auto simp: remove_id_Cons)

lemma held_bump: "held en p m \<Longrightarrow> time_ok en now \<Longrightarrow> held en p (bump_attempt now m)"
  by (auto simp: held_def msg_ok_def bump_attempt_def)

lemma held_mark: "\<forall>m\<in>set ms. held en p m \<Longrightarrow> time_ok en now \<Longrightarrow> m \<in> set (mark_id now i ms) \<Longrightarrow> held en p m"
  using held_bump by (auto simp: mark_id_def dest!: find_id_SomeD set_update_subset_insert [THEN subsetD] split: option.splits)

lemma RemoveMessage_sync:
  assumes "pid_ok en" and "queue_inv q" and "disk_synced en q"
  shows "disk_synced en (fst (RemoveMessage en q p i))"
proof (cases "find_id (qview q p) i")
  case None
  then show ?thesis using assms(3) by (simp add: RemoveMessage_def qview_def Let_def)
next
  case (Some n)
  obtain h s where hs: "cut_at (q_arrays q) (pslice q p) n = (h, s)"
    by (cases "cut_at (q_arrays q) (pslice q p) n") auto
  let ?q1 = "q\<lparr>q_arrays := h, q_pending := (q_pending q)(p \<mapsto> s)\<rparr>"
  have r: "RemoveMessage en q p i = (fst (savePeer en ?q1 p), True)"
    using Some by (simp add: RemoveMessage_def qview_def hs Let_def)
  have "qview ?q1 p' = qview q p'" if "p' \<noteq> p" for p'
    using RemoveMessage_correct(2) [OF assms(2), of en p i p'] that by (simp add: r)
  moreover have "qview ?q1 p = remove_id i (qview q p)"
    using RemoveMessage_correct(2) [OF assms(2), of en p i p] by (simp add: r)
  then have "\<forall>m\<in>set (qview ?q1 p). held en p m"
    using set_remove_id_subset disk_synced_held [OF assms(3)] by fastforce
  ultimately show ?thesis
    using savePeer_synced(1) [OF assms(1,3), of ?q1 p] by (simp add: r)
qed

lemma MarkAttempt_sync:
  assumes "pid_ok en" and "queue_inv q" and "disk_synced en q" and "time_ok en now"
  shows "disk_synced en (MarkAttempt en now q p i)"
proof -
  obtain q1 where q1: "MarkAttempt en now q p i = fst (savePeer en q1 p)" "q_disk q1 = q_disk q"
    by (auto simp: MarkAttempt_def Let_def split: option.splits)
  have "qview q1 p' = qview q p'" if "p' \<noteq> p" for p'
    using MarkAttempt_correct(2) [OF assms(2), of en now p i p'] that by (simp add: q1)
  moreover have "qview q1 p = mark_id now i (qview q p)"
    using MarkAttempt_correct(2) [OF assms(2), of en now p i p] by (simp add: q1)
  then have "\<forall>m\<in>set (qview q1 p). held en p m"
    using held_mark disk_synced_held [OF assms(3)] assms(4) by metis
  ultimately show ?thesis
    using savePeer_synced(1) [OF assms(1,3), of q1 p] by (simp add: q1)
qed

lemma cleanup_peer_sync:
  assumes "pid_ok en" and "queue_inv q" and "disk_synced en q"
    and r: "cleanup_peer en now (q, n) p = (q', n')"
  shows "disk_synced en q'"
proof -
  let ?v = "filter (still_valid now (q_maxRetry q)) (qview q p)"
  obtain h s where b: "build_slice en (q_arrays q) ?v = (h, s)"
    by (cases "build_slice en (q_arrays q) ?v") auto
  let ?q1 = "q\<lparr>q_pending := (q_pending q)(p := None)\<rparr>"
  let ?q2 = "q\<lparr>q_arrays := h, q_pending := (q_pending q)(p \<mapsto> s)\<rparr>"
  have "q' = (if ?v = [] then fst (savePeer en ?q1 p) else fst (savePeer en ?q2 p))"
    using r b drop_pending(2) [OF assms(2), of p p]
    by (auto simp: cleanup_peer_def Let_def dir_Remove_empty split: if_splits)
  then show ?thesis
    using savePeer_synced(1) [OF assms(1,3), of ?q1 p] savePeer_synced(1) [OF assms(1,3), of ?q2 p]
      drop_pending(2) [OF assms(2), of p] set_built_slice(2) [OF assms(2) b]
      disk_synced_held [OF assms(3), of _ p]
    by simp
qed

lemma cleanup_sync:
  assumes "pid_ok en" and "queue_inv q" and "disk_synced en q"
    and "foldl (cleanup_peer en now) (q, n) order = (q', n')"
  shows "disk_synced en q'"
  using assms
proof (induction order arbitrary: q n)
  case (Cons p order)
  obtain q1 n1 where c: "cleanup_peer en now (q, n) p = (q1, n1)"
    by (cases "cleanup_peer en now (q, n) p") auto
  have "foldl (cleanup_peer en now) (q1, n1) order = (q', n')" using Cons.prems(4) c by simp
  with Cons.IH [OF Cons.prems(1) cleanup_peer_correct(1) [OF Cons.prems(2) c]
      cleanup_peer_sync [OF Cons.prems(1-3) c]] show ?case .
qed simp

section \<open>Loading the files\<close>

lemma path_ext_queue_file [simp]: "path_ext (queue_file en p) = ''.json''"
  by (simp add: path_ext_def queue_file_def)

lemma take_queue_file [simp]:
  "take (length (queue_file en p) - 5) (queue_file en p) = pid_String en p"
  by (simp add: queue_file_def)

lemma load_fold:
  assumes "pid_ok en" and "queue_inv q" and "distinct (map fst xs)"
    and "\<forall>x \<in> set xs. \<exists>p data. x = (queue_file en p, QueueFile data)"
  shows "queue_inv (foldl (load_entry en) q xs) \<and> (\<forall>p. qview (foldl (load_entry en) q xs) p =
    (case map_of xs (queue_file en p) of
       Some (QueueFile data) \<Rightarrow>
         (case queue_decode en data of Some ms \<Rightarrow> if valid_peer en p then ms else qview q p | None \<Rightarrow> qview q p)
     | _ \<Rightarrow> qview q p))"
  using assms(2-4)
proof (induction xs arbitrary: q)
  case (Cons x xs)
  obtain p0 data where x: "x = (queue_file en p0, QueueFile data)" using Cons.prems(3) by auto
  have x_absent: "map_of xs (queue_file en p0) = None"
    using Cons.prems(2) by (simp add: x map_of_eq_None_iff)
  show ?case
  proof (cases "valid_peer en p0 \<and> queue_decode en data \<noteq> None")
    case True
    then obtain ms where ms: "queue_decode en data = Some ms" "valid_peer en p0" by auto
    obtain h s where b: "build_slice en (q_arrays q) ms = (h, s)"
      by (cases "build_slice en (q_arrays q) ms") auto
    let ?q1 = "q\<lparr>q_arrays := h, q_pending := (q_pending q)(p0 \<mapsto> s)\<rparr>"
    have l: "load_entry en q (queue_file en p0, QueueFile data) = ?q1"
      using b ms by (simp add: load_entry_def pid_ok_cases [OF assms(1)])
    note q1 = set_built_slice [OF Cons.prems(1) b, of p0]
    show ?thesis
      using Cons.IH [OF q1(1)] Cons.prems(2,3) assms(1) x_absent ms
      by (auto simp: l x q1(2) queue_file_eq_iff split: option.splits dirent.splits)
  next
    case False
    then have l: "load_entry en q (queue_file en p0, QueueFile data) = q"
      by (auto simp: load_entry_def pid_ok_cases [OF assms(1)])
    show ?thesis
      using Cons.IH [OF Cons.prems(1)] Cons.prems(2,3) assms(1) x_absent False
      by (auto simp: l x queue_file_eq_iff split: option.splits dirent.splits)
  qed
qed simp

lemma empty_queue_inv [simp]: "queue_inv (empty_queue disk)" "qview (empty_queue disk) p = []"
  by (auto simp: queue_inv_def empty_queue_def pslice_def wf_arrays_def no_arrays_def wf_slice_def
      nil_slice_def qview_def elems_of_def)

lemma load_synced:
  assumes "pid_ok en" and "disk_synced en q"
  shows "queue_inv (queue_load en (empty_queue (q_disk q)))"
    "qview (queue_load en (empty_queue (q_disk q))) p = (if valid_peer en p then reloaded en (qview q p) else [])"
proof -
  let ?xs = "sort_key fst (q_disk q)"
  have d: "distinct (map fst (q_disk q))" using assms(2) by (simp add: disk_synced_def)
  have dx: "distinct (map fst ?xs)"
    using d by (simp add: distinct_map distinct_sort)
  have mo: "map_of ?xs = map_of (q_disk q)"
    using d dx by (metis map_of_inject_set set_sort)
  have readable: "queue_text en (qview q p) = Some (json_indent (JArr (map (qmsg_json en) (qview q p))))"
    "queue_decode en (json_indent (JArr (map (qmsg_json en) (qview q p)))) = reload_msgs en (qview q p)" for p
    using queue_text_decode [OF assms(1)] disk_synced_held [OF assms(2)] by (auto simp: held_def)
  have m: "map_of ?xs (queue_file en p) = file_of_view en q p" for p
    using assms(2) by (simp add: mo disk_synced_def)
  have shape: "\<exists>p data. x = (queue_file en p, QueueFile data)" if "x \<in> set ?xs" for x
  proof -
    have "fst x \<in> range (queue_file en)"
      using assms(2) that unfolding disk_synced_def by auto
    then obtain p where p: "fst x = queue_file en p" by blast
    have "map_of ?xs (fst x) = Some (snd x)"
      using dx that by simp
    then have "map_option QueueFile (queue_text en (qview q p)) = Some (snd x)"
      using m [of p] by (simp add: p file_of_view_def split: if_splits)
    then have "\<exists>data. snd x = QueueFile data"
      by (metis map_option_eq_Some)
    then show ?thesis using p by (metis prod.collapse)
  qed
  have e: "q_disk (empty_queue (q_disk q)) = q_disk q" by (simp add: empty_queue_def)
  have "queue_inv (foldl (load_entry en) (empty_queue (q_disk q)) ?xs) \<and>
    (\<forall>p. qview (foldl (load_entry en) (empty_queue (q_disk q)) ?xs) p =
      (case map_of ?xs (queue_file en p) of Some (QueueFile data) \<Rightarrow>
           (case queue_decode en data of Some ms \<Rightarrow> if valid_peer en p then ms else qview (empty_queue (q_disk q)) p
            | None \<Rightarrow> qview (empty_queue (q_disk q)) p)
       | _ \<Rightarrow> qview (empty_queue (q_disk q)) p))"
    by (rule load_fold [OF assms(1) empty_queue_inv(1) dx]) (use shape in blast)
  then show "queue_inv (queue_load en (empty_queue (q_disk q)))"
    "qview (queue_load en (empty_queue (q_disk q))) p = (if valid_peer en p then reloaded en (qview q p) else [])"
    by (simp_all add: queue_load_def e m file_of_view_def readable reloaded_def)
      (auto simp: reload_msgs_def split: option.split)
qed

section \<open>The store interface, provided\<close>

lemma remove_id_first: "remove_id i ms = remove_first (\<lambda>m. qm_ID m = i) ms"
  by (induction ms) (auto simp: remove_id_Cons)

interpretation mq: retrying_store queue_inv qview qm_ID qm_To
    "\<lambda>(en, now) q m. fst (Enqueue en now q m)" "\<lambda>(en, now) q m. stamped now (q_ttl q) m"
    "\<lambda>(en, now) q p i. fst (RemoveMessage en q p i)" "\<lambda>(en, now) q p i. MarkAttempt en now q p i"
  by unfold_locales
    (auto simp: Enqueue_correct RemoveMessage_correct MarkAttempt_correct remove_id_first map_mark_id)

section \<open>Histories of calls\<close>

datatype queue_op =
    QEnqueue time queued_msg
  | QDequeue peer
  | QMark time peer string
  | QRemove peer string
  | QCleanup time "peer list"

fun queue_step :: "env \<Rightarrow> msg_queue \<Rightarrow> queue_op \<Rightarrow> msg_queue" where
  "queue_step en q (QEnqueue now m) = fst (Enqueue en now q m)"
| "queue_step en q (QDequeue p) = fst (Dequeue en q p)"
| "queue_step en q (QMark now p i) = MarkAttempt en now q p i"
| "queue_step en q (QRemove p i) = fst (RemoveMessage en q p i)"
| "queue_step en q (QCleanup now order) = fst (Queue_Cleanup en now q order)"

text \<open>The same calls on a map from peers to lists.\<close>

fun qspec_step :: "duration \<Rightarrow> int \<Rightarrow> (peer \<Rightarrow> queued_msg list) \<Rightarrow> queue_op \<Rightarrow> (peer \<Rightarrow> queued_msg list)" where
  "qspec_step ttl maxR v (QEnqueue now m) = v(qm_To m := v (qm_To m) @ [stamped now ttl m])"
| "qspec_step ttl maxR v (QDequeue p) = v(p := [])"
| "qspec_step ttl maxR v (QMark now p i) = v(p := mark_id now i (v p))"
| "qspec_step ttl maxR v (QRemove p i) = v(p := remove_first (\<lambda>m. qm_ID m = i) (v p))"
| "qspec_step ttl maxR v (QCleanup now order) =
     (\<lambda>p. if p \<in> set order then filter (still_valid now maxR) (v p) else v p)"

fun qop_ok :: "queue_op \<Rightarrow> bool" where
  "qop_ok (QCleanup now order) = distinct order"
| "qop_ok _ = True"

text \<open>Calls whose messages and times can be written to the files and read back.\<close>

fun qop_saved :: "env \<Rightarrow> duration \<Rightarrow> queue_op \<Rightarrow> bool" where
  "qop_saved en ttl (QEnqueue now m) = msg_ok en (stamped now ttl m)"
| "qop_saved en ttl (QMark now p i) = time_ok en now"
| "qop_saved en ttl _ = True"

lemma q_config_frame [simp]:
  "q_ttl (MarkAttempt en now q p i) = q_ttl q" "q_maxRetry (MarkAttempt en now q p i) = q_maxRetry q"
  "q_ttl (fst (RemoveMessage en q p i)) = q_ttl q" "q_ttl (fst (Dequeue en q p)) = q_ttl q"
  "q_maxRetry (fst (Dequeue en q p)) = q_maxRetry q"
  "q_maxRetry (fst (RemoveMessage en q p i)) = q_maxRetry q"
  by (simp_all add: MarkAttempt_def RemoveMessage_def Dequeue_def Let_def split: option.splits prod.splits)

lemma cleanup_peer_config:
  "q_ttl (fst (cleanup_peer en now x p)) = q_ttl (fst x) \<and>
   q_maxRetry (fst (cleanup_peer en now x p)) = q_maxRetry (fst x)"
  by (simp add: cleanup_peer_def Let_def split: prod.splits)

lemma cleanup_config [simp]:
  "q_ttl (fst (foldl (cleanup_peer en now) x order)) = q_ttl (fst x)"
  "q_maxRetry (fst (foldl (cleanup_peer en now) x order)) = q_maxRetry (fst x)"
  by (induction order arbitrary: x) (simp_all add: cleanup_peer_config)

lemma queue_step_config [simp]:
  "q_ttl (queue_step en q x) = q_ttl q" "q_maxRetry (queue_step en q x) = q_maxRetry q"
  by (cases x; simp add: Enqueue_eq push_pending_def Queue_Cleanup_def split: prod.splits)+

lemma queue_run_config: "q_ttl (foldl (queue_step en) q xs) = q_ttl q"
  by (induction xs arbitrary: q) simp_all

lemma queue_step_refines:
  assumes "queue_inv q" and "qop_ok x"
  shows "queue_inv (queue_step en q x)
    \<and> qview (queue_step en q x) = qspec_step (q_ttl q) (q_maxRetry q) (qview q) x"
proof (cases x)
  case (QCleanup now order)
  obtain q' n' where f: "foldl (cleanup_peer en now) (q, 0) order = (q', n')"
    by (cases "foldl (cleanup_peer en now) (q, 0) order") auto
  then show ?thesis
    using cleanup_fold [OF assms(1) _ f] assms(2) QCleanup by (auto simp: Queue_Cleanup_def)
qed (auto simp: fun_eq_iff assms Enqueue_correct Dequeue_correct MarkAttempt_correct
    RemoveMessage_correct remove_id_first)

lemma queue_step_synced:
  assumes "pid_ok en" and "queue_inv q" and "disk_synced en q" and "qop_saved en (q_ttl q) x"
  shows "disk_synced en (queue_step en q x)"
proof (cases x)
  case (QCleanup now order)
  obtain q' n' where f: "foldl (cleanup_peer en now) (q, 0) order = (q', n')"
    by (cases "foldl (cleanup_peer en now) (q, 0) order") auto
  then show ?thesis
    using cleanup_sync [OF assms(1-3) f] QCleanup by (simp add: Queue_Cleanup_def)
qed (use assms in \<open>simp_all add: push_pending_sync Dequeue_sync MarkAttempt_sync RemoveMessage_sync\<close>)

lemma queue_run_refines:
  assumes "queue_inv q" and "list_all qop_ok xs"
  shows "queue_inv (foldl (queue_step en) q xs)
    \<and> qview (foldl (queue_step en) q xs) = foldl (qspec_step (q_ttl q) (q_maxRetry q)) (qview q) xs"
  using assms
proof (induction xs arbitrary: q)
  case (Cons x xs)
  from queue_step_refines [OF Cons.prems(1), of x en] Cons.prems(2)
  have "queue_inv (queue_step en q x)"
    "qview (queue_step en q x) = qspec_step (q_ttl q) (q_maxRetry q) (qview q) x" by simp_all
  with Cons.IH [of "queue_step en q x"] Cons.prems(2) show ?case by simp
qed simp

lemma queue_run_synced:
  assumes "pid_ok en" and "queue_inv q" and "disk_synced en q" and "list_all qop_ok xs"
    and "list_all (qop_saved en (q_ttl q)) xs"
  shows "disk_synced en (foldl (queue_step en) q xs)"
  using assms
proof (induction xs arbitrary: q)
  case (Cons x xs)
  then show ?case using queue_step_refines [of q x en] queue_step_synced [of en q x] by simp
qed simp

section \<open>Properties\<close>

text \<open>
  An environment for the witnesses: peer IDs are their own text form, slices grow by one, and a
  time is written as its nanoseconds when its year has at most four digits.
\<close>

definition plain_codec :: time_codec where
  "plain_codec = \<lparr>tm_text = (\<lambda>t. if - 62167219200 * second \<le> t \<and> t < 253402300800 * second then Some (show_int t) else None),
     tm_parse = (\<lambda>s. Some (if s \<noteq> [] \<and> hd s = CHR ''-'' then - digits_val (tl s) else digits_val s))\<rparr>"

definition plain_env :: env where
  "plain_env = \<lparr>pid_String = (\<lambda>p. p), pid_Decode = (\<lambda>p. if p = [] then None else Some p), grow = Suc, num_any = Some,
     en_time = plain_codec\<rparr>"

lemma plain_codec_parse [simp]: "tm_parse plain_codec (show_int t) = Some t"
proof (cases "t < 0")
  case True
  then show ?thesis using show_nat_digits [of "nat (- t)"] by (simp add: plain_codec_def show_int_def)
next
  case False
  obtain c cs where c: "show_nat (nat t) = c # cs" by (cases "show_nat (nat t)") simp_all
  then have "c \<noteq> CHR ''-''" using show_nat_digits [of "nat t"] digit_not_minus by fastforce
  then show ?thesis using False show_nat_digits [of "nat t"] c by (simp add: plain_codec_def show_int_def)
qed

lemma plain_codec_small [simp]: "0 \<le> t \<Longrightarrow> t \<le> 1000 \<Longrightarrow> tm_text plain_codec t = Some (show_int t)"
  by (simp add: plain_codec_def second_def)

lemma plain_codec_text: "- 62167219200 * second \<le> t \<Longrightarrow> t < 253402300800 * second \<Longrightarrow> tm_text plain_codec t = Some (show_int t)"
  by (simp add: plain_codec_def)

lemma utf8_show_int [simp]: "utf8_ok (show_int t)"
  using num_ok_show_int [of t] by (intro ascii_utf8) (auto simp: num_ok_def ascii_def list_all_iff num_char_def is_digit_def code_def)

lemma time_ok_plain: "- 62167219200 * second \<le> t \<Longrightarrow> t < 253402300800 * second \<Longrightarrow> time_ok plain_env t"
  by (simp add: time_ok_def plain_env_def plain_codec_text)

lemma pid_ok_plain [simp]: "pid_ok plain_env"
  by (simp add: pid_ok_def plain_env_def)

lemma valid_peer_plain [simp]: "valid_peer plain_env p \<longleftrightarrow> p \<noteq> []"
  by (simp add: valid_peer_def plain_env_def)

definition some_msg :: "string \<Rightarrow> peer \<Rightarrow> queued_msg" where
  "some_msg i p = zero_msg\<lparr>qm_ID := i, qm_To := p\<rparr>"

lemma some_msg_simps [simp]: "content_ok (qm_Content (some_msg i p))" "qm_ID (some_msg i p) = i" "qm_To (some_msg i p) = p"
  by (simp_all add: some_msg_def zero_msg_def content_ok_def)

lemma stamped_simps [simp]:
  "qm_To (stamped now ttl m) = qm_To m" "qm_Attempts (stamped now ttl m) = 0"
  "qm_CreatedAt (stamped now ttl m) = now" "qm_ExpiresAt (stamped now ttl m) = now + ttl"
  "i \<noteq> [] \<Longrightarrow> qm_ID (stamped now ttl (some_msg i p)) = i"
  by (simp_all add: stamped_def)

lemma empty_queue_config [simp]: "q_ttl (empty_queue d) = DefaultTTL" "q_maxRetry (empty_queue d) = 10"
  by (simp_all add: empty_queue_def)

text \<open>
  C9. A new queue driven by any calls, however the runtime grows its slices and orders its
  maps: the messages pending for each peer are those of a map from peers to lists, where
  \<open>Enqueue\<close> appends the stamped message, \<open>Dequeue\<close> empties, \<open>RemoveMessage\<close> takes out the
  first message with the ID, \<open>MarkAttempt\<close> counts an attempt on it, and \<open>Cleanup\<close> keeps the
  unexpired ones.  No two peers ever share a backing array, and the counts agree.
\<close>

theorem queue_history_correct:
  assumes "list_all qop_ok xs" and "q = foldl (queue_step en) (empty_queue []) xs"
  shows "queue_inv q \<and> qview q = foldl (qspec_step DefaultTTL 10) (\<lambda>_. []) xs
    \<and> (\<forall>p. PendingCount q p = int (length (qview q p)) \<and> (HasPending q p \<longleftrightarrow> qview q p \<noteq> []))"
proof -
  have "qview (empty_queue []) = (\<lambda>_. [])" by (simp add: fun_eq_iff)
  then have "queue_inv q" "qview q = foldl (qspec_step DefaultTTL 10) (\<lambda>_. []) xs"
    using queue_run_refines [OF empty_queue_inv(1) assms(1), of en "[]"] by (simp_all add: assms(2))
  then show ?thesis
    by (simp add: PendingCount_def HasPending_def flip: length_qview length_greater_0_conv)
qed

theorem queue_history_correct_witness:
  "map qm_ID (qview (foldl (queue_step plain_env) (empty_queue [])
     [QEnqueue 1 (some_msg ''a'' ''p''), QEnqueue 2 (some_msg ''b'' ''p''), QRemove ''p'' ''a'']) ''p'') = [''b'']"
  using queue_history_correct [of "[QEnqueue 1 (some_msg ''a'' ''p''), QEnqueue 2 (some_msg ''b'' ''p''),
      QRemove ''p'' ''a'']" _ plain_env, OF _ refl]
  by simp

text \<open>
  C17. After any calls on a queue that started in an empty directory, with messages and times that
  have a JSON text (UTF-8 text, payloads as \<open>json.Marshal\<close> writes them, years up to 9999): each
  peer's file is the indented JSON of its messages, and a process that starts on these files
  loads for a peer whose ID decodes the messages it finds when every sender of them decodes and
  every content does, with the contents as decoded, in the same order; otherwise, and for a
  peer whose ID does not decode, it loads none of them.  When the senders decode, no content
  holds a number and the members of its objects are in order, these are the old messages with
  the same content values.
\<close>

theorem queue_recovers_after_restart:
  assumes "pid_ok en" and "list_all qop_ok xs" and "list_all (qop_saved en DefaultTTL) xs"
    and "q = foldl (queue_step en) (empty_queue []) xs"
  shows "\<exists>q'. NewMessageQueue en (Some (q_disk q)) = Some q' \<and> queue_inv q'
    \<and> (\<forall>p. qview q' p = (if valid_peer en p then reloaded en (qview q p) else []))
    \<and> (\<forall>p. (\<exists>m\<in>set (qview q p). \<not> valid_peer en (qm_From m)
            \<or> Option.bind (content_value (qm_Content m)) (json_any (num_any en)) = None) \<longrightarrow> qview q' p = [])
    \<and> (\<forall>p. valid_peer en p \<longrightarrow>
         (\<forall>m\<in>set (qview q p). valid_peer en (qm_From m) \<and> (\<exists>j. content_value (qm_Content m) = Some j \<and> json_plain j)) \<longrightarrow>
         qview q' p = map (\<lambda>m. m\<lparr>qm_Content := CAny (the (content_value (qm_Content m)))\<rparr>) (qview q p))"
proof -
  have "disk_synced en (empty_queue [])"
    by (simp add: disk_synced_def file_of_view_def) (simp add: empty_queue_def)
  then have sync: "disk_synced en q"
    using queue_run_synced [OF assms(1) empty_queue_inv(1) _ assms(2)] assms(3) by (simp add: assms(4))
  then have "qm_To m = p" if "m \<in> set (qview q p)" for m p
    using disk_synced_held [OF _ that] by (simp add: held_def)
  then show ?thesis
    using load_synced [OF assms(1) sync] reloaded_plain [of "qview q _" en] reloaded_lost
    by (simp add: NewMessageQueue_def) metis
qed

definition letter :: "string \<Rightarrow> peer \<Rightarrow> peer \<Rightarrow> queued_msg" where
  "letter i f p = zero_msg\<lparr>qm_ID := i, qm_From := f, qm_To := p\<rparr>"

lemma letter_saved:
  assumes "ascii i" "i \<noteq> []" "ascii f" "ascii p" "0 \<le> now" "now \<le> second"
  shows "msg_ok plain_env (stamped now DefaultTTL (letter i f p))"
proof -
  have "time_ok plain_env now" "time_ok plain_env (now + DefaultTTL)" "time_ok plain_env zero_time"
    using assms(5,6) by (auto intro!: time_ok_plain simp: DefaultTTL_def zero_time_def second_def minute_def hour_def)
  then show ?thesis
    using assms by (simp add: msg_ok_def stamped_def letter_def zero_msg_def content_canon_def plain_env_def in64_def)
qed

theorem queue_recovers_after_restart_witness:
  "\<exists>q'. NewMessageQueue plain_env (Some (q_disk (foldl (queue_step plain_env) (empty_queue [])
      [QEnqueue 1 (letter ''a'' ''amy'' ''p''), QEnqueue 2 (letter ''b'' ''amy'' ''r''), QDequeue ''r'',
       QEnqueue 3 (letter ''c'' [] ''s'')]))) = Some q'
    \<and> map qm_ID (qview q' ''p'') = [''a''] \<and> qview q' ''r'' = [] \<and> qview q' ''s'' = []"
proof -
  let ?xs = "[QEnqueue 1 (letter ''a'' ''amy'' ''p''), QEnqueue 2 (letter ''b'' ''amy'' ''r''), QDequeue ''r'',
      QEnqueue 3 (letter ''c'' [] ''s'')]"
  let ?v = "qview (foldl (queue_step plain_env) (empty_queue []) ?xs)"
  have v: "?v = (\<lambda>_. [])(''p'' := [stamped 1 DefaultTTL (letter ''a'' ''amy'' ''p'')], ''r'' := [],
      ''s'' := [stamped 3 DefaultTTL (letter ''c'' [] ''s'')])"
    using queue_run_refines [OF empty_queue_inv(1), of ?xs plain_env "[]"]
    by (simp add: fun_eq_iff letter_def)
  have "list_all (qop_saved plain_env DefaultTTL) ?xs"
    by (simp add: letter_saved code_def second_def)
  then obtain q' where q': "NewMessageQueue plain_env (Some (q_disk (foldl (queue_step plain_env) (empty_queue []) ?xs)))
      = Some q'" "\<forall>p. qview q' p = (if valid_peer plain_env p then reloaded plain_env (?v p) else [])"
    using queue_recovers_after_restart [OF pid_ok_plain _ _ refl, of ?xs] by auto
  have "map qm_ID (qview q' ''p'') = [''a'']" "qview q' ''r'' = []" "qview q' ''s'' = []"
    using q'(2) unfolding v by (simp_all add: reloaded_def reload_msgs_def reload_msg_def stamped_def letter_def zero_msg_def)
  with q'(1) show ?thesis by (intro exI [of _ q'] conjI)
qed

text \<open>
  C24. One run of \<open>Cleanup\<close>, whatever order the runtime visits the peers in: every peer keeps
  exactly its messages that have not expired and have fewer than \<open>maxRetry\<close> attempts, in
  order; the result is the number of messages removed.
\<close>

theorem queue_cleanup_exact:
  assumes "queue_inv q" and "distinct order" and "set order = dom (q_pending q)"
    and "Queue_Cleanup en now q order = (q', removed)"
  shows "queue_inv q' \<and> (\<forall>p. qview q' p = filter (still_valid now (q_maxRetry q)) (qview q p))
    \<and> removed = (\<Sum>p\<leftarrow>order. int (length (qview q p)) - int (length (qview q' p)))"
proof -
  note c = cleanup_fold [OF assms(1,2), of en now 0 q' removed, OF assms(4) [unfolded Queue_Cleanup_def]]
  have absent: "qview q p = []" if "p \<notin> set order" for p
    using that assms(3) by (auto simp: qview_def pslice_def domIff split: option.splits)
  have view: "qview q' p = filter (still_valid now (q_maxRetry q)) (qview q p)" for p
    using c(2) [of p] absent [of p] by auto
  have "int (length (filter (\<lambda>m. \<not> still_valid now (q_maxRetry q) m) (qview q p)))
      = int (length (qview q p)) - int (length (qview q' p))" for p
    using sum_length_filter_compl [of "still_valid now (q_maxRetry q)" "qview q p"] by (simp add: view)
  then show ?thesis using c(1,3) view by simp
qed

theorem queue_cleanup_exact_witness:
  "qview (fst (Queue_Cleanup plain_env (2 + DefaultTTL)
      (fst (Enqueue plain_env 2 (empty_queue []) (some_msg ''a'' ''p''))) [''p''])) ''p'' = []"
proof -
  let ?q = "fst (Enqueue plain_env 2 (empty_queue []) (some_msg ''a'' ''p''))"
  have "queue_inv ?q" and v: "qview ?q ''p'' = [stamped 2 DefaultTTL (some_msg ''a'' ''p'')]"
    by (simp_all add: Enqueue_correct)
  moreover have "dom (q_pending ?q) = {''p''}"
    using push_pending_correct(6) [OF empty_queue_inv(1)] by (simp add: Enqueue_eq) (simp add: empty_queue_def)
  ultimately show ?thesis
    using queue_cleanup_exact [of ?q "[''p'']" plain_env "2 + DefaultTTL"]
    by (cases "Queue_Cleanup plain_env (2 + DefaultTTL) ?q [''p'']") (simp add: still_valid_def)
qed

end
