(* ===== verification/RateSpec.thy ===== *)
theory RateSpec
  imports Prelude Complex_Main
begin

text \<open>
  What it means that something meters the calls it allows: histories of timed calls on a
  state, and the interface \<open>metered\<close> whose clients get the rate bound.  A level
  measures what the state could still grant; each allowed call takes 1 away and time
  adds at most \<open>rate\<close> per second.
\<close>

section \<open>Timed histories\<close>

fun timed_run :: "(time \<Rightarrow> 'o \<Rightarrow> 's \<Rightarrow> 's \<times> bool) \<Rightarrow> (time \<times> 'o) list \<Rightarrow> 's \<Rightarrow> 's" where
  "timed_run step [] s = s"
| "timed_run step ((t, x) # h) s = timed_run step h (fst (step t x s))"

text \<open>How many calls selected by \<open>P\<close> were allowed.\<close>

fun granted :: "(time \<Rightarrow> 'o \<Rightarrow> 's \<Rightarrow> 's \<times> bool) \<Rightarrow> ('o \<Rightarrow> bool) \<Rightarrow> (time \<times> 'o) list \<Rightarrow> 's \<Rightarrow> nat" where
  "granted step P [] s = 0"
| "granted step P ((t, x) # h) s =
     (if P x \<and> snd (step t x s) then 1 else 0) + granted step P h (fst (step t x s))"

text \<open>The clock does not run backwards.\<close>

fun clocked :: "time \<Rightarrow> (time \<times> 'o) list \<Rightarrow> bool" where
  "clocked t [] = True"
| "clocked t ((t', x) # h) = (t \<le> t' \<and> clocked t' h)"

fun end_time :: "time \<Rightarrow> (time \<times> 'o) list \<Rightarrow> time" where
  "end_time t [] = t"
| "end_time t ((t', x) # h) = end_time t' h"

section \<open>The interface\<close>

locale metered =
  fixes inv :: "time \<Rightarrow> 's \<Rightarrow> bool"
    and step :: "time \<Rightarrow> 'o \<Rightarrow> 's \<Rightarrow> 's \<times> bool"
    and sane :: "'o \<Rightarrow> bool"
    and charged :: "'o \<Rightarrow> bool"
    and lev :: "time \<Rightarrow> 's \<Rightarrow> rat"
    and rate :: rat
    and err :: rat
  assumes inv_later: "inv t s \<Longrightarrow> t \<le> t' \<Longrightarrow> inv t' s"
    and inv_step: "inv t s \<Longrightarrow> sane x \<Longrightarrow> inv t (fst (step t x s))"
    and lev_nonneg: "inv t s \<Longrightarrow> 0 \<le> lev t s"
    and lev_later: "inv t s \<Longrightarrow> t \<le> t' \<Longrightarrow> lev t' s \<le> lev t s + of_int (t' - t) / of_int second * rate"
    and lev_step: "inv t s \<Longrightarrow> sane x \<Longrightarrow>
      (if charged x \<and> snd (step t x s) then 1 else 0) + lev t (fst (step t x s)) \<le> lev t s + err"
begin

lemma inv_run:
  "inv t s \<Longrightarrow> clocked t h \<Longrightarrow> \<forall>(t, x)\<in>set h. sane x \<Longrightarrow> inv (end_time t h) (timed_run step h s)"
proof (induction h arbitrary: t s)
  case (Cons a h)
  obtain t' x where a: "a = (t', x)" by (cases a)
  have prem: "inv t s" "t \<le> t'" "sane x" using Cons.prems a by simp_all
  have "inv t' (fst (step t' x s))" by (rule inv_step [OF inv_later [OF prem(1,2)] prem(3)])
  then show ?case using Cons a by simp
qed simp

lemma granted_level:
  "inv t s \<Longrightarrow> clocked t h \<Longrightarrow> \<forall>(t, x)\<in>set h. sane x \<Longrightarrow>
    of_nat (granted step charged h s) + lev (end_time t h) (timed_run step h s)
      \<le> lev t s + of_int (end_time t h - t) / of_int second * rate + of_nat (length h) * err"
proof (induction h arbitrary: t s)
  case (Cons a h)
  obtain t' x where a: "a = (t', x)" by (cases a)
  have prem: "inv t s" "t \<le> t'" "sane x" "clocked t' h" "\<forall>(t, x)\<in>set h. sane x"
    using Cons.prems a by simp_all
  have inv: "inv t' s" by (rule inv_later [OF prem(1,2)])
  let ?s = "fst (step t' x s)" and ?g = "if charged x \<and> snd (step t' x s) then 1 else 0 :: rat"
  have now: "?g + lev t' ?s \<le> lev t' s + err" using inv prem(3) by (rule lev_step)
  have later: "lev t' s \<le> lev t s + of_int (t' - t) / of_int second * rate"
    using prem(1,2) by (rule lev_later)
  have rest: "of_nat (granted step charged h ?s) + lev (end_time t' h) (timed_run step h ?s)
      \<le> lev t' ?s + of_int (end_time t' h - t') / of_int second * rate + of_nat (length h) * err"
    by (rule Cons.IH [OF inv_step [OF inv prem(3)] prem(4,5)])
  have time: "of_int (end_time t' h - t') / of_int second * rate + of_int (t' - t) / of_int second * rate
      = of_int (end_time t' h - t) / of_int second * rate"
    by (simp flip: distrib_right add_divide_distrib of_int_add)
  have head: "of_nat (granted step charged (a # h) s) = ?g + of_nat (granted step charged h ?s)"
    and len: "of_nat (length (a # h)) * err = err + of_nat (length h) * err"
    and tl: "end_time t (a # h) = end_time t' h" "timed_run step (a # h) s = timed_run step h ?s"
    by (simp_all add: a distrib_right)
  show ?case unfolding head len tl using now later rest time by linarith
qed simp

theorem granted_bound:
  assumes "inv t s" and "clocked t h" and "\<forall>(t, x)\<in>set h. sane x"
  shows "of_nat (granted step charged h s)
    \<le> lev t s + of_int (end_time t h - t) / of_int second * rate + of_nat (length h) * err"
  using granted_level [OF assms] lev_nonneg [OF inv_run [OF assms]] by linarith

end

end
