(* ===== verification/RateLimiter.thy ===== *)
theory RateLimiter
  imports Float64 RateSpec
begin

text \<open>
  The token buckets and the per-peer limiter of \<open>internal/relay/limiter.go\<close>.  The
  limiter's maps hold pointers to buckets that nothing else holds, so the model keeps the
  buckets in the maps.  A missing entry of \<open>connections\<close> reads as 0.
\<close>

section \<open>Token bucket\<close>

record token_bucket =
  tb_tokens :: float64
  tb_maxTokens :: float64
  tb_refillRate :: float64
  tb_lastRefill :: time

definition NewTokenBucket :: "time \<Rightarrow> float64 \<Rightarrow> float64 \<Rightarrow> token_bucket" where
  "NewTokenBucket now maxTokens refillRate = \<lparr>tb_tokens = maxTokens, tb_maxTokens = maxTokens,
     tb_refillRate = refillRate, tb_lastRefill = now\<rparr>"

definition refill :: "time \<Rightarrow> token_bucket \<Rightarrow> token_bucket" where
  "refill now b =
     (let elapsed = duration_seconds (time_sub now (tb_lastRefill b));
          t = f_add (tb_tokens b) (f_mul elapsed (tb_refillRate b))
      in b\<lparr>tb_tokens := (if tb_maxTokens b < t then tb_maxTokens b else t), tb_lastRefill := now\<rparr>)"

definition AllowN :: "time \<Rightarrow> token_bucket \<Rightarrow> float64 \<Rightarrow> token_bucket \<times> bool" where
  "AllowN now b n =
     (let b' = refill now b
      in if n \<le> tb_tokens b' then (b'\<lparr>tb_tokens := f_sub (tb_tokens b') n\<rparr>, True) else (b', False))"

definition Allow :: "time \<Rightarrow> token_bucket \<Rightarrow> token_bucket \<times> bool" where
  "Allow now b = AllowN now b 1"

definition Tokens :: "time \<Rightarrow> token_bucket \<Rightarrow> token_bucket \<times> float64" where
  "Tokens now b = (let b' = refill now b in (b', tb_tokens b'))"

text \<open>
  \<open>WaitTime\<close> divides by the refill rate: with rate 0 the quotient is not finite and its
  conversion to a duration depends on the platform, as it does out of the 64-bit range;
  both are \<open>None\<close>.
\<close>

definition WaitTime :: "time \<Rightarrow> token_bucket \<Rightarrow> float64 \<Rightarrow> token_bucket \<times> duration option" where
  "WaitTime now b n =
     (let b' = refill now b
      in if n \<le> tb_tokens b' then (b', Some 0)
         else if tb_refillRate b' = 0 then (b', None)
         else (b', int64_of_float
                (f_mul (f_div (f_sub n (tb_tokens b')) (tb_refillRate b')) (of_int second))))"

section \<open>Limiter\<close>

record limiter_config =
  MaxRequestsPerSecond :: float64
  MaxBurstSize :: float64
  MaxBytesPerSecond :: int
  MaxConnectionsPerPeer :: int

definition DefaultLimiterConfig :: limiter_config where
  "DefaultLimiterConfig = \<lparr>MaxRequestsPerSecond = 100, MaxBurstSize = 200,
     MaxBytesPerSecond = 10 * 1024 * 1024, MaxConnectionsPerPeer = 10\<rparr>"

record rate_limiter =
  rl_config :: limiter_config
  peerBuckets :: "string \<rightharpoonup> token_bucket"
  byteBuckets :: "string \<rightharpoonup> token_bucket"
  connections :: "string \<rightharpoonup> int"
  globalBucket :: token_bucket

definition NewRateLimiter :: "time \<Rightarrow> limiter_config \<Rightarrow> rate_limiter" where
  "NewRateLimiter now cfg = \<lparr>rl_config = cfg, peerBuckets = Map.empty, byteBuckets = Map.empty,
     connections = Map.empty,
     globalBucket = NewTokenBucket now (f_mul (MaxBurstSize cfg) 10) (f_mul (MaxRequestsPerSecond cfg) 10)\<rparr>"

definition peer_bucket :: "time \<Rightarrow> rate_limiter \<Rightarrow> string \<Rightarrow> token_bucket" where
  "peer_bucket now r p =
     (case peerBuckets r p of
        Some b \<Rightarrow> b
      | None \<Rightarrow> NewTokenBucket now (MaxBurstSize (rl_config r)) (MaxRequestsPerSecond (rl_config r)))"

definition AllowRequest :: "time \<Rightarrow> rate_limiter \<Rightarrow> string \<Rightarrow> rate_limiter \<times> bool" where
  "AllowRequest now r p =
     (case Allow now (globalBucket r) of
        (g, False) \<Rightarrow> (r\<lparr>globalBucket := g\<rparr>, False)
      | (g, True) \<Rightarrow>
          (case Allow now (peer_bucket now r p) of
             (b, ok) \<Rightarrow> (r\<lparr>globalBucket := g, peerBuckets := (peerBuckets r)(p \<mapsto> b)\<rparr>, ok)))"

definition byte_bucket :: "time \<Rightarrow> rate_limiter \<Rightarrow> string \<Rightarrow> token_bucket" where
  "byte_bucket now r p =
     (case byteBuckets r p of
        Some b \<Rightarrow> b
      | None \<Rightarrow> NewTokenBucket now (f_of_int (MaxBytesPerSecond (rl_config r)))
                  (f_of_int (MaxBytesPerSecond (rl_config r))))"

definition AllowBytes :: "time \<Rightarrow> rate_limiter \<Rightarrow> string \<Rightarrow> int \<Rightarrow> rate_limiter \<times> bool" where
  "AllowBytes now r p n =
     (case AllowN now (byte_bucket now r p) (f_of_int n) of
        (b, ok) \<Rightarrow> (r\<lparr>byteBuckets := (byteBuckets r)(p \<mapsto> b)\<rparr>, ok))"

definition conn_count :: "rate_limiter \<Rightarrow> string \<Rightarrow> int" where
  "conn_count r p = (case connections r p of None \<Rightarrow> 0 | Some n \<Rightarrow> n)"

definition AllowConnection :: "rate_limiter \<Rightarrow> string \<Rightarrow> rate_limiter \<times> bool" where
  "AllowConnection r p =
     (let count = conn_count r p
      in if MaxConnectionsPerPeer (rl_config r) \<le> count then (r, False)
         else (r\<lparr>connections := (connections r)(p \<mapsto> wrap64 (count + 1))\<rparr>, True))"

definition ReleaseConnection :: "rate_limiter \<Rightarrow> string \<Rightarrow> rate_limiter" where
  "ReleaseConnection r p =
     (let count = conn_count r p
      in if 0 < count then r\<lparr>connections := (connections r)(p \<mapsto> wrap64 (count - 1))\<rparr> else r)"

definition WaitForRequest :: "time \<Rightarrow> rate_limiter \<Rightarrow> string \<Rightarrow> rate_limiter \<times> duration option" where
  "WaitForRequest now r p =
     (case peerBuckets r p of
        None \<Rightarrow> (r, Some 0)
      | Some b \<Rightarrow>
          (case WaitTime now b 1 of
             (b', d) \<Rightarrow> (r\<lparr>peerBuckets := (peerBuckets r)(p \<mapsto> b')\<rparr>, d)))"

record peer_limit_stats =
  pls_PeerID :: string
  pls_RequestTokens :: float64
  pls_ByteTokens :: "int option"
  pls_Connections :: int

text \<open>\<open>GetPeerStats\<close> reads the tokens through \<open>Tokens\<close>, which refills the buckets.\<close>

definition GetPeerStats :: "time \<Rightarrow> rate_limiter \<Rightarrow> string \<Rightarrow> rate_limiter \<times> peer_limit_stats" where
  "GetPeerStats now r p =
     (let (r1, req) = (case peerBuckets r p of
             None \<Rightarrow> (r, 0)
           | Some b \<Rightarrow> (case Tokens now b of (b', t) \<Rightarrow> (r\<lparr>peerBuckets := (peerBuckets r)(p \<mapsto> b')\<rparr>, t)));
          (r2, byt) = (case byteBuckets r1 p of
             None \<Rightarrow> (r1, Some 0)
           | Some b \<Rightarrow> (case Tokens now b of
               (b', t) \<Rightarrow> (r1\<lparr>byteBuckets := (byteBuckets r1)(p \<mapsto> b')\<rparr>, int64_of_float t)))
      in (r2, \<lparr>pls_PeerID = p, pls_RequestTokens = req, pls_ByteTokens = byt,
               pls_Connections = conn_count r p\<rparr>))"

definition forget_peer :: "rate_limiter \<Rightarrow> string \<Rightarrow> rate_limiter" where
  "forget_peer r p = r\<lparr>peerBuckets := (peerBuckets r)(p := None),
     byteBuckets := (byteBuckets r)(p := None), connections := (connections r)(p := None)\<rparr>"

text \<open>\<open>Cleanup\<close> ranges over \<open>peerBuckets\<close> in the runtime's order.\<close>

definition cleanup_bucket :: "time \<Rightarrow> duration \<Rightarrow> rate_limiter \<Rightarrow> string \<Rightarrow> rate_limiter" where
  "cleanup_bucket now maxAge r p =
     (case peerBuckets r p of
        None \<Rightarrow> r
      | Some b \<Rightarrow> if maxAge < time_sub now (tb_lastRefill b) then forget_peer r p else r)"

definition Limiter_Cleanup :: "time \<Rightarrow> rate_limiter \<Rightarrow> duration \<Rightarrow> string list \<Rightarrow> rate_limiter" where
  "Limiter_Cleanup now r maxAge order = foldl (cleanup_bucket now maxAge) r order"

definition Limiter_Reset :: "rate_limiter \<Rightarrow> string \<Rightarrow> rate_limiter" where
  "Limiter_Reset r p = forget_peer r p"

definition ResetAll :: "rate_limiter \<Rightarrow> rate_limiter" where
  "ResetAll r = r\<lparr>peerBuckets := Map.empty, byteBuckets := Map.empty, connections := Map.empty\<rparr>"

section \<open>Bucket invariant\<close>

definition bucket_ok :: "token_bucket \<Rightarrow> bool" where
  "bucket_ok b \<longleftrightarrow> 0 \<le> tb_tokens b \<and> tb_tokens b \<le> tb_maxTokens b \<and> 0 \<le> tb_refillRate b
     \<and> fl (tb_maxTokens b) = tb_maxTokens b"

lemma NewTokenBucket_ok [simp]:
  "bucket_ok (NewTokenBucket now m r) \<longleftrightarrow> 0 \<le> m \<and> 0 \<le> r \<and> fl m = m"
  by (auto simp: bucket_ok_def NewTokenBucket_def)

lemma refill_frame [simp]:
  "tb_maxTokens (refill now b) = tb_maxTokens b" "tb_refillRate (refill now b) = tb_refillRate b"
  "tb_lastRefill (refill now b) = now"
  by (simp_all add: refill_def Let_def)

lemma AllowN_frame [simp]:
  "tb_maxTokens (fst (AllowN now b n)) = tb_maxTokens b"
  "tb_refillRate (fst (AllowN now b n)) = tb_refillRate b"
  "tb_lastRefill (fst (AllowN now b n)) = now"
  by (simp_all add: AllowN_def Let_def)

lemma refill_ok:
  assumes "bucket_ok b" and "tb_lastRefill b \<le> now"
  shows "bucket_ok (refill now b)"
proof -
  have "0 \<le> duration_seconds (time_sub now (tb_lastRefill b))"
    using assms(2) by (simp add: duration_seconds_nonneg)
  then have "0 \<le> f_add (tb_tokens b) (f_mul (duration_seconds (time_sub now (tb_lastRefill b))) (tb_refillRate b))"
    using assms(1) by (simp add: bucket_ok_def f_add_def f_mul_def)
  then show ?thesis
    using assms(1) by (auto simp: bucket_ok_def refill_def Let_def)
qed

lemma f_sub_le: "0 \<le> y \<Longrightarrow> y \<le> x \<Longrightarrow> x \<le> m \<Longrightarrow> fl m = m \<Longrightarrow> 0 \<le> f_sub x y \<and> f_sub x y \<le> m"
  using fl_mono [of "x - y" m] by (simp add: f_sub_def)

lemma AllowN_ok:
  assumes "bucket_ok b" and "tb_lastRefill b \<le> now" and "0 \<le> n"
  shows "bucket_ok (fst (AllowN now b n))"
  using refill_ok [OF assms(1,2)] f_sub_le [OF assms(3), of "tb_tokens (refill now b)" "tb_maxTokens b"]
  by (auto simp: AllowN_def Let_def bucket_ok_def)

section \<open>The rate bound of one bucket\<close>

text \<open>
  The level of a bucket at a time: its tokens and what the elapsed time has earned, without
  the clamp and without rounding.  A call grants no more than the level it takes away, but
  for the rounding of the float operations.
\<close>

definition level :: "time \<Rightarrow> token_bucket \<Rightarrow> rat" where
  "level now b = tb_tokens b + of_int (now - tb_lastRefill b) / of_int second * tb_refillRate b"

definition call_error :: "rat \<Rightarrow> rat" where
  "call_error m = (m + 1) / 2 ^ 49"

lemma call_error_ge: "0 \<le> m \<Longrightarrow> 9 * (m * fl_unit) + 4 * fl_tiny \<le> call_error m"
  using fl_tiny(2) mult_left_mono [OF fl_unit(2), of m]
  unfolding call_error_def by (simp add: add_divide_distrib mult.left_commute)

lemma call_error_nonneg [simp]: "0 \<le> m \<Longrightarrow> 0 \<le> call_error m"
  by (simp add: call_error_def)

lemma duration_seconds_sub_le:
  assumes "u \<le> t"
  shows "duration_seconds (time_sub t u) \<le> of_int (t - u) / of_int second * (1 + 3 * fl_unit)"
proof -
  have 1: "0 \<le> time_sub t u" "in64 (time_sub t u)" "time_sub t u \<le> t - u"
    using assms by (auto simp: time_sub_def in64_def max_duration_def)
  have "(of_int (time_sub t u) :: rat) \<le> of_int (t - u)" using 1(3) by (simp only: of_int_le_iff)
  then have "(of_int (time_sub t u) :: rat) / of_int second \<le> of_int (t - u) / of_int second"
    by (rule divide_right_mono) (simp add: second_def)
  then have "of_int (time_sub t u) / of_int second * (1 + 3 * fl_unit)
      \<le> of_int (t - u) / of_int second * (1 + 3 * fl_unit)"
    by (rule mult_right_mono) (use fl_unit(1) in simp)
  with duration_seconds_le [OF 1(1,2)] show ?thesis
    by (simp add: fl_unit_def)
qed

lemma refill_level:
  assumes "bucket_ok b" and "tb_lastRefill b \<le> now"
  shows "tb_tokens (refill now b) \<le> level now b + 8 * (tb_maxTokens b * fl_unit) + 3 * fl_tiny"
proof -
  let ?t = "tb_tokens b" and ?M = "tb_maxTokens b" and ?R = "tb_refillRate b"
  let ?x = "of_int (now - tb_lastRefill b) / of_int second :: rat"
  let ?e = "duration_seconds (time_sub now (tb_lastRefill b))"
  define y where "y = ?x * ?R"
  have b: "0 \<le> ?t" "?t \<le> ?M" "0 \<le> ?R" using assms(1) by (simp_all add: bucket_ok_def)
  have x0: "0 \<le> ?x" using assms(2) by (simp add: second_def)
  then have y0: "0 \<le> y" using b(3) unfolding y_def by (rule mult_nonneg_nonneg)
  have Mu: "0 \<le> ?M * fl_unit" using b fl_unit(1) by simp
  have lev: "level now b = ?t + y" by (simp add: level_def y_def)
  have clamp: "tb_tokens (refill now b) \<le> ?M" using b by (simp add: refill_def Let_def)
  show ?thesis
  proof (cases "?M < y")
    case True
    then show ?thesis using clamp b Mu fl_tiny(1) unfolding lev by linarith
  next
    case False
    have e0: "0 \<le> ?e" using assms(2) by (simp add: duration_seconds_nonneg)
    define z where "z = ?e * ?R"
    have "z \<le> ?x * (1 + 3 * fl_unit) * ?R"
      unfolding z_def using duration_seconds_sub_le [OF assms(2)] b(3) by (rule mult_right_mono)
    moreover have "x * (1 + 3 * u) * r = x * r + 3 * (x * r * u)" for x u r :: rat
      by (simp add: algebra_simps)
    ultimately have z: "z \<le> y + 3 * (y * fl_unit)" by (simp only: y_def)
    have z0: "0 \<le> z" using e0 b(3) by (simp add: z_def)
    have yu: "0 \<le> y * fl_unit" "y * fl_unit \<le> ?M * fl_unit" "y * fl_unit \<le> y / 100"
      using False y0 fl_unit mult_left_mono [OF fl_unit(3) y0] by (simp_all add: mult_right_mono)
    have yuu: "y * fl_unit * fl_unit \<le> y * fl_unit / 100"
      using mult_left_mono [OF fl_unit(3) yu(1)] by simp
    have "z * fl_unit \<le> (y + 3 * (y * fl_unit)) * fl_unit" using z fl_unit(1) by (rule mult_right_mono)
    then have zu: "z * fl_unit \<le> y * fl_unit + 3 * (y * fl_unit * fl_unit)"
      by (simp only: distrib_right mult.assoc)
    define w where "w = f_mul ?e ?R"
    have "w \<le> z + z * fl_unit + fl_tiny" using fl_upper [OF z0] by (simp add: w_def f_mul_def z_def)
    with z zu yuu yu(1) have w: "w \<le> y + 5 * (y * fl_unit) + fl_tiny" by linarith
    have w0: "0 \<le> w" using z0 by (simp add: w_def f_mul_def z_def)
    have "w * fl_unit \<le> (y + 5 * (y * fl_unit) + fl_tiny) * fl_unit" using w fl_unit(1) by (rule mult_right_mono)
    then have wu: "w * fl_unit \<le> y * fl_unit + 5 * (y * fl_unit * fl_unit) + fl_tiny * fl_unit"
      by (simp only: distrib_right mult.assoc)
    have tu: "?t * fl_unit \<le> ?M * fl_unit" using b(2) fl_unit(1) by (rule mult_right_mono)
    have uu: "fl_tiny * fl_unit \<le> fl_tiny" using fl_tiny(1) mult_left_mono [OF fl_unit(3) fl_tiny(1)] by linarith
    have "tb_tokens (refill now b) \<le> f_add ?t w" by (simp add: refill_def Let_def w_def)
    also have "\<dots> \<le> (?t + w) + (?t + w) * fl_unit + fl_tiny"
      unfolding f_add_def by (rule fl_upper) (use b w0 in simp)
    also have "\<dots> = ?t + w + ?t * fl_unit + w * fl_unit + fl_tiny" by (simp add: distrib_right)
    finally show ?thesis unfolding lev using w wu tu uu yuu yu Mu by linarith
  qed
qed

lemma AllowN_level:
  assumes "bucket_ok b" and "tb_lastRefill b \<le> now" and "0 \<le> n" and "AllowN now b n = (b', ok)"
  shows "(if ok then n else 0) + tb_tokens b' \<le> level now b + call_error (tb_maxTokens b)"
proof -
  let ?t = "tb_tokens (refill now b)" and ?M = "tb_maxTokens b"
  have b: "0 \<le> ?t" "?t \<le> ?M" "0 \<le> ?M"
    using refill_ok [OF assms(1,2)] by (simp_all add: bucket_ok_def)
  have r: "?t \<le> level now b + 8 * (?M * fl_unit) + 3 * fl_tiny" using refill_level [OF assms(1,2)] .
  have "(if ok then n else 0) + tb_tokens b' \<le> ?t + ?M * fl_unit + fl_tiny"
  proof (cases "n \<le> ?t")
    case True
    then have ok: "ok" "tb_tokens b' = f_sub ?t n"
      using assms(4) by (auto simp: AllowN_def Let_def)
    have "f_sub ?t n \<le> (?t - n) + (?t - n) * fl_unit + fl_tiny"
      unfolding f_sub_def by (rule fl_upper) (use True in simp)
    moreover have "(?t - n) * fl_unit \<le> ?M * fl_unit"
      using b(2) assms(3) fl_unit(1) by (intro mult_right_mono) linarith+
    ultimately show ?thesis using ok by simp
  next
    case False
    then have "\<not> ok" "tb_tokens b' = ?t" using assms(4) by (auto simp: AllowN_def Let_def)
    moreover have "0 \<le> ?M * fl_unit" using b(3) fl_unit(1) by simp
    ultimately show ?thesis using fl_tiny(1) by simp
  qed
  with r call_error_ge [OF b(3)] show ?thesis by linarith
qed

lemma level_later: "level t' b = level t b + of_int (t' - t) / of_int second * tb_refillRate b"
  by (simp add: level_def field_simps second_def)

lemma level_refilled [simp]: "tb_lastRefill b = now \<Longrightarrow> level now b = tb_tokens b"
  by (simp add: level_def)

section \<open>Histories of the limiter\<close>

text \<open>
  The calls of the limiter.  \<open>LCleanup\<close> carries the order in which the runtime visits the
  peers.  Only the three \<open>Allow\<close> calls answer; the flag of the others is \<open>False\<close>.
\<close>

datatype limiter_op =
    LRequest string
  | LBytes string int
  | LConnect string
  | LRelease string
  | LWait string
  | LStats string
  | LCleanup duration "string list"
  | LReset string
  | LResetAll

fun limiter_step :: "time \<Rightarrow> limiter_op \<Rightarrow> rate_limiter \<Rightarrow> rate_limiter \<times> bool" where
  "limiter_step now (LRequest p) r = AllowRequest now r p"
| "limiter_step now (LBytes p n) r = AllowBytes now r p n"
| "limiter_step now (LConnect p) r = AllowConnection r p"
| "limiter_step now (LRelease p) r = (ReleaseConnection r p, False)"
| "limiter_step now (LWait p) r = (fst (WaitForRequest now r p), False)"
| "limiter_step now (LStats p) r = (fst (GetPeerStats now r p), False)"
| "limiter_step now (LCleanup a order) r = (Limiter_Cleanup now r a order, False)"
| "limiter_step now (LReset p) r = (Limiter_Reset r p, False)"
| "limiter_step now LResetAll r = (ResetAll r, False)"

fun is_request :: "limiter_op \<Rightarrow> bool" where
  "is_request (LRequest p) = True"
| "is_request _ = False"

text \<open>A byte count is a length, so not negative.\<close>

fun op_sane :: "limiter_op \<Rightarrow> bool" where
  "op_sane (LBytes p n) = (0 \<le> n)"
| "op_sane _ = True"

text \<open>
  Calls that take nothing from a peer's bucket but requests: no reset of the peer, and no cleanup
  of buckets younger than the time in which an empty bucket fills up.
\<close>

definition refills_within :: "limiter_config \<Rightarrow> duration \<Rightarrow> bool" where
  "refills_within cfg age \<longleftrightarrow> MaxBurstSize cfg * of_int second \<le> of_int age * MaxRequestsPerSecond cfg"

fun spares :: "limiter_config \<Rightarrow> string \<Rightarrow> limiter_op \<Rightarrow> bool" where
  "spares cfg p (LCleanup age order) = refills_within cfg age"
| "spares cfg p (LReset q) = (q \<noteq> p)"
| "spares cfg p LResetAll = False"
| "spares cfg p _ = True"

definition config_ok :: "limiter_config \<Rightarrow> bool" where
  "config_ok cfg \<longleftrightarrow> 0 \<le> MaxRequestsPerSecond cfg \<and> 0 \<le> MaxBurstSize cfg
     \<and> fl (MaxBurstSize cfg) = MaxBurstSize cfg \<and> 0 \<le> MaxBytesPerSecond cfg
     \<and> in64 (MaxConnectionsPerPeer cfg)"

definition bucket_for :: "time \<Rightarrow> float64 \<Rightarrow> float64 \<Rightarrow> token_bucket \<Rightarrow> bool" where
  "bucket_for now m rate b \<longleftrightarrow> bucket_ok b \<and> tb_maxTokens b = m \<and> tb_refillRate b = rate
     \<and> tb_lastRefill b \<le> now"

definition limiter_inv :: "limiter_config \<Rightarrow> time \<Rightarrow> rate_limiter \<Rightarrow> bool" where
  "limiter_inv cfg now r \<longleftrightarrow> rl_config r = cfg
     \<and> bucket_for now (f_mul (MaxBurstSize cfg) 10) (f_mul (MaxRequestsPerSecond cfg) 10) (globalBucket r)
     \<and> (\<forall>p b. peerBuckets r p = Some b \<longrightarrow>
          bucket_for now (MaxBurstSize cfg) (MaxRequestsPerSecond cfg) b)
     \<and> (\<forall>p b. byteBuckets r p = Some b \<longrightarrow>
          bucket_for now (f_of_int (MaxBytesPerSecond cfg)) (f_of_int (MaxBytesPerSecond cfg)) b)
     \<and> (\<forall>p n. connections r p = Some n \<longrightarrow> 0 \<le> n \<and> n \<le> MaxConnectionsPerPeer cfg)"

lemma bucket_for_later: "bucket_for t m q b \<Longrightarrow> t \<le> t' \<Longrightarrow> bucket_for t' m q b"
  by (simp add: bucket_for_def)

lemma bucket_for_new:
  "0 \<le> m \<Longrightarrow> fl m = m \<Longrightarrow> 0 \<le> q \<Longrightarrow> bucket_for now m q (NewTokenBucket now m q)"
  by (simp add: bucket_for_def) (simp add: NewTokenBucket_def)

lemma bucket_for_refill: "bucket_for now m q b \<Longrightarrow> bucket_for now m q (refill now b)"
  by (simp add: bucket_for_def refill_ok)

lemma bucket_for_AllowN:
  "bucket_for now m q b \<Longrightarrow> 0 \<le> n \<Longrightarrow> AllowN now b n = (b', ok) \<Longrightarrow> bucket_for now m q b'"
  using AllowN_ok [of b now n] AllowN_frame [of now b n] by (simp add: bucket_for_def)

lemma limiter_inv_later: "limiter_inv cfg t r \<Longrightarrow> t \<le> t' \<Longrightarrow> limiter_inv cfg t' r"
  unfolding limiter_inv_def using bucket_for_later by meson

lemma limiter_invD:
  assumes "limiter_inv cfg now r"
  shows "rl_config r = cfg"
    "bucket_for now (f_mul (MaxBurstSize cfg) 10) (f_mul (MaxRequestsPerSecond cfg) 10) (globalBucket r)"
    "peerBuckets r p = Some b \<Longrightarrow> bucket_for now (MaxBurstSize cfg) (MaxRequestsPerSecond cfg) b"
    "byteBuckets r p = Some b \<Longrightarrow>
       bucket_for now (f_of_int (MaxBytesPerSecond cfg)) (f_of_int (MaxBytesPerSecond cfg)) b"
    "connections r p = Some n \<Longrightarrow> 0 \<le> n \<and> n \<le> MaxConnectionsPerPeer cfg"
  using assms by (auto simp: limiter_inv_def)

lemma NewRateLimiter_inv: "config_ok cfg \<Longrightarrow> limiter_inv cfg now (NewRateLimiter now cfg)"
  by (simp add: limiter_inv_def NewRateLimiter_def config_ok_def bucket_for_new f_mul_def)

lemma peer_bucket_for:
  assumes "limiter_inv cfg now r" and "config_ok cfg"
  shows "bucket_for now (MaxBurstSize cfg) (MaxRequestsPerSecond cfg) (peer_bucket now r p)"
  using limiter_invD [OF assms(1)] assms(2)
  by (auto simp: peer_bucket_def config_ok_def bucket_for_new split: option.split)

lemma byte_bucket_for:
  assumes "limiter_inv cfg now r" and "config_ok cfg"
  shows "bucket_for now (f_of_int (MaxBytesPerSecond cfg)) (f_of_int (MaxBytesPerSecond cfg)) (byte_bucket now r p)"
  using limiter_invD [OF assms(1)] assms(2)
  by (auto simp: byte_bucket_def config_ok_def f_of_int_def bucket_for_new split: option.split)

lemma limiter_inv_set:
  assumes "limiter_inv cfg now r"
  shows "bucket_for now (f_mul (MaxBurstSize cfg) 10) (f_mul (MaxRequestsPerSecond cfg) 10) g \<Longrightarrow>
      limiter_inv cfg now (r\<lparr>globalBucket := g\<rparr>)"
    "bucket_for now (MaxBurstSize cfg) (MaxRequestsPerSecond cfg) b \<Longrightarrow>
      limiter_inv cfg now (r\<lparr>peerBuckets := (peerBuckets r)(p \<mapsto> b)\<rparr>)"
    "bucket_for now (f_of_int (MaxBytesPerSecond cfg)) (f_of_int (MaxBytesPerSecond cfg)) b \<Longrightarrow>
      limiter_inv cfg now (r\<lparr>byteBuckets := (byteBuckets r)(p \<mapsto> b)\<rparr>)"
    "0 \<le> n \<Longrightarrow> n \<le> MaxConnectionsPerPeer cfg \<Longrightarrow>
      limiter_inv cfg now (r\<lparr>connections := (connections r)(p \<mapsto> n)\<rparr>)"
    "limiter_inv cfg now (forget_peer r p)" "limiter_inv cfg now (ResetAll r)"
  using assms unfolding limiter_inv_def forget_peer_def ResetAll_def by simp_all

lemma conn_count_bounds:
  "limiter_inv cfg now r \<Longrightarrow> 0 \<le> conn_count r p"
  "limiter_inv cfg now r \<Longrightarrow> conn_count r p \<le> max 0 (MaxConnectionsPerPeer cfg)"
  using limiter_invD(5) [of cfg now r p] by (auto simp: conn_count_def split: option.split)

lemma AllowRequest_inv:
  assumes inv: "limiter_inv cfg now r" and cfg: "config_ok cfg"
  shows "limiter_inv cfg now (fst (AllowRequest now r p))"
proof -
  obtain g ok where g: "Allow now (globalBucket r) = (g, ok)" by force
  obtain b ok' where b: "Allow now (peer_bucket now r p) = (b, ok')" by force
  have gi: "limiter_inv cfg now (r\<lparr>globalBucket := g\<rparr>)"
    by (rule limiter_inv_set(1) [OF inv bucket_for_AllowN [OF limiter_invD(2) [OF inv]]])
      (use g in \<open>simp_all add: Allow_def\<close>)
  have "limiter_inv cfg now (r\<lparr>globalBucket := g\<rparr>\<lparr>peerBuckets := (peerBuckets (r\<lparr>globalBucket := g\<rparr>))(p \<mapsto> b)\<rparr>)"
    by (rule limiter_inv_set(2) [OF gi bucket_for_AllowN [OF peer_bucket_for [OF inv cfg]]])
      (use b in \<open>simp_all add: Allow_def\<close>)
  then show ?thesis using gi by (simp add: AllowRequest_def g b split: bool.split)
qed

lemma AllowBytes_inv:
  assumes inv: "limiter_inv cfg now r" and cfg: "config_ok cfg" and n: "0 \<le> n"
  shows "limiter_inv cfg now (fst (AllowBytes now r p n))"
proof -
  obtain b ok where b: "AllowN now (byte_bucket now r p) (f_of_int n) = (b, ok)" by force
  have "0 \<le> f_of_int n" using n by (simp add: f_of_int_def)
  then show ?thesis
    using limiter_inv_set(3) [OF inv bucket_for_AllowN [OF byte_bucket_for [OF inv cfg] _ b]]
    by (simp add: AllowBytes_def b)
qed

lemma AllowConnection_inv:
  assumes inv: "limiter_inv cfg now r" and cfg: "config_ok cfg"
  shows "limiter_inv cfg now (fst (AllowConnection r p))"
proof (cases "MaxConnectionsPerPeer cfg \<le> conn_count r p")
  case False
  then have "wrap64 (conn_count r p + 1) = conn_count r p + 1"
    using conn_count_bounds(1) [OF inv, of p] cfg
    by (intro wrap64_nonneg) (auto simp: config_ok_def in64_def)
  then show ?thesis
    using False limiter_inv_set(4) [OF inv, of "conn_count r p + 1" p] conn_count_bounds(1) [OF inv, of p]
    by (simp add: AllowConnection_def Let_def limiter_invD(1) [OF inv])
qed (use inv in \<open>simp add: AllowConnection_def Let_def limiter_invD(1) [OF inv]\<close>)

lemma ReleaseConnection_inv:
  assumes inv: "limiter_inv cfg now r" and cfg: "config_ok cfg"
  shows "limiter_inv cfg now (ReleaseConnection r p)"
proof (cases "0 < conn_count r p")
  case True
  have le: "conn_count r p \<le> MaxConnectionsPerPeer cfg"
    using True conn_count_bounds(2) [OF inv, of p] by (auto simp: max_def split: if_splits)
  have "wrap64 (conn_count r p - 1) = conn_count r p - 1"
    using True le cfg by (intro wrap64_nonneg) (auto simp: config_ok_def in64_def)
  then show ?thesis
    using True le limiter_inv_set(4) [OF inv, of "conn_count r p - 1" p]
    by (simp add: ReleaseConnection_def Let_def)
qed (use inv in \<open>simp add: ReleaseConnection_def Let_def\<close>)

lemma limiter_inv_refills:
  assumes inv: "limiter_inv cfg now r"
  shows "limiter_inv cfg now (fst (WaitForRequest now r p))"
    "limiter_inv cfg now (fst (GetPeerStats now r p))"
proof -
  have peer: "limiter_inv cfg now (r\<lparr>peerBuckets := (peerBuckets r)(p \<mapsto> refill now b)\<rparr>)"
    if "peerBuckets r p = Some b" for b
    using limiter_inv_set(2) [OF inv bucket_for_refill [OF limiter_invD(3) [OF inv that]]] .
  have byte: "limiter_inv cfg now (r'\<lparr>byteBuckets := (byteBuckets r')(p \<mapsto> refill now b)\<rparr>)"
    if "limiter_inv cfg now r'" "byteBuckets r' p = Some b" for r' b
    using limiter_inv_set(3) [OF that(1) bucket_for_refill [OF limiter_invD(4) [OF that]]] .
  show "limiter_inv cfg now (fst (WaitForRequest now r p))"
    using inv peer by (auto simp: WaitForRequest_def WaitTime_def Let_def split: option.split)
  show "limiter_inv cfg now (fst (GetPeerStats now r p))"
    using inv peer byte [of r] byte [OF peer]
    by (auto simp: GetPeerStats_def Tokens_def Let_def split: option.split)
qed

lemma Limiter_Cleanup_inv:
  "limiter_inv cfg now r \<Longrightarrow> limiter_inv cfg now (Limiter_Cleanup now' r a order)"
  unfolding Limiter_Cleanup_def
proof (induction order arbitrary: r)
  case (Cons p order)
  have "limiter_inv cfg now (cleanup_bucket now' a r p)"
    using Cons.prems limiter_inv_set(5) by (auto simp: cleanup_bucket_def split: option.split)
  then show ?case using Cons.IH by simp
qed simp

lemma limiter_step_inv:
  assumes "limiter_inv cfg t r" and "t \<le> now" and "config_ok cfg" and "op_sane x"
  shows "limiter_inv cfg now (fst (limiter_step now x r))"
proof -
  have inv: "limiter_inv cfg now r" using assms(1,2) by (rule limiter_inv_later)
  note steps = AllowRequest_inv [OF inv assms(3)] AllowBytes_inv [OF inv assms(3)]
    AllowConnection_inv [OF inv assms(3)] ReleaseConnection_inv [OF inv assms(3)]
    limiter_inv_refills [OF inv] Limiter_Cleanup_inv [OF inv] limiter_inv_set(5,6) [OF inv]
  show ?thesis using steps assms(4) by (cases x) (simp_all add: Limiter_Reset_def)
qed

section \<open>The limiter meters requests\<close>

definition peer_level :: "limiter_config \<Rightarrow> string \<Rightarrow> time \<Rightarrow> rate_limiter \<Rightarrow> rat" where
  "peer_level cfg p now r =
     (case peerBuckets r p of None \<Rightarrow> MaxBurstSize cfg | Some b \<Rightarrow> level now b)"

lemma bucket_for_level:
  assumes "bucket_for t m q b"
  shows "0 \<le> level t b" "level t' b \<le> level t b + of_int (t' - t) / of_int second * q"
    "0 \<le> q" "0 \<le> m"
proof -
  have b: "0 \<le> tb_tokens b" "0 \<le> q" "tb_refillRate b = q" "tb_lastRefill b \<le> t" "0 \<le> m"
    using assms by (auto simp: bucket_for_def bucket_ok_def)
  show "0 \<le> level t b" using b by (simp add: level_def second_def)
  show "0 \<le> q" "0 \<le> m" using b by simp_all
  show "level t' b \<le> level t b + of_int (t' - t) / of_int second * q"
    using level_later [of t' b t] b(3) by simp
qed

lemma bucket_for_Allow:
  assumes "bucket_for now m q b" and "Allow now b = (b', ok)"
  shows "(if ok then 1 else 0) + level now b' \<le> level now b + call_error m"
proof -
  have "tb_lastRefill b' = now"
    using AllowN_frame(3) [of now b 1] assms(2) by (simp add: Allow_def del: AllowN_frame)
  then have "level now b' = tb_tokens b'" by simp
  then show ?thesis
    using AllowN_level [of b now 1 b' ok] assms by (simp add: bucket_for_def Allow_def)
qed

lemma bucket_for_refill_level:
  assumes "bucket_for now m q b"
  shows "level now (refill now b) \<le> level now b + call_error m"
proof -
  have "0 \<le> m * fl_unit" using bucket_for_level(4) [OF assms] fl_unit(1) by simp
  then show ?thesis
    using refill_level [of b now] assms call_error_ge [of m] bucket_for_level(4) [OF assms] fl_tiny(1)
    by (simp add: bucket_for_def)
qed

lemma globalBucket_frame:
  "\<not> is_request x \<Longrightarrow> globalBucket (fst (limiter_step now x r)) = globalBucket r"
proof (cases x)
  case (LCleanup a order)
  have "globalBucket (foldl (cleanup_bucket now a) r order) = globalBucket r"
    by (induction order arbitrary: r) (simp_all add: cleanup_bucket_def forget_peer_def split: option.split)
  then show ?thesis using LCleanup by (simp add: Limiter_Cleanup_def)
qed (simp_all add: AllowBytes_def AllowConnection_def ReleaseConnection_def WaitForRequest_def
    GetPeerStats_def Limiter_Reset_def forget_peer_def ResetAll_def Let_def WaitTime_def Tokens_def
    split: prod.split option.split)

lemma global_step:
  assumes "limiter_inv cfg now r"
  shows "(if is_request x \<and> snd (limiter_step now x r) then 1 else 0)
      + level now (globalBucket (fst (limiter_step now x r)))
    \<le> level now (globalBucket r) + call_error (f_mul (MaxBurstSize cfg) 10)"
proof (cases "is_request x")
  case True
  then obtain p where x: "x = LRequest p" by (cases x) simp_all
  obtain g ok where g: "Allow now (globalBucket r) = (g, ok)" by force
  obtain b ok' where b: "Allow now (peer_bucket now r p) = (b, ok')" by force
  have "globalBucket (fst (AllowRequest now r p)) = g" "snd (AllowRequest now r p) \<longrightarrow> ok"
    by (simp_all add: AllowRequest_def g b split: bool.split)
  then show ?thesis
    using bucket_for_Allow [OF limiter_invD(2) [OF assms] g]
    by (auto simp: x split: if_splits)
next
  case False
  have "0 \<le> call_error (f_mul (MaxBurstSize cfg) 10)"
    using bucket_for_level(4) [OF limiter_invD(2) [OF assms]] by (rule call_error_nonneg)
  then show ?thesis using False globalBucket_frame [OF False] by simp
qed

lemma peer_level_unfold:
  "peerBuckets r p = Some b \<Longrightarrow> peer_level cfg p now r = level now b"
  by (simp add: peer_level_def)

lemma peer_level_bucket:
  "limiter_inv cfg now r \<Longrightarrow> level now (peer_bucket now r p) = peer_level cfg p now r"
  by (simp add: peer_bucket_def peer_level_def limiter_invD(1) split: option.split)
    (simp add: level_def NewTokenBucket_def)

lemma peer_request:
  assumes inv: "limiter_inv cfg now r" and cfg: "config_ok cfg"
  shows "(if q = p \<and> snd (AllowRequest now r q) then 1 else 0) + peer_level cfg p now (fst (AllowRequest now r q))
    \<le> peer_level cfg p now r + call_error (MaxBurstSize cfg)"
proof -
  obtain g ok where g: "Allow now (globalBucket r) = (g, ok)" by force
  obtain b ok' where b: "Allow now (peer_bucket now r q) = (b, ok')" by force
  have e: "0 \<le> call_error (MaxBurstSize cfg)" using cfg by (simp add: config_ok_def)
  show ?thesis
  proof (cases "ok \<and> q = p")
    case True
    then have "AllowRequest now r q
        = (r\<lparr>globalBucket := g, peerBuckets := (peerBuckets r)(p \<mapsto> b)\<rparr>, ok')"
      using b by (auto simp: AllowRequest_def g)
    moreover have "(if ok' then 1 else 0) + level now b \<le> peer_level cfg p now r + call_error (MaxBurstSize cfg)"
      using bucket_for_Allow [OF peer_bucket_for [OF inv cfg] b] True peer_level_bucket [OF inv] by simp
    moreover have "peer_level cfg p now (r\<lparr>globalBucket := g, peerBuckets := (peerBuckets r)(p \<mapsto> b)\<rparr>)
        = level now b" by (simp add: peer_level_def)
    ultimately show ?thesis using True by simp
  next
    case False
    then have "peer_level cfg p now (fst (AllowRequest now r q)) = peer_level cfg p now r"
      "q = p \<longrightarrow> \<not> snd (AllowRequest now r q)"
      by (auto simp: AllowRequest_def g b peer_level_def split: bool.split)
    then show ?thesis using e by (cases "q = p") simp_all
  qed
qed

lemma peer_refill:
  assumes inv: "limiter_inv cfg now r" and cfg: "config_ok cfg"
    and b: "peerBuckets r q = Some b" and r': "peerBuckets r' = (peerBuckets r)(q \<mapsto> refill now b)"
  shows "peer_level cfg p now r' \<le> peer_level cfg p now r + call_error (MaxBurstSize cfg)"
proof -
  have e: "0 \<le> call_error (MaxBurstSize cfg)" using cfg by (simp add: config_ok_def)
  show ?thesis
    using bucket_for_refill_level [OF limiter_invD(3) [OF inv b]] b e
    by (auto simp: peer_level_def r')
qed

text \<open>A bucket that a cleanup drops has filled up in the time since its last use.\<close>

lemma stale_level:
  assumes "limiter_inv cfg now r" "config_ok cfg" "refills_within cfg age" "peerBuckets r q = Some b"
    and "age < time_sub now (tb_lastRefill b)"
  shows "MaxBurstSize cfg \<le> level now b"
proof (cases "MaxBurstSize cfg = 0")
  case True
  then show ?thesis
    using bucket_for_level(1) [OF limiter_invD(3) [OF assms(1,4)]] by simp
next
  case False
  note b = limiter_invD(3) [OF assms(1,4)]
  have rate: "0 \<le> MaxRequestsPerSecond cfg" and burst: "0 < MaxBurstSize cfg"
    using assms(2) False by (simp_all add: config_ok_def)
  have fill: "MaxBurstSize cfg * of_int second \<le> of_int age * MaxRequestsPerSecond cfg"
    using assms(3) by (simp add: refills_within_def)
  then have "0 < of_int age * MaxRequestsPerSecond cfg"
    using burst by (intro less_le_trans [OF _ fill]) (simp add: second_def)
  then have "0 < age"
    using rate by (simp add: zero_less_mult_iff)
  then have "age \<le> now - tb_lastRefill b"
    using assms(5) by (simp add: time_sub_def max_duration_def)
  then have "of_int age * MaxRequestsPerSecond cfg \<le> of_int (now - tb_lastRefill b) * MaxRequestsPerSecond cfg"
    using rate by (intro mult_right_mono) simp_all
  with fill have "MaxBurstSize cfg * of_int second \<le> of_int (now - tb_lastRefill b) * MaxRequestsPerSecond cfg"
    by linarith
  moreover have "(0 :: rat) < of_int second"
    by (simp add: second_def)
  ultimately have "MaxBurstSize cfg \<le> of_int (now - tb_lastRefill b) * MaxRequestsPerSecond cfg / of_int second"
    by (simp only: pos_le_divide_eq)
  then show ?thesis
    using b by (simp add: level_def bucket_for_def bucket_ok_def)
qed

lemma cleanup_bucket_level:
  assumes "limiter_inv cfg now r" "config_ok cfg" "refills_within cfg age"
  shows "limiter_inv cfg now (cleanup_bucket now age r q)"
    "peer_level cfg p now (cleanup_bucket now age r q) \<le> peer_level cfg p now r"
  using limiter_inv_set(5) [OF assms(1), of q] assms(1) stale_level [OF assms]
  by (auto simp: cleanup_bucket_def peer_level_def forget_peer_def split: option.split)

lemma peer_cleanup:
  assumes "limiter_inv cfg now r" "config_ok cfg" "refills_within cfg age"
  shows "peer_level cfg p now (Limiter_Cleanup now r age order) \<le> peer_level cfg p now r"
  using assms(1)
proof (induction order arbitrary: r)
  case (Cons q order)
  from order_trans [OF Cons.IH [OF cleanup_bucket_level(1) [OF Cons.prems assms(2,3)]] cleanup_bucket_level(2) [OF Cons.prems assms(2,3)]]
  show ?case by (simp add: Limiter_Cleanup_def)
qed (simp add: Limiter_Cleanup_def)

lemma peer_step:
  assumes inv: "limiter_inv cfg now r" and cfg: "config_ok cfg" and x: "spares cfg p x"
  shows "(if x = LRequest p \<and> snd (limiter_step now x r) then 1 else 0)
      + peer_level cfg p now (fst (limiter_step now x r))
    \<le> peer_level cfg p now r + call_error (MaxBurstSize cfg)"
proof -
  have e: "0 \<le> call_error (MaxBurstSize cfg)" using cfg by (simp add: config_ok_def)
  have same: ?thesis if "peerBuckets (fst (limiter_step now x r)) = peerBuckets r" "\<not> is_request x"
    using that e by (auto simp: peer_level_def)
  have refilled: ?thesis if "peerBuckets r q = Some b" "\<not> is_request x"
      "peerBuckets (fst (limiter_step now x r)) = (peerBuckets r)(q \<mapsto> refill now b)" for q b
    using peer_refill [OF inv cfg that(1,3), of p] that(2) by auto
  show ?thesis
  proof (cases x)
    case (LRequest q)
    then show ?thesis using peer_request [OF inv cfg, of q p] by simp
  next
    case (LWait q)
    then show ?thesis using same refilled [of q]
      by (cases "peerBuckets r q") (simp_all add: WaitForRequest_def WaitTime_def Let_def)
  next
    case (LStats q)
    then show ?thesis using same refilled [of q]
      by (cases "peerBuckets r q")
        (simp_all add: GetPeerStats_def Tokens_def Let_def split: option.splits)
  next
    case (LCleanup age order)
    then show ?thesis using peer_cleanup [OF inv cfg, of age p order] x e by simp
  next
    case (LReset q)
    then show ?thesis using x e by (simp add: peer_level_def Limiter_Reset_def forget_peer_def)
  qed (use same x in \<open>simp_all add: AllowBytes_def AllowConnection_def ReleaseConnection_def Let_def
        split: prod.splits\<close>)
qed

lemma peer_level_later:
  assumes "limiter_inv cfg t r" and "config_ok cfg" and "t \<le> t'"
  shows "peer_level cfg p t' r
    \<le> peer_level cfg p t r + of_int (t' - t) / of_int second * MaxRequestsPerSecond cfg"
  using bucket_for_level(2) [OF limiter_invD(3) [OF assms(1)], of p _ t'] assms(2,3)
  by (auto simp: peer_level_def config_ok_def second_def split: option.split)

lemma peer_level_nonneg: "limiter_inv cfg t r \<Longrightarrow> config_ok cfg \<Longrightarrow> 0 \<le> peer_level cfg p t r"
  using bucket_for_level(1) [OF limiter_invD(3) [of cfg t r p]]
  by (auto simp: peer_level_def config_ok_def split: option.split)

interpretation global_meter: metered "\<lambda>t r. config_ok cfg \<and> limiter_inv cfg t r" limiter_step op_sane
    is_request "\<lambda>t r. level t (globalBucket r)" "f_mul (MaxRequestsPerSecond cfg) 10"
    "call_error (f_mul (MaxBurstSize cfg) 10)" for cfg
proof (unfold_locales, goal_cases)
  case (1 t s t')
  then show ?case using limiter_inv_later by blast
next
  case (2 t s x)
  then show ?case using limiter_step_inv by blast
next
  case (3 t s)
  then show ?case using bucket_for_level(1) limiter_invD(2) by blast
next
  case (4 t s t')
  then show ?case using bucket_for_level(2) limiter_invD(2) by blast
next
  case (5 t s x)
  then show ?case using global_step by blast
qed

interpretation peer_meter: metered "\<lambda>t r. config_ok cfg \<and> limiter_inv cfg t r" limiter_step
    "\<lambda>x. op_sane x \<and> spares cfg p x" "\<lambda>x. x = LRequest p" "peer_level cfg p"
    "MaxRequestsPerSecond cfg" "call_error (MaxBurstSize cfg)" for cfg p
proof (unfold_locales, goal_cases)
  case (1 t s t')
  then show ?case using limiter_inv_later by blast
next
  case (2 t s x)
  then show ?case using limiter_step_inv by blast
next
  case (3 t s)
  then show ?case using peer_level_nonneg by blast
next
  case (4 t s t')
  then show ?case using peer_level_later by blast
next
  case (5 t s x)
  then show ?case using peer_step by blast
qed

lemma NewRateLimiter_simps [simp]:
  "globalBucket (NewRateLimiter t cfg)
     = NewTokenBucket t (f_mul (MaxBurstSize cfg) 10) (f_mul (MaxRequestsPerSecond cfg) 10)"
  "peerBuckets (NewRateLimiter t cfg) = Map.empty" "rl_config (NewRateLimiter t cfg) = cfg"
  "connections (NewRateLimiter t cfg) = Map.empty" "level t (NewTokenBucket t m q) = m"
  by (simp_all add: NewRateLimiter_def level_def NewTokenBucket_def)

section \<open>Cleanup\<close>

definition stale_peer :: "time \<Rightarrow> duration \<Rightarrow> rate_limiter \<Rightarrow> string \<Rightarrow> bool" where
  "stale_peer now maxAge r p \<longleftrightarrow>
     (case peerBuckets r p of None \<Rightarrow> False | Some b \<Rightarrow> maxAge < time_sub now (tb_lastRefill b))"

definition keep_fresh :: "(string \<Rightarrow> bool) \<Rightarrow> (string \<rightharpoonup> 'v) \<Rightarrow> string \<rightharpoonup> 'v" where
  "keep_fresh stale m p = (if stale p then None else m p)"

lemma cleanup_bucket_stale:
  "cleanup_bucket now a r p = (if stale_peer now a r p then forget_peer r p else r)"
  by (simp add: cleanup_bucket_def stale_peer_def split: option.split)

lemma stale_forget: "q \<noteq> p \<Longrightarrow> stale_peer now a (forget_peer r p) q = stale_peer now a r q"
  by (simp add: stale_peer_def forget_peer_def)

lemma keep_fresh_step:
  "p \<notin> S \<Longrightarrow> stale p \<Longrightarrow> keep_fresh (\<lambda>q. stale' q \<and> q \<in> S) (m(p := None)) = keep_fresh (\<lambda>q. stale q \<and> (q = p \<or> q \<in> S)) m"
  if "\<And>q. q \<in> S \<Longrightarrow> stale' q = stale q"
  using that by (intro ext) (auto simp: keep_fresh_def)

lemma Limiter_Cleanup_fold:
  assumes "distinct order"
  shows "Limiter_Cleanup now r a order =
    (let stale = (\<lambda>p. stale_peer now a r p \<and> p \<in> set order)
     in r\<lparr>peerBuckets := keep_fresh stale (peerBuckets r), byteBuckets := keep_fresh stale (byteBuckets r),
          connections := keep_fresh stale (connections r)\<rparr>)"
  using assms
proof (induction order arbitrary: r)
  case Nil
  show ?case by (simp add: Limiter_Cleanup_def keep_fresh_def [abs_def])
next
  case (Cons p order)
  have st: "q \<in> set order \<Longrightarrow> stale_peer now a (forget_peer r p) q = stale_peer now a r q" for q
    using Cons.prems by (intro stale_forget) auto
  have fold: "Limiter_Cleanup now r a (p # order) = Limiter_Cleanup now (cleanup_bucket now a r p) a order"
    by (simp add: Limiter_Cleanup_def)
  show ?case
  proof (cases "stale_peer now a r p")
    case True
    have m: "keep_fresh (\<lambda>q. stale_peer now a (forget_peer r p) q \<and> q \<in> set order) (m(p := None))
        = keep_fresh (\<lambda>q. stale_peer now a r q \<and> q \<in> set (p # order)) m" for m :: "string \<rightharpoonup> 'v"
      using Cons.prems True st keep_fresh_step [of "set order" "stale_peer now a (forget_peer r p)" "stale_peer now a r" p m]
      by simp
    have sel: "peerBuckets (forget_peer r p) = (peerBuckets r)(p := None)"
      "byteBuckets (forget_peer r p) = (byteBuckets r)(p := None)"
      "connections (forget_peer r p) = (connections r)(p := None)" by (simp_all add: forget_peer_def)
    have "Limiter_Cleanup now r a (p # order) = Limiter_Cleanup now (forget_peer r p) a order"
      using True by (simp only: fold cleanup_bucket_stale if_True)
    also have "\<dots> = (let stale = (\<lambda>q. stale_peer now a (forget_peer r p) q \<and> q \<in> set order)
      in (forget_peer r p)\<lparr>peerBuckets := keep_fresh stale ((peerBuckets r)(p := None)),
           byteBuckets := keep_fresh stale ((byteBuckets r)(p := None)),
           connections := keep_fresh stale ((connections r)(p := None))\<rparr>)"
      using Cons by (simp only: Cons.IH sel distinct.simps)
    finally show ?thesis by (simp only: Let_def m) (simp add: forget_peer_def)
  next
    case False
    then have "(\<lambda>q. stale_peer now a r q \<and> q \<in> set (p # order)) = (\<lambda>q. stale_peer now a r q \<and> q \<in> set order)"
      by auto
    then show ?thesis using False Cons by (simp only: fold cleanup_bucket_stale if_False distinct.simps)
  qed
qed

section \<open>A flooding peer\<close>

lemma refill_same_time: "fl (tb_tokens b) = tb_tokens b \<Longrightarrow> tb_tokens b \<le> tb_maxTokens b \<Longrightarrow>
    tb_lastRefill b = now \<Longrightarrow> refill now b = b"
  by (cases b) (simp add: refill_def Let_def duration_seconds_def f_add_def f_mul_def f_of_int_def f_div_def
      sdiv_smod_nonneg)

lemma Allow_integer:
  assumes "tb_tokens b = of_nat n" and "tb_tokens b \<le> tb_maxTokens b" and "tb_lastRefill b = now" and "n < 2 ^ 53"
  shows "Allow now b = (b\<lparr>tb_tokens := of_nat (n - 1)\<rparr>, 0 < n)"
proof -
  have fln: "fl (of_nat k) = of_nat k" if "k \<le> n" for k
    using fl_of_int [of "int k"] assms(4) that by simp
  have "refill now b = b" using assms fln [of n] by (intro refill_same_time) simp_all
  moreover have "0 < n \<Longrightarrow> f_sub (of_nat n) 1 = of_nat (n - 1)"
    using fln [of "n - 1"] by (simp add: f_sub_def of_nat_diff)
  ultimately show ?thesis using assms(1)
    by (cases n) (simp_all add: Allow_def AllowN_def Let_def del: of_nat_Suc)
qed

lemma AllowRequest_same_time:
  assumes "tb_tokens (globalBucket r) = of_nat n" and "tb_tokens (globalBucket r) \<le> tb_maxTokens (globalBucket r)"
    and "tb_lastRefill (globalBucket r) = now" and "n < 2 ^ 53"
  shows "globalBucket (fst (AllowRequest now r p)) = (globalBucket r)\<lparr>tb_tokens := of_nat (n - 1)\<rparr>"
    and "n = 0 \<Longrightarrow> \<not> snd (AllowRequest now r p)"
  using Allow_integer [OF assms] by (auto simp: AllowRequest_def split: prod.split bool.split)

lemma flood:
  assumes "tb_tokens (globalBucket r) = of_nat n" and "tb_tokens (globalBucket r) \<le> tb_maxTokens (globalBucket r)"
    and "tb_lastRefill (globalBucket r) = now" and "n < 2 ^ 53"
  shows "tb_tokens (globalBucket (timed_run limiter_step (replicate k (now, LRequest p)) r)) = of_nat (n - k)
    \<and> tb_tokens (globalBucket (timed_run limiter_step (replicate k (now, LRequest p)) r))
        \<le> tb_maxTokens (globalBucket (timed_run limiter_step (replicate k (now, LRequest p)) r))
    \<and> tb_lastRefill (globalBucket (timed_run limiter_step (replicate k (now, LRequest p)) r)) = now"
  using assms
proof (induction k arbitrary: r n)
  case (Suc k)
  have "of_nat (n - 1) \<le> (of_nat n :: rat)" by (simp del: of_nat_diff)
  then have "of_nat (n - 1) \<le> tb_maxTokens (globalBucket r)" using Suc.prems(1,2) by linarith
  moreover have "n - 1 < 2 ^ 53" using Suc.prems(4) by linarith
  ultimately show ?case
    using Suc.IH [of "fst (AllowRequest now r p)" "n - 1"] Suc.prems(3) AllowRequest_same_time(1) [OF Suc.prems, of p]
    by simp
qed simp

section \<open>Properties\<close>

lemma DefaultLimiterConfig_simps [simp]:
  "MaxRequestsPerSecond DefaultLimiterConfig = 100" "MaxBurstSize DefaultLimiterConfig = 200"
  "MaxBytesPerSecond DefaultLimiterConfig = 10485760" "MaxConnectionsPerPeer DefaultLimiterConfig = 10"
  by (simp_all add: DefaultLimiterConfig_def)

lemma default_config_ok [simp]: "config_ok DefaultLimiterConfig"
  by (simp add: config_ok_def fl_numeral in64_def)

text \<open>
  C11. However the calls on a new limiter interleave (cleanups and resets included), the
  requests it allows up to a time are at most the global burst plus the global rate times
  the elapsed seconds, but for the float rounding of each call, \<open>(burst + 1) / 2^49\<close>.
\<close>

theorem limiter_global_bound:
  assumes "config_ok cfg" and "clocked t0 h" and "\<forall>(t, x)\<in>set h. op_sane x"
  shows "of_nat (granted limiter_step is_request h (NewRateLimiter t0 cfg))
    \<le> f_mul (MaxBurstSize cfg) 10
      + of_int (end_time t0 h - t0) / of_int second * f_mul (MaxRequestsPerSecond cfg) 10
      + of_nat (length h) * call_error (f_mul (MaxBurstSize cfg) 10)"
  using global_meter.granted_bound [of cfg t0 "NewRateLimiter t0 cfg" h] assms NewRateLimiter_inv [OF assms(1)]
  by simp

lemma f_mul_ints: "\<bar>m * n\<bar> < 2 ^ 53 \<Longrightarrow> f_mul (of_int m) (of_int n) = of_int (m * n)"
  using fl_of_int [of "m * n"] by (simp add: f_mul_def)

lemma f_mul_1000_10 [simp]: "f_mul 100 10 = 1000" "f_mul 200 10 = 2000"
  using f_mul_ints [of 100 10] f_mul_ints [of 200 10] by simp_all

lemma limiter_global_bound_witness:
  "of_nat (granted limiter_step is_request
       [(5, LRequest ''a''), (7 * second, LCleanup minute [''a'']), (9 * second, LRequest ''b'')]
       (NewRateLimiter 0 DefaultLimiterConfig))
    \<le> (2000 :: rat) + 9 * 1000 + 3 * call_error 2000"
  using limiter_global_bound [of DefaultLimiterConfig 0
      "[(5, LRequest ''a''), (7 * second, LCleanup minute [''a'']), (9 * second, LRequest ''b'')]"]
  by (simp add: second_def)

text \<open>
  C25. As long as no reset drops the peer's bucket and every cleanup is of an age in which an empty
  bucket fills up (the relay's is of 24 hours, the default bucket fills in two seconds), a peer
  gets at most its own burst plus its own rate times the elapsed seconds, whatever the other
  peers do, but for the float rounding of each call.
\<close>

theorem limiter_peer_bound:
  assumes "config_ok cfg" and "clocked t0 h" and "\<forall>(t, x)\<in>set h. op_sane x \<and> spares cfg p x"
  shows "of_nat (granted limiter_step (\<lambda>x. x = LRequest p) h (NewRateLimiter t0 cfg))
    \<le> MaxBurstSize cfg + of_int (end_time t0 h - t0) / of_int second * MaxRequestsPerSecond cfg
      + of_nat (length h) * call_error (MaxBurstSize cfg)"
  using peer_meter.granted_bound [of cfg t0 "NewRateLimiter t0 cfg" h p] assms NewRateLimiter_inv [OF assms(1)]
  by (simp add: peer_level_def)

lemma limiter_peer_bound_witness:
  "of_nat (granted limiter_step (\<lambda>x. x = LRequest ''a'')
       [(5, LRequest ''a''), (6, LWait ''a''), (7, LCleanup (24 * hour) [''a'']), (8, LReset ''b''), (9 * second, LRequest ''b'')]
       (NewRateLimiter 0 DefaultLimiterConfig))
    \<le> (200 :: rat) + 9 * 100 + 5 * call_error 200"
  using limiter_peer_bound [of DefaultLimiterConfig 0
      "[(5, LRequest ''a''), (6, LWait ''a''), (7, LCleanup (24 * hour) [''a'']), (8, LReset ''b''), (9 * second, LRequest ''b'')]" "''a''"]
  by (simp add: second_def refills_within_def hour_def minute_def)

lemma connections_after_history:
  assumes "config_ok cfg" and "clocked t0 h" and "\<forall>(t, x)\<in>set h. op_sane x"
    and "r = timed_run limiter_step h (NewRateLimiter t0 cfg)"
  shows "0 \<le> conn_count r p \<and> conn_count r p \<le> max 0 (MaxConnectionsPerPeer cfg)"
    and "snd (AllowConnection r p) \<longleftrightarrow> conn_count r p < MaxConnectionsPerPeer cfg"
    and "conn_count (fst (AllowConnection r p)) q
      = conn_count r q + (if q = p \<and> snd (AllowConnection r p) then 1 else 0)"
    and "conn_count (ReleaseConnection r p) q = (if q = p then max 0 (conn_count r q - 1) else conn_count r q)"
proof -
  have inv: "limiter_inv cfg (end_time t0 h) r"
    using global_meter.inv_run [of cfg t0 "NewRateLimiter t0 cfg" h] assms NewRateLimiter_inv [OF assms(1)] by simp
  note b = conn_count_bounds [OF inv, of p]
  show "0 \<le> conn_count r p \<and> conn_count r p \<le> max 0 (MaxConnectionsPerPeer cfg)" using b by simp
  show ok: "snd (AllowConnection r p) \<longleftrightarrow> conn_count r p < MaxConnectionsPerPeer cfg"
    by (simp add: AllowConnection_def Let_def limiter_invD(1) [OF inv] not_le)
  have "conn_count r p < MaxConnectionsPerPeer cfg \<Longrightarrow> wrap64 (conn_count r p + 1) = conn_count r p + 1"
    using b assms(1) by (intro wrap64_nonneg) (auto simp: config_ok_def in64_def)
  then show "conn_count (fst (AllowConnection r p)) q
      = conn_count r q + (if q = p \<and> snd (AllowConnection r p) then 1 else 0)"
    unfolding ok by (auto simp: AllowConnection_def Let_def limiter_invD(1) [OF inv] conn_count_def)
  have "max 0 (MaxConnectionsPerPeer cfg) < 2 ^ 63" using assms(1) by (auto simp: config_ok_def in64_def)
  then have "0 < conn_count r p \<Longrightarrow> wrap64 (conn_count r p - 1) = conn_count r p - 1"
    using b by (intro wrap64_nonneg) linarith+
  then show "conn_count (ReleaseConnection r p) q = (if q = p then max 0 (conn_count r q - 1) else conn_count r q)"
    using b(1) by (auto simp: ReleaseConnection_def Let_def conn_count_def)
qed

text \<open>
  C26. After any history the number of connections counted for a peer is between 0 and the
  configured maximum; a connection is granted exactly below the maximum and then counted;
  a release takes one back and never goes below 0.
\<close>

theorem limiter_connections_bounded:
  assumes "config_ok cfg" and "clocked t0 h" and "\<forall>(t, x)\<in>set h. op_sane x"
    and "r = timed_run limiter_step h (NewRateLimiter t0 cfg)"
  shows "0 \<le> conn_count r p \<and> conn_count r p \<le> max 0 (MaxConnectionsPerPeer cfg)
    \<and> (snd (AllowConnection r p) \<longleftrightarrow> conn_count r p < MaxConnectionsPerPeer cfg)
    \<and> conn_count (fst (AllowConnection r p)) q
        = conn_count r q + (if q = p \<and> snd (AllowConnection r p) then 1 else 0)
    \<and> conn_count (ReleaseConnection r p) q
        = (if q = p then max 0 (conn_count r q - 1) else conn_count r q)"
  using connections_after_history [OF assms, of p] connections_after_history(3,4) [OF assms, of p q] by simp

lemma limiter_connections_bounded_witness:
  "conn_count (timed_run limiter_step [(1, LConnect ''a''), (2, LConnect ''b''), (3, LRelease ''a'')]
     (NewRateLimiter 0 DefaultLimiterConfig)) ''b'' \<le> 10"
  using limiter_connections_bounded [of DefaultLimiterConfig 0
      "[(1, LConnect ''a''), (2, LConnect ''b''), (3, LRelease ''a'')]" _ "''b''", OF _ _ _ refl]
  by (simp del: timed_run.simps)

text \<open>
  Waiting long enough is enough: once the elapsed time earns one token by the bucket's
  own float arithmetic, \<open>Allow\<close> answers true, however empty the bucket was.
\<close>

theorem bucket_refills:
  assumes "bucket_ok b" and "1 \<le> tb_maxTokens b" and "tb_lastRefill b \<le> now"
    and "1 \<le> duration_seconds (time_sub now (tb_lastRefill b)) * tb_refillRate b"
  shows "snd (Allow now b)"
proof -
  let ?w = "f_mul (duration_seconds (time_sub now (tb_lastRefill b))) (tb_refillRate b)"
  have "1 \<le> ?w" using fl_mono [OF assms(4)] by (simp add: f_mul_def)
  then have "1 \<le> f_add (tb_tokens b) ?w"
    using fl_mono [of 1 "tb_tokens b + ?w"] assms(1) by (simp add: f_add_def bucket_ok_def)
  then show ?thesis using assms(2) by (simp add: Allow_def AllowN_def refill_def Let_def)
qed

lemma bucket_refills_witness:
  "snd (Allow (3 * second) (fst (Allow 0 (NewTokenBucket 0 1 1))))"
proof -
  have d: "duration_seconds 3000000000 = 3"
    using fl_of_int [of 3] by (simp add: duration_seconds_def sdiv_smod_nonneg second_def f_add_def f_div_def f_of_int_def)
  have "bucket_ok (fst (Allow 0 (NewTokenBucket 0 1 1)))"
    unfolding Allow_def by (rule AllowN_ok) (simp_all add: NewTokenBucket_def bucket_ok_def)
  then show ?thesis
    by (rule bucket_refills)
      (simp_all add: Allow_def second_def, simp_all add: NewTokenBucket_def time_sub_def max_duration_def d)
qed

text \<open>
  The global token is taken before the peer's bucket is asked, so refused requests use up
  the global budget too: when the global bucket holds \<open>n\<close> tokens, \<open>n\<close> requests of one peer at
  one instant, however many its own bucket refuses, leave every other peer refused.
\<close>

theorem limiter_flood_starves_others:
  assumes "tb_tokens (globalBucket r) = of_nat n" and "tb_tokens (globalBucket r) \<le> tb_maxTokens (globalBucket r)"
    and "tb_lastRefill (globalBucket r) = now" and "n < 2 ^ 53" and "n \<le> k"
  shows "\<not> snd (AllowRequest now (timed_run limiter_step (replicate k (now, LRequest p)) r) q)"
  using AllowRequest_same_time(2) [of "timed_run limiter_step (replicate k (now, LRequest p)) r" "n - k" now q]
    flood [OF assms(1-4), of k p] assms(4,5) by simp

lemma limiter_flood_starves_others_witness:
  "\<not> snd (AllowRequest 0 (timed_run limiter_step (replicate 2000 (0, LRequest ''a''))
      (NewRateLimiter 0 DefaultLimiterConfig)) ''b'')"
  by (rule limiter_flood_starves_others [where n = 2000])
    (simp_all, simp_all add: NewTokenBucket_def)

lemma cleanup_buckets:
  assumes "distinct order" and "set order = dom (peerBuckets r)" and "r' = Limiter_Cleanup now r maxAge order"
  shows "peerBuckets r' p = (if stale_peer now maxAge r p then None else peerBuckets r p)"
    and "byteBuckets r' p = (if stale_peer now maxAge r p then None else byteBuckets r p)"
    and "conn_count r' p = (if stale_peer now maxAge r p then 0 else conn_count r p)"
    and "globalBucket r' = globalBucket r"
    and "peerBuckets r p = None \<Longrightarrow> byteBuckets r' p = byteBuckets r p \<and> connections r' p = connections r p"
proof -
  have st: "(stale_peer now maxAge r q \<and> q \<in> set order) = stale_peer now maxAge r q" for q
    using assms(2) by (auto simp: stale_peer_def split: option.splits)
  then have "(\<lambda>q. stale_peer now maxAge r q \<and> q \<in> set order) = stale_peer now maxAge r" by (rule ext)
  then have r': "r' = r\<lparr>peerBuckets := keep_fresh (stale_peer now maxAge r) (peerBuckets r),
      byteBuckets := keep_fresh (stale_peer now maxAge r) (byteBuckets r),
      connections := keep_fresh (stale_peer now maxAge r) (connections r)\<rparr>"
    by (simp add: assms(3) Limiter_Cleanup_fold [OF assms(1)] Let_def)
  show "peerBuckets r' p = (if stale_peer now maxAge r p then None else peerBuckets r p)"
    "byteBuckets r' p = (if stale_peer now maxAge r p then None else byteBuckets r p)"
    "conn_count r' p = (if stale_peer now maxAge r p then 0 else conn_count r p)"
    "globalBucket r' = globalBucket r"
    "peerBuckets r p = None \<Longrightarrow> byteBuckets r' p = byteBuckets r p \<and> connections r' p = connections r p"
    by (simp_all add: r' keep_fresh_def conn_count_def stale_peer_def)
qed

text \<open>
  \<open>Cleanup\<close>, whatever order the runtime visits the peers in, drops the buckets and the
  connection count of exactly the peers whose request bucket is older than the age: open
  connections of such a peer are forgotten, and peers with only a byte bucket or only
  connections are never dropped.
\<close>

theorem limiter_cleanup_exact:
  assumes "distinct order" and "set order = dom (peerBuckets r)" and "r' = Limiter_Cleanup now r maxAge order"
  shows "globalBucket r' = globalBucket r
    \<and> (\<forall>p. peerBuckets r' p = (if stale_peer now maxAge r p then None else peerBuckets r p)
        \<and> byteBuckets r' p = (if stale_peer now maxAge r p then None else byteBuckets r p)
        \<and> conn_count r' p = (if stale_peer now maxAge r p then 0 else conn_count r p)
        \<and> (peerBuckets r p = None \<longrightarrow> byteBuckets r' p = byteBuckets r p \<and> connections r' p = connections r p))"
  using cleanup_buckets [OF assms] by simp

definition idle_limiter :: rate_limiter where
  "idle_limiter = (NewRateLimiter 0 DefaultLimiterConfig)\<lparr>
     peerBuckets := [''a'' \<mapsto> NewTokenBucket 0 200 100, ''b'' \<mapsto> NewTokenBucket hour 200 100],
     connections := [''a'' \<mapsto> 10, ''c'' \<mapsto> 10]\<rparr>"

lemma limiter_cleanup_exact_witness:
  "conn_count idle_limiter ''a'' = 10
    \<and> conn_count (Limiter_Cleanup (hour + 1) idle_limiter hour [''b'', ''a'']) ''a'' = 0
    \<and> conn_count (Limiter_Cleanup (hour + 1) idle_limiter hour [''b'', ''a'']) ''c'' = 10"
proof -
  have st: "stale_peer (hour + 1) hour idle_limiter ''a''" "\<not> stale_peer (hour + 1) hour idle_limiter ''c''"
    by (simp_all add: stale_peer_def idle_limiter_def NewTokenBucket_def time_sub_def max_duration_def
        hour_def minute_def second_def)
  have dom: "set [''b'', ''a''] = dom (peerBuckets idle_limiter)" by (auto simp: idle_limiter_def)
  show ?thesis
    using limiter_cleanup_exact [OF _ dom refl, of "hour + 1" hour] st
    by (simp add: idle_limiter_def conn_count_def)
qed

end
