(* ===== verification/Sha256.thy ===== *)
theory Sha256
  imports Prelude "HOL-Library.Word"
begin

text \<open>
  \<open>crypto/sha256.Sum256\<close> as FIPS 180-4 defines it, on 32-bit words, and
  \<open>hex.EncodeToString\<close>: the content addresses of the cloud storage and the key hash of the
  router.
\<close>

unbundle bit_operations_syntax

type_synonym word32 = "32 word"

section \<open>Constants\<close>

text \<open>
  The round constants are the first 32 bits of the fractional parts of the cube roots of the
  first 64 primes, the initial state those of the square roots of the first eight: computed
  here bit by bit as integer roots of the primes scaled by \<open>2 ^ (32 * e)\<close>.
\<close>

definition small_primes :: "nat list" where
  "small_primes = filter (\<lambda>n. list_all (\<lambda>d. n mod d \<noteq> 0) [2..<n]) [2..<312]"

fun root_bits :: "nat \<Rightarrow> int \<Rightarrow> nat \<Rightarrow> int \<Rightarrow> int" where
  "root_bits e n 0 r = r"
| "root_bits e n (Suc i) r = (let r' = r + 2 ^ i in root_bits e n i (if r' ^ e \<le> n then r' else r))"

definition root_word :: "nat \<Rightarrow> nat \<Rightarrow> word32" where
  "root_word e p = of_int (root_bits e (int p * 2 ^ (32 * e)) 40 0)"

definition sha_K :: "word32 list" where
  "sha_K = map (root_word 3) small_primes"

definition sha_H0 :: "word32 list" where
  "sha_H0 = map (root_word 2) [2, 3, 5, 7, 11, 13, 17, 19]"

section \<open>Compression\<close>

definition rotr :: "nat \<Rightarrow> word32 \<Rightarrow> word32" where
  "rotr n x = (drop_bit n x OR push_bit (32 - n) x)"

definition Ch :: "word32 \<Rightarrow> word32 \<Rightarrow> word32 \<Rightarrow> word32" where
  "Ch x y z = ((x AND y) XOR (NOT x AND z))"

definition Maj :: "word32 \<Rightarrow> word32 \<Rightarrow> word32 \<Rightarrow> word32" where
  "Maj x y z = ((x AND y) XOR (x AND z) XOR (y AND z))"

definition Sig0 :: "word32 \<Rightarrow> word32" where "Sig0 x = (rotr 2 x XOR rotr 13 x XOR rotr 22 x)"
definition Sig1 :: "word32 \<Rightarrow> word32" where "Sig1 x = (rotr 6 x XOR rotr 11 x XOR rotr 25 x)"
definition sig0 :: "word32 \<Rightarrow> word32" where "sig0 x = (rotr 7 x XOR rotr 18 x XOR drop_bit 3 x)"
definition sig1 :: "word32 \<Rightarrow> word32" where "sig1 x = (rotr 17 x XOR rotr 19 x XOR drop_bit 10 x)"

text \<open>The message schedule, newest word first, extended word by word.\<close>

fun schedule :: "nat \<Rightarrow> word32 list \<Rightarrow> word32 list" where
  "schedule 0 ws = ws"
| "schedule (Suc n) ws = schedule n ((sig1 (ws ! 1) + ws ! 6 + sig0 (ws ! 14) + ws ! 15) # ws)"

fun rounds :: "word32 list \<Rightarrow> word32 list \<Rightarrow> word32 list \<Rightarrow> word32 list" where
  "rounds (k # ks) (w # ws) [a, b, c, d, e, f, g, h] =
     (let t1 = h + Sig1 e + Ch e f g + k + w; t2 = Sig0 a + Maj a b c
      in rounds ks ws [t1 + t2, a, b, c, d + t1, e, f, g])"
| "rounds _ _ st = st"

definition compress :: "word32 list \<Rightarrow> word32 list \<Rightarrow> word32 list" where
  "compress H block = map2 (+) H (rounds sha_K (rev (schedule 48 (rev block))) H)"

section \<open>Padding and bytes\<close>

definition byte_of :: "char \<Rightarrow> word32" where
  "byte_of c = of_int (of_char c)"

fun be_words :: "word32 list \<Rightarrow> word32 list" where
  "be_words (a # b # c # d # xs) =
     (push_bit 24 a OR push_bit 16 b OR push_bit 8 c OR d) # be_words xs"
| "be_words _ = []"

text \<open>The length of the message in bits, as eight big-endian bytes.\<close>

definition length_bytes :: "nat \<Rightarrow> word32 list" where
  "length_bytes n = map (\<lambda>i. of_int (8 * int n div 256 ^ i mod 256)) [7, 6, 5, 4, 3, 2, 1, 0]"

definition sha_pad :: "bytes \<Rightarrow> word32 list" where
  "sha_pad m = map byte_of m @ 0x80 # replicate (nat ((55 - int (length m)) mod 64)) 0 @ length_bytes (length m)"

fun sha_blocks :: "nat \<Rightarrow> word32 list \<Rightarrow> word32 list \<Rightarrow> word32 list" where
  "sha_blocks 0 H ws = H"
| "sha_blocks (Suc n) H ws = sha_blocks n (compress H (take 16 ws)) (drop 16 ws)"

text \<open>\<open>Sum256\<close>: a message of \<open>n\<close> bytes pads to \<open>(n + 8) div 64 + 1\<close> blocks of 64 bytes.\<close>

definition sha256_words :: "bytes \<Rightarrow> word32 list" where
  "sha256_words m = sha_blocks ((length m + 8) div 64 + 1) sha_H0 (be_words (sha_pad m))"

definition word_bytes :: "word32 \<Rightarrow> bytes" where
  "word_bytes w = map (\<lambda>i. char_of (uint (drop_bit (8 * i) w) mod 256)) [3, 2, 1, 0]"

definition sha256 :: "bytes \<Rightarrow> bytes" where
  "sha256 m = concat (map word_bytes (sha256_words m))"

section \<open>Hexadecimal text\<close>

definition hex_digit :: "nat \<Rightarrow> char" where
  "hex_digit n = ''0123456789abcdef'' ! n"

definition hex_byte :: "char \<Rightarrow> string" where
  "hex_byte c = [hex_digit (of_char c div 16), hex_digit (of_char c mod 16)]"

definition hex_encode :: "bytes \<Rightarrow> string" where
  "hex_encode bs = concat (map hex_byte bs)"

section \<open>Facts\<close>

lemma length_rounds [simp]: "length (rounds ks ws st) = length st"
  by (induction ks ws st rule: rounds.induct) (simp_all add: Let_def)

lemma length_compress [simp]: "length (compress H block) = length H"
  by (simp add: compress_def)

lemma length_sha_blocks [simp]: "length (sha_blocks n H ws) = length H"
  by (induction n arbitrary: H ws) simp_all

lemma length_concat_const: "(\<And>x. x \<in> set xs \<Longrightarrow> length (f x) = k) \<Longrightarrow> length (concat (map f xs)) = k * length xs"
  by (induction xs) simp_all

lemma length_sha256 [simp]: "length (sha256 m) = 32"
  unfolding sha256_def
  by (subst length_concat_const [where k = 4]) (simp_all add: word_bytes_def sha256_words_def sha_H0_def)

lemma length_hex_encode [simp]: "length (hex_encode bs) = 2 * length bs"
  unfolding hex_encode_def by (rule length_concat_const) (simp add: hex_byte_def)

lemma hex_digit_inject: "m < 16 \<Longrightarrow> n < 16 \<Longrightarrow> hex_digit m = hex_digit n \<longleftrightarrow> m = n"
  unfolding hex_digit_def by (rule nth_eq_iff_index_eq) simp_all

lemma hex_byte_inject [simp]: "hex_byte c = hex_byte d \<longleftrightarrow> c = d"
proof
  assume e: "hex_byte c = hex_byte d"
  have b: "of_char c < (256 :: nat)" "of_char d < (256 :: nat)"
    by (rule nat_of_char_less_256)+
  then have q: "(of_char c :: nat) div 16 < 16" "(of_char d :: nat) div 16 < 16" by linarith+
  have "(of_char c :: nat) div 16 = of_char d div 16 \<and> (of_char c :: nat) mod 16 = of_char d mod 16"
    using e q hex_digit_inject [of "of_char c div 16" "of_char d div 16"]
      hex_digit_inject [of "of_char c mod 16" "of_char d mod 16"]
    by (simp add: hex_byte_def)
  then have "(of_char c :: nat) = of_char d" by (metis div_mult_mod_eq)
  then show "c = d" by simp
qed simp

lemma hex_encode_Cons: "hex_encode (c # cs) = hex_byte c @ hex_encode cs"
  by (simp add: hex_encode_def)

lemma hex_encode_inject [simp]: "hex_encode bs = hex_encode cs \<longleftrightarrow> bs = cs"
proof (induction bs arbitrary: cs)
  case Nil
  show ?case by (cases cs) (simp_all add: hex_encode_def hex_byte_def)
next
  case (Cons b bs)
  have l: "length (hex_byte b) = length (hex_byte c)" for c by (simp add: hex_byte_def)
  show ?case
  proof (cases cs)
    case (Cons c cs')
    then show ?thesis using Cons.IH l by (simp add: hex_encode_Cons)
  qed (simp add: hex_encode_def hex_byte_def)
qed

lemma set_hex_encode: "set (hex_encode bs) \<subseteq> set ''0123456789abcdef''"
proof -
  have "hex_digit n \<in> set ''0123456789abcdef''" if "n < 16" for n
    unfolding hex_digit_def by (rule nth_mem) (use that in simp)
  moreover have "(of_char c :: nat) div 16 < 16" for c :: char
    using nat_of_char_less_256 [of c] by linarith
  ultimately have "set (hex_byte c) \<subseteq> set ''0123456789abcdef''" for c
    by (simp add: hex_byte_def del: list.set) simp
  then show ?thesis unfolding hex_encode_def by fastforce
qed

end
