(* ===== verification/Router.thy ===== *)
theory Router
  imports Sha256 "HOL-Library.List_Lexorder" "HOL-Library.Char_ord"
begin

text \<open>
  The consistent-hash router of \<open>internal/relay/router.go\<close>.  The hash ring itself is the
  third-party package \<open>serialx/hashring\<close>, a parameter of the operations: how it builds a
  ring from a list of node names, which node answers for a key and which nodes answer for a
  key with replicas.  \<open>rebuildRing\<close> ranges over a Go map, so it takes the order in which the
  runtime visits the keys.
\<close>

section \<open>State\<close>

record node_info =
  ni_ID :: string
  ni_Address :: string
  ni_Weight :: int
  ni_Healthy :: bool
  ni_Load :: int
  ni_Capacity :: int

record 'r ring_lib =
  ring_New :: "string list \<Rightarrow> 'r"
  ring_GetNode :: "'r \<Rightarrow> string \<Rightarrow> string option"
  ring_GetNodes :: "'r \<Rightarrow> string \<Rightarrow> int \<Rightarrow> string list option"

record 'r router =
  rt_ring :: 'r
  rt_nodes :: "string \<rightharpoonup> node_info"
  rt_replicas :: int

section \<open>Operations\<close>

definition NewConsistentHashRouter :: "'r ring_lib \<Rightarrow> int \<Rightarrow> 'r router" where
  "NewConsistentHashRouter lib n = \<lparr>rt_ring = ring_New lib [], rt_nodes = Map.empty, rt_replicas = n\<rparr>"

definition virtual_nodes :: "int \<Rightarrow> node_info \<Rightarrow> string list" where
  "virtual_nodes replicas node =
     (if ni_Healthy node
      then replicate (nat (wrap64 ((if ni_Weight node \<le> 0 then 1 else ni_Weight node) * replicas))) (ni_ID node)
      else [])"

definition node_list :: "'r router \<Rightarrow> string list \<Rightarrow> string list" where
  "node_list r order =
     concat (map (\<lambda>k. case rt_nodes r k of None \<Rightarrow> [] | Some node \<Rightarrow> virtual_nodes (rt_replicas r) node) order)"

definition rebuildRing :: "'r ring_lib \<Rightarrow> 'r router \<Rightarrow> string list \<Rightarrow> 'r router" where
  "rebuildRing lib r order = r\<lparr>rt_ring := ring_New lib (node_list r order)\<rparr>"

definition AddNode :: "'r ring_lib \<Rightarrow> 'r router \<Rightarrow> node_info \<Rightarrow> string list \<Rightarrow> 'r router" where
  "AddNode lib r node order =
     rebuildRing lib (r\<lparr>rt_nodes := (rt_nodes r)(ni_ID node \<mapsto> node)\<rparr>) order"

definition RemoveNode :: "'r ring_lib \<Rightarrow> 'r router \<Rightarrow> string \<Rightarrow> string list \<Rightarrow> 'r router" where
  "RemoveNode lib r nodeID order =
     rebuildRing lib (r\<lparr>rt_nodes := (rt_nodes r)(nodeID := None)\<rparr>) order"

definition UpdateNode :: "'r ring_lib \<Rightarrow> 'r router \<Rightarrow> node_info \<Rightarrow> string list \<Rightarrow> 'r router" where
  "UpdateNode lib r node order =
     rebuildRing lib (r\<lparr>rt_nodes := (rt_nodes r)(ni_ID node \<mapsto> node)\<rparr>) order"

definition SetHealthy :: "'r ring_lib \<Rightarrow> 'r router \<Rightarrow> string \<Rightarrow> bool \<Rightarrow> string list \<Rightarrow> 'r router" where
  "SetHealthy lib r nodeID healthy order =
     (case rt_nodes r nodeID of
        None \<Rightarrow> r
      | Some node \<Rightarrow>
          rebuildRing lib (r\<lparr>rt_nodes := (rt_nodes r)(nodeID \<mapsto> node\<lparr>ni_Healthy := healthy\<rparr>)\<rparr>) order)"

definition GetNode :: "'r ring_lib \<Rightarrow> 'r router \<Rightarrow> string \<Rightarrow> node_info option" where
  "GetNode lib r key =
     (case ring_GetNode lib (rt_ring r) key of
        None \<Rightarrow> None
      | Some nodeID \<Rightarrow> rt_nodes r nodeID)"

text \<open>The loop of \<open>GetNodes\<close> with its \<open>seen\<close> set.\<close>

fun dedup_nodes :: "(string \<rightharpoonup> node_info) \<Rightarrow> string set \<Rightarrow> string list \<Rightarrow> node_info list" where
  "dedup_nodes nodes seen [] = []"
| "dedup_nodes nodes seen (i # ids) =
     (if i \<in> seen then dedup_nodes nodes seen ids
      else (case nodes i of None \<Rightarrow> [] | Some node \<Rightarrow> [node]) @ dedup_nodes nodes (insert i seen) ids)"

definition GetNodes :: "'r ring_lib \<Rightarrow> 'r router \<Rightarrow> string \<Rightarrow> int \<Rightarrow> node_info list" where
  "GetNodes lib r key n =
     (case ring_GetNodes lib (rt_ring r) key n of
        None \<Rightarrow> []
      | Some ids \<Rightarrow> dedup_nodes (rt_nodes r) {} ids)"

definition map_values :: "(string \<rightharpoonup> 'v) \<Rightarrow> string list \<Rightarrow> 'v list" where
  "map_values m order = concat (map (\<lambda>k. case m k of None \<Rightarrow> [] | Some v \<Rightarrow> [v]) order)"

definition GetAllNodes :: "'r router \<Rightarrow> string list \<Rightarrow> node_info list" where
  "GetAllNodes r order = sort_key ni_ID (map_values (rt_nodes r) order)"

definition GetHealthyNodes :: "'r router \<Rightarrow> string list \<Rightarrow> node_info list" where
  "GetHealthyNodes r order = filter ni_Healthy (map_values (rt_nodes r) order)"

definition NodeCount :: "'r router \<Rightarrow> int" where
  "NodeCount r = int (card (dom (rt_nodes r)))"

definition HashKey :: "string \<Rightarrow> string" where
  "HashKey key = hex_encode (sha256 key)"

definition GetShardKey :: "string \<Rightarrow> string \<Rightarrow> string" where
  "GetShardKey dataType i = dataType @ '':'' @ i"

section \<open>Histories\<close>

datatype router_op =
    RAdd node_info
  | RRemove string
  | RUpdate node_info
  | RHealth string bool

fun router_step :: "'r ring_lib \<Rightarrow> 'r router \<Rightarrow> router_op \<times> string list \<Rightarrow> 'r router" where
  "router_step lib r (RAdd n, order) = AddNode lib r n order"
| "router_step lib r (RRemove i, order) = RemoveNode lib r i order"
| "router_step lib r (RUpdate n, order) = UpdateNode lib r n order"
| "router_step lib r (RHealth i h, order) = SetHealthy lib r i h order"

text \<open>The nodes after an operation, and the runs in which every order visits exactly them.\<close>

fun nodes_after :: "(string \<rightharpoonup> node_info) \<Rightarrow> router_op \<Rightarrow> string \<rightharpoonup> node_info" where
  "nodes_after m (RAdd n) = m(ni_ID n \<mapsto> n)"
| "nodes_after m (RRemove i) = m(i := None)"
| "nodes_after m (RUpdate n) = m(ni_ID n \<mapsto> n)"
| "nodes_after m (RHealth i h) =
     (case m i of None \<Rightarrow> m | Some n \<Rightarrow> m(i \<mapsto> n\<lparr>ni_Healthy := h\<rparr>))"

fun orders_ok :: "(string \<rightharpoonup> node_info) \<Rightarrow> (router_op \<times> string list) list \<Rightarrow> bool" where
  "orders_ok m [] = True"
| "orders_ok m ((x, order) # h) =
     (distinct order \<and> set order = dom (nodes_after m x) \<and> orders_ok (nodes_after m x) h)"

section \<open>Invariant\<close>

text \<open>
  Every node is registered under its own ID, and the ring was built from the healthy nodes,
  visited in some order.
\<close>

definition router_inv :: "'r ring_lib \<Rightarrow> 'r router \<Rightarrow> bool" where
  "router_inv lib r \<longleftrightarrow> finite (dom (rt_nodes r))
     \<and> (\<forall>k n. rt_nodes r k = Some n \<longrightarrow> ni_ID n = k)
     \<and> (\<exists>order. distinct order \<and> set order = dom (rt_nodes r) \<and> rt_ring r = ring_New lib (node_list r order))"

lemma router_invD:
  assumes "router_inv lib r"
  shows "finite (dom (rt_nodes r))" "rt_nodes r k = Some n \<Longrightarrow> ni_ID n = k"
    "\<exists>order. distinct order \<and> set order = dom (rt_nodes r) \<and> rt_ring r = ring_New lib (node_list r order)"
  using assms by (auto simp: router_inv_def)

lemma rebuildRing_nodes [simp]: "rt_nodes (rebuildRing lib r order) = rt_nodes r"
  "rt_replicas (rebuildRing lib r order) = rt_replicas r"
  by (simp_all add: rebuildRing_def)

lemma rebuildRing_inv:
  assumes "set order = dom (rt_nodes r)" and "distinct order"
    and "\<And>k n. rt_nodes r k = Some n \<Longrightarrow> ni_ID n = k"
  shows "router_inv lib (rebuildRing lib r order)"
proof -
  have "finite (dom (rt_nodes r))" using assms(1) by (metis finite_set)
  moreover have "rt_ring (rebuildRing lib r order) = ring_New lib (node_list (rebuildRing lib r order) order)"
    by (simp add: rebuildRing_def node_list_def cong: option.case_cong)
  ultimately show ?thesis using assms by (auto simp: router_inv_def)
qed

lemma NewRouter_inv [simp]: "router_inv lib (NewConsistentHashRouter lib n)"
  by (auto simp: router_inv_def NewConsistentHashRouter_def node_list_def)

lemma router_step_nodes [simp]:
  "rt_nodes (router_step lib r (x, order)) = nodes_after (rt_nodes r) x"
  "rt_replicas (router_step lib r (x, order)) = rt_replicas r"
  by (cases x; simp add: AddNode_def RemoveNode_def UpdateNode_def SetHealthy_def split: option.split)+

lemma nodes_after_ids:
  "(\<And>k n. m k = Some n \<Longrightarrow> ni_ID n = k) \<Longrightarrow> nodes_after m x k = Some n \<Longrightarrow> ni_ID n = k"
  by (cases x) (auto split: if_splits option.splits)

lemma router_step_inv:
  assumes "router_inv lib r" and "distinct order" and "set order = dom (nodes_after (rt_nodes r) x)"
  shows "router_inv lib (router_step lib r (x, order))"
proof -
  note ids = router_invD(2) [OF assms(1)]
  have rebuilt: "router_inv lib (rebuildRing lib (r\<lparr>rt_nodes := nodes_after (rt_nodes r) x\<rparr>) order)"
    using assms(2,3) nodes_after_ids [of "rt_nodes r" x, OF ids] by (intro rebuildRing_inv) auto
  show ?thesis
  proof (cases x)
    case (RHealth i h)
    then show ?thesis using rebuilt assms(1) by (cases "rt_nodes r i") (simp_all add: SetHealthy_def)
  qed (use rebuilt in \<open>simp_all add: AddNode_def RemoveNode_def UpdateNode_def\<close>)
qed

lemma router_run_inv:
  assumes "router_inv lib r" and "orders_ok (rt_nodes r) h"
  shows "router_inv lib (foldl (router_step lib) r h)
    \<and> rt_nodes (foldl (router_step lib) r h) = foldl nodes_after (rt_nodes r) (map fst h)
    \<and> rt_replicas (foldl (router_step lib) r h) = rt_replicas r"
  using assms
proof (induction h arbitrary: r)
  case (Cons a h)
  obtain x order where a: "a = (x, order)" by (cases a)
  have "router_inv lib (router_step lib r (x, order))" using Cons.prems a by (intro router_step_inv) auto
  from Cons.IH [OF this] Cons.prems show ?case by (simp add: a)
qed simp

section \<open>What the code relies on of the hash ring\<close>

text \<open>
  A ring answers with nodes it was built from, answers for every key when it was built from
  at least one node, and gives at most \<open>n\<close> nodes when asked for \<open>n\<close>.
\<close>

definition ring_ok :: "'r ring_lib \<Rightarrow> bool" where
  "ring_ok lib \<longleftrightarrow>
     (\<forall>ns k i. ring_GetNode lib (ring_New lib ns) k = Some i \<longrightarrow> i \<in> set ns)
     \<and> (\<forall>ns k. ns \<noteq> [] \<longrightarrow> ring_GetNode lib (ring_New lib ns) k \<noteq> None)
     \<and> (\<forall>ns k n ids. ring_GetNodes lib (ring_New lib ns) k n = Some ids \<longrightarrow>
          set ids \<subseteq> set ns \<and> int (length ids) \<le> max 0 n)"

lemma ring_okD:
  assumes "ring_ok lib"
  shows "ring_GetNode lib (ring_New lib ns) k = Some i \<Longrightarrow> i \<in> set ns"
    "ns \<noteq> [] \<Longrightarrow> \<exists>i. ring_GetNode lib (ring_New lib ns) k = Some i"
    "ring_GetNodes lib (ring_New lib ns) k n = Some ids \<Longrightarrow> set ids \<subseteq> set ns \<and> int (length ids) \<le> max 0 n"
  using assms unfolding ring_ok_def by blast+

lemma node_list_healthy:
  assumes "\<And>k n. rt_nodes r k = Some n \<Longrightarrow> ni_ID n = k" and "i \<in> set (node_list r order)"
  shows "\<exists>n. rt_nodes r i = Some n \<and> ni_Healthy n \<and> ni_ID n = i"
proof -
  obtain k where "i \<in> set (case rt_nodes r k of None \<Rightarrow> [] | Some node \<Rightarrow> virtual_nodes (rt_replicas r) node)"
    using assms(2) by (auto simp: node_list_def)
  then obtain n where k: "rt_nodes r k = Some n" and i: "i \<in> set (virtual_nodes (rt_replicas r) n)"
    by (cases "rt_nodes r k") auto
  have "ni_Healthy n" "i = ni_ID n"
    using i by (auto simp: virtual_nodes_def split: if_splits)
  with assms(1) [OF k] k show ?thesis by auto
qed

lemma node_list_nonempty:
  assumes "rt_nodes r k = Some n" and "ni_Healthy n" and "k \<in> set order"
    and "0 < wrap64 ((if ni_Weight n \<le> 0 then 1 else ni_Weight n) * rt_replicas r)"
  shows "node_list r order \<noteq> []"
proof -
  have "ni_ID n \<in> set (virtual_nodes (rt_replicas r) n)"
    using assms(2,4) by (simp add: virtual_nodes_def set_replicate_conv_if)
  then have "ni_ID n \<in> set (node_list r order)"
    using assms(1,3) by (force simp: node_list_def)
  then show ?thesis by auto
qed

lemma set_dedup_nodes:
  "set (dedup_nodes m seen ids) = {n. \<exists>i. i \<in> set ids \<and> i \<notin> seen \<and> m i = Some n}"
  by (induction ids arbitrary: seen) (auto split: option.splits)

lemma distinct_dedup_nodes:
  assumes "\<And>k n. m k = Some n \<Longrightarrow> ni_ID n = k"
  shows "distinct (map ni_ID (dedup_nodes m seen ids))"
proof (induction ids arbitrary: seen)
  case (Cons i ids)
  have "n \<in> set (dedup_nodes m (insert i seen) ids) \<Longrightarrow> ni_ID n \<noteq> i" for n
    using assms by (auto simp: set_dedup_nodes)
  then show ?case using Cons assms by (auto split: option.splits)
qed simp

lemma length_dedup_nodes: "length (dedup_nodes m seen ids) \<le> length ids"
  by (induction ids arbitrary: seen) (auto split: option.splits intro: le_SucI)

section \<open>Properties\<close>

text \<open>
  C12. After any history of additions, removals, updates and health changes, and whatever order
  the runtime visits the nodes in, a key is routed to a registered and healthy node; it is
  routed to some node whenever one healthy node has at least one virtual node; and the
  replicas of a key are distinct, registered, healthy and at most as many as asked for.
\<close>

theorem router_routes_to_healthy:
  assumes "ring_ok lib" and "orders_ok Map.empty h"
    and "r = foldl (router_step lib) (NewConsistentHashRouter lib replicas) h"
  shows "rt_nodes r = foldl nodes_after Map.empty (map fst h)
    \<and> (\<forall>key n. GetNode lib r key = Some n \<longrightarrow> rt_nodes r (ni_ID n) = Some n \<and> ni_Healthy n)
    \<and> (\<forall>i n key. rt_nodes r i = Some n \<longrightarrow> ni_Healthy n \<longrightarrow>
          0 < wrap64 ((if ni_Weight n \<le> 0 then 1 else ni_Weight n) * replicas) \<longrightarrow>
          GetNode lib r key \<noteq> None)
    \<and> (\<forall>key k. distinct (map ni_ID (GetNodes lib r key k)) \<and> int (length (GetNodes lib r key k)) \<le> max 0 k
          \<and> (\<forall>n\<in>set (GetNodes lib r key k). rt_nodes r (ni_ID n) = Some n \<and> ni_Healthy n))"
proof -
  have run: "router_inv lib r" "rt_nodes r = foldl nodes_after Map.empty (map fst h)" "rt_replicas r = replicas"
    using router_run_inv [OF NewRouter_inv, of lib replicas h] assms(2)
    by (simp_all add: assms(3) NewConsistentHashRouter_def)
  note ids = router_invD(2) [OF run(1)]
  obtain order where ord: "set order = dom (rt_nodes r)" "rt_ring r = ring_New lib (node_list r order)"
    using router_invD(3) [OF run(1)] by blast
  note rg = ring_okD [OF assms(1), of "node_list r order"]
  have healthy: "rt_nodes r i = Some n \<Longrightarrow> i \<in> set (node_list r order) \<Longrightarrow> ni_Healthy n \<and> ni_ID n = i" for i n
    using node_list_healthy [of r i order, OF ids] by auto
  have a: "rt_nodes r (ni_ID n) = Some n \<and> ni_Healthy n" if "GetNode lib r key = Some n" for key n
    using that healthy rg(1) by (auto simp: GetNode_def ord(2) split: option.splits)
  have b: "GetNode lib r key \<noteq> None"
    if "rt_nodes r i = Some n" "ni_Healthy n" "0 < wrap64 ((if ni_Weight n \<le> 0 then 1 else ni_Weight n) * replicas)"
    for i n key
  proof -
    have "node_list r order \<noteq> []"
      using that ord(1) run(3) by (intro node_list_nonempty [of r i n]) auto
    from rg(2) [OF this] obtain j where j: "ring_GetNode lib (ring_New lib (node_list r order)) key = Some j" by blast
    with node_list_healthy [of r j order, OF ids] rg(1) show ?thesis by (auto simp: GetNode_def ord(2))
  qed
  have c: "distinct (map ni_ID (GetNodes lib r key k)) \<and> int (length (GetNodes lib r key k)) \<le> max 0 k
      \<and> (\<forall>n\<in>set (GetNodes lib r key k). rt_nodes r (ni_ID n) = Some n \<and> ni_Healthy n)" for key k
  proof (cases "ring_GetNodes lib (rt_ring r) key k")
    case (Some xs)
    then have xs: "set xs \<subseteq> set (node_list r order)" "int (length xs) \<le> max 0 k"
      using rg(3) by (auto simp: ord(2))
    have "int (length (dedup_nodes (rt_nodes r) {} xs)) \<le> int (length xs)" using length_dedup_nodes by simp
    then have "int (length (dedup_nodes (rt_nodes r) {} xs)) \<le> max 0 k" using xs(2) by linarith
    then show ?thesis
      using xs(1) healthy distinct_dedup_nodes [OF ids] Some by (auto simp: GetNodes_def set_dedup_nodes)
  qed (simp add: GetNodes_def)
  show ?thesis using run(2) a b c by blast
qed

text \<open>A ring for the witnesses: the node of a key is picked by the length of the key.\<close>

definition list_ring :: "string list ring_lib" where
  "list_ring = \<lparr>ring_New = sort,
     ring_GetNode = (\<lambda>ns k. if ns = [] then None else Some (ns ! (length k mod length ns))),
     ring_GetNodes = (\<lambda>ns k n. if int (length ns) < n then None else Some (take (nat n) ns))\<rparr>"

lemma sort_Nil_iff [simp]: "sort ns = [] \<longleftrightarrow> ns = []"
  by (metis set_empty set_sort)

lemma list_ring_ok: "ring_ok list_ring"
  unfolding ring_ok_def
proof (intro conjI allI impI)
  fix ns k i assume "ring_GetNode list_ring (ring_New list_ring ns) k = Some i"
  then have i: "i = sort ns ! (length k mod length ns)" and "ns \<noteq> []"
    by (auto simp: list_ring_def split: if_splits)
  then have "i \<in> set (sort ns)" unfolding i by (intro nth_mem) simp
  then show "i \<in> set ns" by simp
next
  fix ns :: "string list" and k assume "ns \<noteq> []"
  then show "ring_GetNode list_ring (ring_New list_ring ns) k \<noteq> None" by (simp add: list_ring_def)
next
  fix ns k n ids assume "ring_GetNodes list_ring (ring_New list_ring ns) k n = Some ids"
  then have ids: "ids = take (nat n) (sort ns)" by (simp add: list_ring_def split: if_splits)
  show "set ids \<subseteq> set ns" unfolding ids using set_take_subset [of "nat n" "sort ns"] by simp
  show "int (length ids) \<le> max 0 n" unfolding ids by simp
qed

definition some_node :: "string \<Rightarrow> node_info" where
  "some_node i = \<lparr>ni_ID = i, ni_Address = [], ni_Weight = 1, ni_Healthy = True, ni_Load = 0, ni_Capacity = 0\<rparr>"

lemma some_node_simps [simp]:
  "ni_ID (some_node i) = i" "ni_Healthy (some_node i)" "ni_Weight (some_node i) = 1"
  by (simp_all add: some_node_def)

definition some_history :: "(router_op \<times> string list) list" where
  "some_history = [(RAdd (some_node ''a''), [''a'']), (RAdd (some_node ''b''), [''b'', ''a'']),
     (RHealth ''a'' False, [''a'', ''b''])]"

lemma some_history_ok: "orders_ok Map.empty some_history"
  by (auto simp: some_history_def split: if_splits)

lemma some_history_nodes: "foldl nodes_after Map.empty (map fst some_history) =
    [''a'' \<mapsto> (some_node ''a'')\<lparr>ni_Healthy := False\<rparr>, ''b'' \<mapsto> some_node ''b'']"
  by (auto simp: some_history_def fun_eq_iff)

lemma router_routes_to_healthy_witness:
  "GetNode list_ring (foldl (router_step list_ring) (NewConsistentHashRouter list_ring 100) some_history) ''profile''
     = Some (some_node ''b'')"
proof -
  let ?r = "foldl (router_step list_ring) (NewConsistentHashRouter list_ring 100) some_history"
  note t = router_routes_to_healthy [OF list_ring_ok some_history_ok refl, of 100]
  have nodes: "rt_nodes ?r = [''a'' \<mapsto> (some_node ''a'')\<lparr>ni_Healthy := False\<rparr>, ''b'' \<mapsto> some_node ''b'']"
    using t some_history_nodes by simp
  have "GetNode list_ring ?r ''profile'' \<noteq> None"
    using t nodes by (auto simp: wrap64_def dest!: spec [of _ "''b''"])
  then obtain n where n: "GetNode list_ring ?r ''profile'' = Some n" by blast
  with t have "rt_nodes ?r (ni_ID n) = Some n" "ni_Healthy n" by blast+
  then have "n = some_node ''b''" by (auto simp: nodes split: if_splits)
  with n show ?thesis by simp
qed

lemma map_values_ids:
  assumes "\<And>k n. m k = Some n \<Longrightarrow> ni_ID n = k" and "distinct order"
  shows "distinct (map ni_ID (map_values m order))"
    and "set (map_values m order) = {n. ni_ID n \<in> set order \<and> m (ni_ID n) = Some n}"
proof -
  have "map ni_ID (map_values m order) = filter (\<lambda>k. m k \<noteq> None) order"
    using assms(1) by (induction order) (auto simp: map_values_def split: option.splits)
  then show "distinct (map ni_ID (map_values m order))" using assms(2) by simp
  show "set (map_values m order) = {n. ni_ID n \<in> set order \<and> m (ni_ID n) = Some n}"
    using assms(1) by (induction order) (auto simp: map_values_def split: option.splits)
qed

lemma GetAllNodes_order:
  assumes "router_inv lib r" "distinct order" "distinct order'" "set order = dom (rt_nodes r)" "set order' = dom (rt_nodes r)"
  shows "GetAllNodes r order = GetAllNodes r order'" "set (GetAllNodes r order) = ran (rt_nodes r)"
    "sorted (map ni_ID (GetAllNodes r order))"
proof -
  note ids = router_invD(2) [OF assms(1)]
  have v1: "distinct (map ni_ID (map_values (rt_nodes r) xs))"
    and v2: "set (map_values (rt_nodes r) xs) = {n. ni_ID n \<in> set xs \<and> rt_nodes r (ni_ID n) = Some n}"
    if "distinct xs" for xs
    using map_values_ids [of "rt_nodes r" xs] ids that by blast+
  have sets: "set (map_values (rt_nodes r) order) = set (map_values (rt_nodes r) order')"
    using assms(2-) by (simp add: v2)
  show "GetAllNodes r order = GetAllNodes r order'"
    unfolding GetAllNodes_def
  proof (rule map_sorted_distinct_set_unique [where f = ni_ID])
    show "inj_on ni_ID (set (sort_key ni_ID (map_values (rt_nodes r) order)) \<union> set (sort_key ni_ID (map_values (rt_nodes r) order')))"
      using v1 [OF assms(2)] sets by (simp add: distinct_map)
    show "distinct (map ni_ID (sort_key ni_ID (map_values (rt_nodes r) order)))"
      "distinct (map ni_ID (sort_key ni_ID (map_values (rt_nodes r) order')))"
      using v1 [OF assms(2)] v1 [OF assms(3)] by (simp_all add: distinct_map distinct_sort)
  qed (use sets in simp_all)
  show "set (GetAllNodes r order) = ran (rt_nodes r)"
    using v2 [OF assms(2)] assms(4) ids by (auto simp: GetAllNodes_def ran_def)
  show "sorted (map ni_ID (GetAllNodes r order))"
    by (simp add: GetAllNodes_def)
qed

text \<open>
  What the ring of a router holds: \<open>weight * replicas\<close> copies of every healthy node that is
  registered, a weight below one counting as one, and nothing else.
\<close>

definition ring_copies :: "(string \<rightharpoonup> node_info) \<Rightarrow> int \<Rightarrow> string \<Rightarrow> nat" where
  "ring_copies nodes replicas i =
     (case nodes i of
        None \<Rightarrow> 0
      | Some n \<Rightarrow> if ni_Healthy n then nat (wrap64 (max 1 (ni_Weight n) * replicas)) else 0)"

lemma count_list_replicate: "count_list (replicate c k) i = (if i = k then c else 0)"
  by (induction c) auto

lemma count_virtual_nodes:
  assumes "rt_nodes r k = Some n" and "ni_ID n = k"
  shows "count_list (virtual_nodes (rt_replicas r) n) i =
    (if i = k then ring_copies (rt_nodes r) (rt_replicas r) i else 0)"
proof -
  have "(if ni_Weight n \<le> 0 then 1 else ni_Weight n) = max 1 (ni_Weight n)" by auto
  then have "virtual_nodes (rt_replicas r) n =
      (if ni_Healthy n then replicate (nat (wrap64 (max 1 (ni_Weight n) * rt_replicas r))) k else [])"
    using assms(2) by (simp add: virtual_nodes_def)
  then show ?thesis using assms(1) by (auto simp: ring_copies_def count_list_replicate)
qed

lemma count_node_list:
  assumes "\<And>k n. rt_nodes r k = Some n \<Longrightarrow> ni_ID n = k" and "distinct order"
  shows "count_list (node_list r order) i = (if i \<in> set order then ring_copies (rt_nodes r) (rt_replicas r) i else 0)"
  using assms(2)
proof (induction order)
  case (Cons k order)
  have "node_list r (k # order) =
      (case rt_nodes r k of None \<Rightarrow> [] | Some node \<Rightarrow> virtual_nodes (rt_replicas r) node) @ node_list r order"
    by (simp add: node_list_def)
  then show ?case using Cons assms(1) [of k]
    by (cases "rt_nodes r k") (auto simp: count_virtual_nodes [where k = k] ring_copies_def)
qed (simp add: node_list_def)

text \<open>The order in which the last rebuild of a history visited the nodes.\<close>

fun last_order :: "(string \<rightharpoonup> node_info) \<Rightarrow> string list \<Rightarrow> (router_op \<times> string list) list \<Rightarrow> string list" where
  "last_order m o1 [] = o1"
| "last_order m o1 ((x, order) # h) =
     last_order (nodes_after m x) (case x of RHealth i _ \<Rightarrow> if m i = None then o1 else order | _ \<Rightarrow> order) h"

lemma node_list_cong:
  "rt_nodes r = rt_nodes r' \<Longrightarrow> rt_replicas r = rt_replicas r' \<Longrightarrow> node_list r order = node_list r' order"
  by (simp add: node_list_def cong: option.case_cong)

lemma router_step_ring:
  assumes "rt_ring r = ring_New lib (node_list r o1)"
  shows "rt_ring (router_step lib r (x, order)) = ring_New lib (node_list (router_step lib r (x, order))
    (case x of RHealth i _ \<Rightarrow> if rt_nodes r i = None then o1 else order | _ \<Rightarrow> order))"
proof -
  have "rt_ring (rebuildRing lib q order) = ring_New lib (node_list (rebuildRing lib q order) order)" for q
    by (simp add: rebuildRing_def node_list_def cong: option.case_cong)
  then show ?thesis using assms
    by (cases x) (auto simp: AddNode_def RemoveNode_def UpdateNode_def SetHealthy_def split: option.splits)
qed

lemma router_run_ring:
  assumes "rt_ring r = ring_New lib (node_list r o1)" and "set o1 = dom (rt_nodes r)" and "distinct o1"
    and "orders_ok (rt_nodes r) h"
  shows "rt_ring (foldl (router_step lib) r h)
      = ring_New lib (node_list (foldl (router_step lib) r h) (last_order (rt_nodes r) o1 h))
    \<and> set (last_order (rt_nodes r) o1 h) = dom (rt_nodes (foldl (router_step lib) r h))
    \<and> distinct (last_order (rt_nodes r) o1 h)"
  using assms
proof (induction h arbitrary: r o1)
  case (Cons a h)
  obtain x order where a: "a = (x, order)" by (cases a)
  let ?o = "case x of RHealth i _ \<Rightarrow> if rt_nodes r i = None then o1 else order | _ \<Rightarrow> order"
  have o: "set ?o = dom (nodes_after (rt_nodes r) x)" "distinct ?o"
    using Cons.prems(2-4) by (auto simp: a split: router_op.splits option.splits)
  show ?case using Cons.IH [OF router_step_ring [OF Cons.prems(1), of x order]] o Cons.prems(4) by (simp add: a)
qed simp

text \<open>
  C29. Two relays that know the same nodes route the same way, whatever histories led there.
  Nothing is assumed of the hash ring.  Both rings are built from the same virtual nodes, for
  every healthy node as many as its weight asks for, whatever the orders of the map
  iterations; so they can differ only in the order of that list.  When the last rebuilds
  visited the nodes in the same order, every key has the same node and the same replicas at
  both.  \<open>GetAllNodes\<close> lists exactly the registered nodes sorted by ID, the same list at both
  relays whatever the orders.
\<close>

theorem routers_agree:
  assumes "orders_ok Map.empty h" and "orders_ok Map.empty h'"
    and "foldl nodes_after Map.empty (map fst h) = foldl nodes_after Map.empty (map fst h')"
    and "r = foldl (router_step lib) (NewConsistentHashRouter lib replicas) h"
    and "r' = foldl (router_step lib) (NewConsistentHashRouter lib replicas) h'"
  shows "(\<exists>xs ys. rt_ring r = ring_New lib xs \<and> rt_ring r' = ring_New lib ys
        \<and> (\<forall>i. count_list xs i = ring_copies (rt_nodes r) replicas i \<and> count_list ys i = count_list xs i))
    \<and> (last_order Map.empty [] h = last_order Map.empty [] h' \<longrightarrow>
         (\<forall>key n. GetNode lib r key = GetNode lib r' key \<and> GetNodes lib r key n = GetNodes lib r' key n))
    \<and> (\<forall>order order'. distinct order \<longrightarrow> distinct order' \<longrightarrow> set order = dom (rt_nodes r) \<longrightarrow>
         set order' = dom (rt_nodes r) \<longrightarrow>
         GetAllNodes r order = GetAllNodes r' order'
         \<and> set (GetAllNodes r order) = ran (rt_nodes r) \<and> sorted (map ni_ID (GetAllNodes r order)))"
proof -
  let ?new = "NewConsistentHashRouter lib replicas"
  have new: "rt_nodes ?new = Map.empty" "rt_ring ?new = ring_New lib (node_list ?new [])" "rt_replicas ?new = replicas"
    by (simp_all add: NewConsistentHashRouter_def node_list_def)
  have run: "router_inv lib r" "rt_nodes r = foldl nodes_after Map.empty (map fst h)" "rt_replicas r = replicas"
    and run': "router_inv lib r'" "rt_nodes r' = foldl nodes_after Map.empty (map fst h')" "rt_replicas r' = replicas"
    using router_run_inv [OF NewRouter_inv, of lib replicas h] router_run_inv [OF NewRouter_inv, of lib replicas h'] assms(1,2) new
    by (simp_all add: assms(4,5))
  have nodes: "rt_nodes r' = rt_nodes r" using run(2) run'(2) assms(3) by simp
  have same: "node_list r' xs = node_list r xs" for xs by (rule node_list_cong) (use nodes run(3) run'(3) in simp_all)
  have ring: "rt_ring r = ring_New lib (node_list r (last_order Map.empty [] h))"
      "set (last_order Map.empty [] h) = dom (rt_nodes r)" "distinct (last_order Map.empty [] h)"
    using router_run_ring [OF new(2), unfolded new(1), OF _ _ assms(1)] unfolding assms(4) by simp_all
  have ring': "rt_ring r' = ring_New lib (node_list r (last_order Map.empty [] h'))"
      "set (last_order Map.empty [] h') = dom (rt_nodes r)" "distinct (last_order Map.empty [] h')"
    using router_run_ring [OF new(2), unfolded new(1), OF _ _ assms(2)] unfolding same [symmetric] nodes [symmetric] assms(5)
    by simp_all
  have count: "count_list (node_list r xs) i = ring_copies (rt_nodes r) replicas i"
    if "set xs = dom (rt_nodes r)" "distinct xs" for xs i
    using count_node_list [where r = r and i = i, OF router_invD(2) [OF run(1)] that(2)] that(1) run(3)
    by (auto simp: ring_copies_def domIff split: option.splits)
  have "\<exists>xs ys. rt_ring r = ring_New lib xs \<and> rt_ring r' = ring_New lib ys
        \<and> (\<forall>i. count_list xs i = ring_copies (rt_nodes r) replicas i \<and> count_list ys i = count_list xs i)"
    using ring(1) ring'(1) count [OF ring(2,3)] count [OF ring'(2,3)] by metis
  moreover have "GetNode lib r key = GetNode lib r' key \<and> GetNodes lib r key n = GetNodes lib r' key n"
    if "last_order Map.empty [] h = last_order Map.empty [] h'" for key n
    unfolding GetNode_def GetNodes_def nodes ring(1) ring'(1) that by simp
  moreover have "GetAllNodes r' order' = GetAllNodes r order'" for order'
    by (simp add: GetAllNodes_def nodes)
  ultimately show ?thesis using GetAllNodes_order [OF run(1)] by metis
qed

lemma routers_agree_witness:
  "GetNodes list_ring (foldl (router_step list_ring) (NewConsistentHashRouter list_ring 100)
       [(RAdd (some_node ''a''), [''a'']), (RAdd (some_node ''b''), [''b'', ''a''])]) ''profile'' 2
   = GetNodes list_ring (foldl (router_step list_ring) (NewConsistentHashRouter list_ring 100)
       [(RAdd (some_node ''b''), [''b'']), (RAdd (some_node ''a''), [''b'', ''a'']),
        (RHealth ''c'' False, [''a'', ''b''])]) ''profile'' 2"
proof -
  let ?h = "[(RAdd (some_node ''a''), [''a'']), (RAdd (some_node ''b''), [''b'', ''a''])]"
  let ?h' = "[(RAdd (some_node ''b''), [''b'']), (RAdd (some_node ''a''), [''b'', ''a'']),
    (RHealth ''c'' False, [''a'', ''b''])]"
  have "orders_ok Map.empty ?h" "orders_ok Map.empty ?h'" by (auto split: if_splits)
  moreover have "foldl nodes_after Map.empty (map fst ?h) = foldl nodes_after Map.empty (map fst ?h')"
    by (auto simp: fun_eq_iff)
  moreover have "last_order Map.empty [] ?h = last_order Map.empty [] ?h'" by simp
  ultimately show ?thesis
    using routers_agree [OF _ _ _ refl refl, of ?h ?h' list_ring 100] by blast
qed

text \<open>
  Shard keys identify their data as long as no data type contains a colon, and the key hash
  is 64 hexadecimal digits that separate exactly what SHA-256 separates.
\<close>

theorem shard_keys_separate:
  assumes "CHR '':'' \<notin> set t" and "CHR '':'' \<notin> set t'"
  shows "(GetShardKey t i = GetShardKey t' i' \<longleftrightarrow> t = t' \<and> i = i')
    \<and> length (HashKey i) = 64 \<and> (HashKey i = HashKey i' \<longleftrightarrow> sha256 i = sha256 i')"
proof -
  have "t = t' \<and> i = i'" if e: "GetShardKey t i = GetShardKey t' i'"
  proof -
    have tw: "takeWhile (\<lambda>c. c \<noteq> CHR '':'') (s @ CHR '':'' # j) = s" if "CHR '':'' \<notin> set s" for s j
      using that by (induction s) auto
    have "t @ CHR '':'' # i = t' @ CHR '':'' # i'" using e by (simp add: GetShardKey_def)
    then have "t = t'" using tw [OF assms(1), of i] tw [OF assms(2), of i'] by metis
    then show ?thesis using e by (simp add: GetShardKey_def)
  qed
  then show ?thesis by (auto simp: HashKey_def)
qed

lemma shard_keys_separate_witness:
  "GetShardKey ''chat'' ''a:b'' \<noteq> GetShardKey ''file'' ''a:b'' \<and> GetShardKey ''a'' ''b:c'' = GetShardKey ''a:b'' ''c''"
  using shard_keys_separate [of "''chat''" "''file''" "''a:b''" "''a:b''"] by (simp add: GetShardKey_def)

end
