(* ===== verification/RelayNode.thy ===== *)
theory RelayNode
  imports LruCache MessageQueue RateLimiter Router
begin

text \<open>
  The relay node of \<open>internal/relay/node.go\<close>: the stream handlers, the delivery loops, and
  the client calls, over the cache, the queue, the limiter and the router.

  A stream carries \<open>RelayMessage\<close> values; their \<open>Data\<close>, a raw message, is JSON text that the
  encoder compacts or refuses.  Whether a stream to a peer can be opened and written is up to
  the network: the attempts of a run consume \<open>outcomes\<close>, and \<open>sent\<close> records what went out.
  A handler reads the clock once.
\<close>

section \<open>State\<close>

definition RelayProtocol :: string where
  "RelayProtocol = ''/p2papp/relay/1.0.0''"

definition RelayGetProtocol :: string where
  "RelayGetProtocol = ''/p2papp/relay-get/1.0.0''"

definition DefaultCacheSize :: int where
  "DefaultCacheSize = 100 * 1024 * 1024"

definition DefaultCacheTTL :: duration where
  "DefaultCacheTTL = 24 * hour"

datatype relay_mode = ModeRelay | ModeClient

record relay_message =
  rm_ID :: string
  rm_Type :: string
  rm_From :: peer
  rm_To :: peer
  rm_Key :: string
  rm_Data :: bytes
  rm_Timestamp :: time

definition zero_rm :: relay_message where
  "zero_rm = \<lparr>rm_ID = [], rm_Type = [], rm_From = [], rm_To = [], rm_Key = [], rm_Data = [],
     rm_Timestamp = zero_time\<rparr>"

record relay_config =
  rc_Mode :: relay_mode
  rc_CacheSize :: int
  rc_CacheTTL :: duration
  rc_LimiterConfig :: limiter_config
  rc_DataDir :: string

definition DefaultRelayConfig :: relay_config where
  "DefaultRelayConfig = \<lparr>rc_Mode = ModeClient, rc_CacheSize = DefaultCacheSize,
     rc_CacheTTL = DefaultCacheTTL, rc_LimiterConfig = DefaultLimiterConfig, rc_DataDir = []\<rparr>"

record 'r relay_node =
  rn_self :: peer
  rn_config :: relay_config
  rn_router :: "'r router"
  rn_cache :: lru_cache
  rn_limiter :: rate_limiter
  rn_queue :: "msg_queue option"
  onlinePeers :: "peer \<rightharpoonup> time"
  rn_closed :: bool
  rn_handlers :: "string set"

record net =
  outcomes :: "bool list"
  sent :: "(peer \<times> string \<times> relay_message) list"

section \<open>The wire\<close>

text \<open>\<open>Encode\<close> leaves an empty \<open>data\<close> out, compacts valid JSON, and fails on anything else.\<close>

definition wire_form :: "relay_message \<Rightarrow> relay_message option" where
  "wire_form m =
     (if rm_Data m = [] then Some m
      else map_option (\<lambda>d. m\<lparr>rm_Data := d\<rparr>) (json_compact (rm_Data m)))"

text \<open>
  What a receiver decodes: a peer ID travels as text that \<open>peer.Decode\<close> must accept; \<open>from\<close> is
  always written, \<open>to\<close> only when it is not empty.
\<close>

definition wire_decode :: "env \<Rightarrow> relay_message \<Rightarrow> relay_message option" where
  "wire_decode en m =
     (case pid_Decode en (pid_String en (rm_From m)) of
        None \<Rightarrow> None
      | Some f \<Rightarrow>
          if rm_To m = [] then Some (m\<lparr>rm_From := f\<rparr>)
          else (case pid_Decode en (pid_String en (rm_To m)) of
                  None \<Rightarrow> None
                | Some t \<Rightarrow> Some (m\<lparr>rm_From := f, rm_To := t\<rparr>)))"

text \<open>Opening a stream and encoding one message on it; the flag is the absence of an error.\<close>

definition transmit :: "net \<Rightarrow> peer \<Rightarrow> string \<Rightarrow> relay_message \<Rightarrow> net \<times> bool" where
  "transmit n p proto m =
     (case outcomes n of
        [] \<Rightarrow> (n, False)
      | ok # rest \<Rightarrow>
          (case wire_form m of
             Some w \<Rightarrow>
               if ok then (n\<lparr>outcomes := rest, sent := sent n @ [(p, proto, w)]\<rparr>, True)
               else (n\<lparr>outcomes := rest\<rparr>, False)
           | None \<Rightarrow> (n\<lparr>outcomes := rest\<rparr>, False)))"

definition deliverToPeer :: "net \<Rightarrow> relay_message \<Rightarrow> net \<times> bool" where
  "deliverToPeer n m = transmit n (rm_To m) RelayProtocol m"

definition queued_relay_message :: "queued_msg \<Rightarrow> relay_message" where
  "queued_relay_message qm =
     zero_rm\<lparr>rm_ID := qm_ID qm, rm_Type := ''forward'', rm_From := qm_From qm, rm_To := qm_To qm,
       rm_Data := (case qm_Content qm of
           CBytes b \<Rightarrow> b
         | _ \<Rightarrow> (case content_text (qm_Content qm) of None \<Rightarrow> [] | Some d \<Rightarrow> d))\<rparr>"

definition deliverQueuedMessage :: "net \<Rightarrow> queued_msg \<Rightarrow> net \<times> bool" where
  "deliverQueuedMessage n qm = deliverToPeer n (queued_relay_message qm)"

section \<open>Delivery of pending messages\<close>

text \<open>
  Both delivery loops range over a peeked slice: its length is fixed at the start, each element is
  read from the backing array when its turn comes.  \<open>failed\<close> is what happens to the queue when
  the delivery fails.
\<close>

definition deliver_at ::
    "env \<Rightarrow> (msg_queue \<Rightarrow> string \<Rightarrow> msg_queue) \<Rightarrow> peer \<Rightarrow> slice \<Rightarrow> msg_queue \<times> net \<Rightarrow> nat \<Rightarrow> msg_queue \<times> net" where
  "deliver_at en failed p s qn i =
     (case qn of (q, n) \<Rightarrow>
       let msg = arr (q_arrays q) (fst s) ! i
       in case deliverQueuedMessage n msg of
            (n', True) \<Rightarrow> (fst (RemoveMessage en q p (qm_ID msg)), n')
          | (n', False) \<Rightarrow> (failed q (qm_ID msg), n'))"

definition deliver_pending ::
    "env \<Rightarrow> (msg_queue \<Rightarrow> string \<Rightarrow> msg_queue) \<Rightarrow> peer \<Rightarrow> msg_queue \<Rightarrow> net \<Rightarrow> msg_queue \<times> net" where
  "deliver_pending en failed p q n =
     (let s = Peek q p in foldl (deliver_at en failed p s) (q, n) [0..<snd s])"

definition handleAnnounce :: "env \<Rightarrow> time \<Rightarrow> 'r relay_node \<Rightarrow> net \<Rightarrow> peer \<Rightarrow> 'r relay_node \<times> net" where
  "handleAnnounce en now r n p =
     (let r1 = r\<lparr>onlinePeers := (onlinePeers r)(p \<mapsto> now)\<rparr>
      in case rn_queue r of
           None \<Rightarrow> (r1, n)
         | Some q \<Rightarrow>
             (case deliver_pending en (\<lambda>q i. q) p q n of (q', n') \<Rightarrow> (r1\<lparr>rn_queue := Some q'\<rparr>, n')))"

definition delivery_peer ::
    "env \<Rightarrow> time \<Rightarrow> (peer \<rightharpoonup> time) \<Rightarrow> msg_queue \<times> net \<Rightarrow> peer \<Rightarrow> msg_queue \<times> net" where
  "delivery_peer en now online qn p =
     (case online p of
        None \<Rightarrow> qn
      | Some lastSeen \<Rightarrow>
          if 5 * minute < time_sub now lastSeen then qn
          else (case qn of (q, n) \<Rightarrow>
                 deliver_pending en (\<lambda>q i. MarkAttempt en now q p i) p q n))"

text \<open>One tick of \<open>deliveryLoop\<close>; \<open>order\<close> is the order of the pending map.\<close>

definition delivery_tick :: "env \<Rightarrow> time \<Rightarrow> 'r relay_node \<Rightarrow> net \<Rightarrow> peer list \<Rightarrow> 'r relay_node \<times> net" where
  "delivery_tick en now r n order =
     (case rn_queue r of
        None \<Rightarrow> (r, n)
      | Some q \<Rightarrow>
          (case foldl (delivery_peer en now (onlinePeers r)) (q, n) (PeersWithPending q order) of
             (q', n') \<Rightarrow> (r\<lparr>rn_queue := Some q'\<rparr>, n')))"

section \<open>Handlers\<close>

definition handleForward :: "env \<Rightarrow> time \<Rightarrow> 'r relay_node \<Rightarrow> net \<Rightarrow> relay_message \<Rightarrow> 'r relay_node \<times> net" where
  "handleForward en now r n m =
     (let (n1, delivered) =
        (case onlinePeers r (rm_To m) of
           None \<Rightarrow> (n, False)
         | Some lastSeen \<Rightarrow>
             if time_sub now lastSeen < 5 * minute then deliverToPeer n m else (n, False))
      in if delivered then (r, n1)
         else (case rn_queue r of
             None \<Rightarrow> (r, n1)
           | Some q \<Rightarrow>
               (r\<lparr>rn_queue := Some (fst (Enqueue en now q (zero_msg\<lparr>qm_ID := rm_ID m, qm_From := rm_From m,
                  qm_To := rm_To m, qm_Type := ''forward'', qm_Content := CRaw (rm_Data m)\<rparr>)))\<rparr>, n1)))"

definition handleCache :: "time \<Rightarrow> 'r relay_node \<Rightarrow> relay_message \<Rightarrow> 'r relay_node" where
  "handleCache now r m =
     (if rm_Key m \<noteq> [] \<and> rm_Data m \<noteq> []
      then r\<lparr>rn_cache := LRU_PutWithTTL now (rn_cache r) (rm_Key m) (rm_Data m) (rc_CacheTTL (rn_config r))\<rparr>
      else r)"

text \<open>\<open>input\<close> is what the decoder makes of the stream, \<open>None\<close> when it fails.\<close>

definition handleRelayStream ::
    "env \<Rightarrow> time \<Rightarrow> 'r relay_node \<Rightarrow> net \<Rightarrow> peer \<Rightarrow> relay_message option \<Rightarrow> 'r relay_node \<times> net" where
  "handleRelayStream en now r n p input =
     (case AllowRequest now (rn_limiter r) (pid_String en p) of
        (l, False) \<Rightarrow> (r\<lparr>rn_limiter := l\<rparr>, n)
      | (l, True) \<Rightarrow>
          (case input of
             None \<Rightarrow> (r\<lparr>rn_limiter := l\<rparr>, n)
           | Some m \<Rightarrow>
               let m1 = m\<lparr>rm_From := p, rm_Timestamp := now\<rparr>;
                   r1 = r\<lparr>rn_limiter := l, onlinePeers := (onlinePeers r)(p \<mapsto> now)\<rparr>
               in if rm_Type m1 = ''forward'' then handleForward en now r1 n m1
                  else if rm_Type m1 = ''cache'' then (handleCache now r1 m1, n)
                  else if rm_Type m1 = ''announce'' then handleAnnounce en now r1 n p
                  else (r1, n)))"

text \<open>The result is the response written to the stream, if any.\<close>

definition handleGetStream ::
    "env \<Rightarrow> time \<Rightarrow> 'r relay_node \<Rightarrow> peer \<Rightarrow> relay_message option \<Rightarrow> 'r relay_node \<times> relay_message option" where
  "handleGetStream en now r p input =
     (case AllowRequest now (rn_limiter r) (pid_String en p) of
        (l, False) \<Rightarrow> (r\<lparr>rn_limiter := l\<rparr>, None)
      | (l, True) \<Rightarrow>
          (case input of
             None \<Rightarrow> (r\<lparr>rn_limiter := l\<rparr>, None)
           | Some m \<Rightarrow>
               (case LRU_Get now (rn_cache r) (rm_Key m) of
                  (c, None) \<Rightarrow> (r\<lparr>rn_limiter := l, rn_cache := c\<rparr>, None)
                | (c, Some d) \<Rightarrow>
                    (r\<lparr>rn_limiter := l, rn_cache := c\<rparr>,
                     wire_form (zero_rm\<lparr>rm_Type := ''response'', rm_Key := rm_Key m, rm_Data := d\<rparr>)))))"

section \<open>Client calls\<close>

datatype relay_error = NoRelayFound | BadPeerID | SendFailed | ContentNotFound

text \<open>The result is \<open>None\<close> for success.\<close>

definition Forward ::
    "env \<Rightarrow> 'r ring_lib \<Rightarrow> time \<Rightarrow> 'r relay_node \<Rightarrow> net \<Rightarrow> peer \<Rightarrow> bytes \<Rightarrow> net \<times> relay_error option" where
  "Forward en lib now r n target payload =
     (let m = zero_rm\<lparr>rm_ID := show_int now, rm_Type := ''forward'', rm_From := rn_self r, rm_To := target,
            rm_Data := payload\<rparr>
      in case GetNode lib (rn_router r) (pid_String en target) of
           None \<Rightarrow> (n, Some NoRelayFound)
         | Some node \<Rightarrow>
             (case pid_Decode en (ni_ID node) of
                None \<Rightarrow> (n, Some BadPeerID)
              | Some relayID \<Rightarrow>
                  (case transmit n relayID RelayProtocol m of
                     (n', ok) \<Rightarrow> (n', if ok then None else Some SendFailed))))"

text \<open>
  \<open>Cache\<close> puts the content into the local cache and starts one goroutine per responsible relay
  other than itself; the result lists what they will transmit.
\<close>

definition Cache ::
    "env \<Rightarrow> 'r ring_lib \<Rightarrow> time \<Rightarrow> 'r relay_node \<Rightarrow> string \<Rightarrow> bytes
      \<Rightarrow> 'r relay_node \<times> (peer \<times> relay_message) list" where
  "Cache en lib now r key d =
     (let r1 = r\<lparr>rn_cache := LRU_PutWithTTL now (rn_cache r) key d (rc_CacheTTL (rn_config r))\<rparr>;
          targets = concat (map (\<lambda>node. if ni_ID node = pid_String en (rn_self r) then []
              else case pid_Decode en (ni_ID node) of None \<Rightarrow> [] | Some p \<Rightarrow> [p]) (GetNodes lib (rn_router r) key 3))
      in (r1, map (\<lambda>p. (p, zero_rm\<lparr>rm_Type := ''cache'', rm_Key := key, rm_Data := d\<rparr>)) targets))"

text \<open>
  \<open>Fetch\<close> asks the responsible relays one after the other; \<open>ask p m\<close> is what the decoder makes of
  \<open>p\<close>'s answer to \<open>m\<close>, \<open>None\<close> when there is no stream or no answer.
\<close>

fun fetch_from ::
    "env \<Rightarrow> (peer \<Rightarrow> relay_message \<Rightarrow> relay_message option) \<Rightarrow> time \<Rightarrow> 'r relay_node \<Rightarrow> string \<Rightarrow> node_info list
      \<Rightarrow> 'r relay_node \<times> (relay_error + bytes)" where
  "fetch_from en ask now r key [] = (r, Inl ContentNotFound)"
| "fetch_from en ask now r key (node # nodes) =
     (case pid_Decode en (ni_ID node) of
        None \<Rightarrow> fetch_from en ask now r key nodes
      | Some p \<Rightarrow>
          (case ask p (zero_rm\<lparr>rm_Type := ''fetch'', rm_Key := key\<rparr>) of
             Some resp \<Rightarrow>
               if rm_Data resp \<noteq> []
               then (r\<lparr>rn_cache := LRU_PutWithTTL now (rn_cache r) key (rm_Data resp) (rc_CacheTTL (rn_config r))\<rparr>,
                     Inr (rm_Data resp))
               else fetch_from en ask now r key nodes
           | None \<Rightarrow> fetch_from en ask now r key nodes))"

definition Fetch ::
    "env \<Rightarrow> 'r ring_lib \<Rightarrow> (peer \<Rightarrow> relay_message \<Rightarrow> relay_message option) \<Rightarrow> time \<Rightarrow> 'r relay_node \<Rightarrow> string
      \<Rightarrow> 'r relay_node \<times> (relay_error + bytes)" where
  "Fetch en lib ask now r key =
     (case LRU_Get now (rn_cache r) key of
        (c, Some d) \<Rightarrow> (r\<lparr>rn_cache := c\<rparr>, Inr d)
      | (c, None) \<Rightarrow> fetch_from en ask now (r\<lparr>rn_cache := c\<rparr>) key (GetNodes lib (rn_router r) key 3))"

section \<open>Life cycle\<close>

definition NewRelayNode ::
    "env \<Rightarrow> 'r ring_lib \<Rightarrow> time \<Rightarrow> peer \<Rightarrow> relay_config \<Rightarrow> (string \<times> dirent) list option \<Rightarrow> 'r relay_node option" where
  "NewRelayNode en lib now self cfg dir =
     (let r = \<lparr>rn_self = self, rn_config = cfg, rn_router = NewConsistentHashRouter lib 100,
            rn_cache = NewLRUCache (rc_CacheSize cfg), rn_limiter = NewRateLimiter now (rc_LimiterConfig cfg),
            rn_queue = None, onlinePeers = Map.empty, rn_closed = False, rn_handlers = {}\<rparr>
      in if rc_DataDir cfg = [] then Some r
         else (case NewMessageQueue en dir of
                 None \<Rightarrow> None
               | Some q \<Rightarrow> Some (r\<lparr>rn_queue := Some q\<rparr>)))"

text \<open>\<open>Start\<close> indexes the host's addresses without a check: \<open>None\<close> is that panic.\<close>

definition Relay_Start :: "env \<Rightarrow> 'r ring_lib \<Rightarrow> 'r relay_node \<Rightarrow> string list \<Rightarrow> string list \<Rightarrow> 'r relay_node option" where
  "Relay_Start en lib r addrs order =
     (let r1 = r\<lparr>rn_handlers := insert RelayGetProtocol (insert RelayProtocol (rn_handlers r))\<rparr>
      in if rc_Mode (rn_config r) = ModeRelay
         then (case addrs of
                 [] \<Rightarrow> None
               | a # _ \<Rightarrow> Some (r1\<lparr>rn_router := AddNode lib (rn_router r1)
                    \<lparr>ni_ID = pid_String en (rn_self r), ni_Address = a, ni_Weight = 1, ni_Healthy = True,
                     ni_Load = 0, ni_Capacity = rc_CacheSize (rn_config r)\<rparr> order\<rparr>))
         else Some r1)"

definition stale_online :: "time \<Rightarrow> (peer \<rightharpoonup> time) \<Rightarrow> (peer \<rightharpoonup> time)" where
  "stale_online now m = (\<lambda>p. case m p of None \<Rightarrow> None
     | Some lastSeen \<Rightarrow> if 1 * hour < time_sub now lastSeen then None else Some lastSeen)"

text \<open>One tick of \<open>cleanupLoop\<close>, with the orders of the limiter's and the queue's maps.\<close>

definition cleanup_tick :: "env \<Rightarrow> time \<Rightarrow> 'r relay_node \<Rightarrow> string list \<Rightarrow> peer list \<Rightarrow> 'r relay_node" where
  "cleanup_tick en now r lorder qorder =
     r\<lparr>rn_cache := fst (LRU_CleanupExpired now (rn_cache r)),
       rn_limiter := Limiter_Cleanup now (rn_limiter r) (24 * hour) lorder,
       rn_queue := map_option (\<lambda>q. fst (Queue_Cleanup en now q qorder)) (rn_queue r),
       onlinePeers := stale_online now (onlinePeers r)\<rparr>"

definition AddRelayNode :: "'r ring_lib \<Rightarrow> 'r relay_node \<Rightarrow> node_info \<Rightarrow> string list \<Rightarrow> 'r relay_node" where
  "AddRelayNode lib r info order = r\<lparr>rn_router := AddNode lib (rn_router r) info order\<rparr>"

definition RemoveRelayNode :: "'r ring_lib \<Rightarrow> 'r relay_node \<Rightarrow> string \<Rightarrow> string list \<Rightarrow> 'r relay_node" where
  "RemoveRelayNode lib r i order = r\<lparr>rn_router := RemoveNode lib (rn_router r) i order\<rparr>"

record relay_stats =
  rs_CacheStats :: cache_stats
  rs_QueueStats :: "queue_stats option"
  rs_OnlinePeers :: int
  rs_RelayNodes :: int

definition Relay_Stats :: "'r relay_node \<Rightarrow> peer list \<Rightarrow> relay_stats" where
  "Relay_Stats r order = \<lparr>rs_CacheStats = LRU_Stats (rn_cache r),
     rs_QueueStats = map_option (\<lambda>q. Queue_Stats q order) (rn_queue r),
     rs_OnlinePeers = int (card (dom (onlinePeers r))), rs_RelayNodes = NodeCount (rn_router r)\<rparr>"

definition Relay_Close :: "'r relay_node \<Rightarrow> 'r relay_node" where
  "Relay_Close r = r\<lparr>rn_closed := True, rn_handlers := rn_handlers r - {RelayProtocol, RelayGetProtocol}\<rparr>"

section \<open>The delivery loop loses nothing\<close>

text \<open>A queued message without its retry bookkeeping; deliveries depend on nothing else.\<close>

definition core :: "queued_msg \<Rightarrow> queued_msg" where
  "core m = m\<lparr>qm_Attempts := 0, qm_LastAttempt := 0\<rparr>"

lemma core_simps [simp]:
  "queued_relay_message (core m) = queued_relay_message m" "qm_ID (core m) = qm_ID m"
  "core (bump_attempt now m) = core m" "core (core m) = core m" "qm_To (core m) = qm_To m"
  by (simp_all add: core_def queued_relay_message_def bump_attempt_def cong: content.case_cong)

lemma core_eqD:
  "core m = core m' \<Longrightarrow> qm_ID m = qm_ID m'" "core m = core m' \<Longrightarrow> queued_relay_message m = queued_relay_message m'"
  by (metis core_simps(2), metis core_simps(1))

text \<open>The message went out.\<close>

definition was_sent :: "net \<Rightarrow> queued_msg \<Rightarrow> bool" where
  "was_sent n m \<longleftrightarrow>
     (\<exists>w. wire_form (queued_relay_message m) = Some w \<and> (qm_To m, RelayProtocol, w) \<in> set (sent n))"

lemma was_sent_core: "core m = core m' \<Longrightarrow> was_sent n m = was_sent n m'"
  using core_eqD(2) [of m m'] core_simps(5) [of m] core_simps(5) [of m'] unfolding was_sent_def by metis

lemma transmit_True:
  "transmit n p proto m = (n', True) \<Longrightarrow> \<exists>w. wire_form m = Some w \<and> sent n' = sent n @ [(p, proto, w)]"
  by (auto simp: transmit_def split: list.splits option.splits if_splits)

lemma transmit_False: "transmit n p proto m = (n', False) \<Longrightarrow> sent n' = sent n"
  by (auto simp: transmit_def split: list.splits option.splits if_splits)

lemma rm_To_queued [simp]: "rm_To (queued_relay_message m) = qm_To m"
  by (simp add: queued_relay_message_def)

lemma deliverQueued_True: "deliverQueuedMessage n m = (n', True) \<Longrightarrow> was_sent n' m"
  by (auto simp: deliverQueuedMessage_def deliverToPeer_def was_sent_def dest!: transmit_True)

lemma deliverQueued_sent:
  "deliverQueuedMessage n m = (n', ok) \<Longrightarrow> set (sent n) \<subseteq> set (sent n')"
  "deliverQueuedMessage n m = (n', ok) \<Longrightarrow> x \<in> set (sent n') \<Longrightarrow>
    x \<in> set (sent n) \<or> (\<exists>w. wire_form (queued_relay_message m) = Some w \<and> x = (qm_To m, RelayProtocol, w))"
  by (cases ok; auto simp: deliverQueuedMessage_def deliverToPeer_def dest!: transmit_True transmit_False)+

text \<open>What the array behind a peer's slice holds after \<open>RemoveMessage\<close> and \<open>MarkAttempt\<close>.\<close>

lemma take_append_ge: "length A \<le> m \<Longrightarrow> take m (A @ B) = A @ take (m - length A) B"
  by simp

lemma RemoveMessage_array:
  assumes inv: "queue_inv q" and q': "q' = fst (RemoveMessage en q p i)" and m: "snd (pslice q p) \<le> m"
    and l: "m \<le> length (arr (q_arrays q) (fst (pslice q p)))"
  shows "fst (pslice q' p) = fst (pslice q p)" "snd (pslice q' p) \<le> snd (pslice q p)"
    "length (arr (q_arrays q') (fst (pslice q p))) = length (arr (q_arrays q) (fst (pslice q p)))"
    "set (take m (arr (q_arrays q') (fst (pslice q p)))) \<subseteq> set (take m (arr (q_arrays q) (fst (pslice q p))))"
proof -
  let ?s = "pslice q p" and ?xs = "arr (q_arrays q) (fst (pslice q p))"
  have "fst (pslice q' p) = fst ?s \<and> snd (pslice q' p) \<le> snd ?s
    \<and> length (arr (q_arrays q') (fst ?s)) = length ?xs
    \<and> set (take m (arr (q_arrays q') (fst ?s))) \<subseteq> set (take m ?xs)"
  proof (cases "find_id (elems_of (q_arrays q) ?s) i")
    case None
    then show ?thesis by (simp add: q' RemoveMessage_def Let_def)
  next
    case (Some k)
    have k: "k < snd ?s"
      using find_id_SomeD [OF Some] length_elems_of [OF queue_invD(2) [OF inv, of p]] by simp
    have r: "pslice q' p = (fst ?s, snd ?s - 1)"
      "arr (q_arrays q') (fst ?s) = take k ?xs @ drop (Suc k) (take (snd ?s) ?xs) @ drop (snd ?s - 1) ?xs"
      using Some by (simp_all add: q' RemoveMessage_def Let_def cut_at_def)
    have len: "length (take k ?xs @ drop (Suc k) (take (snd ?s) ?xs)) = snd ?s - 1"
      using k m l by simp
    have "take m (arr (q_arrays q') (fst ?s))
      = (take k ?xs @ drop (Suc k) (take (snd ?s) ?xs)) @ take (m - (snd ?s - 1)) (drop (snd ?s - 1) ?xs)"
      unfolding r(2) append_assoc [symmetric] using take_append_ge [of "take k ?xs @ drop (Suc k) (take (snd ?s) ?xs)" m] len m
      by simp
    also have "take (m - (snd ?s - 1)) (drop (snd ?s - 1) ?xs) = drop (snd ?s - 1) (take m ?xs)"
      by (simp add: drop_take)
    finally have t: "take m (arr (q_arrays q') (fst ?s))
      = (take k ?xs @ drop (Suc k) (take (snd ?s) ?xs)) @ drop (snd ?s - 1) (take m ?xs)" .
    have "set (take k ?xs) \<subseteq> set (take m ?xs)" "set (drop (Suc k) (take (snd ?s) ?xs)) \<subseteq> set (take m ?xs)"
      "set (drop (snd ?s - 1) (take m ?xs)) \<subseteq> set (take m ?xs)"
      using k m set_take_subset_set_take [of k m ?xs] set_take_subset_set_take [of "snd ?s" m ?xs]
        set_drop_subset [of "Suc k" "take (snd ?s) ?xs"] set_drop_subset [of "snd ?s - 1" "take m ?xs"]
      by auto
    then have "set (take m (arr (q_arrays q') (fst ?s))) \<subseteq> set (take m ?xs)"
      unfolding t set_append by blast
    then show ?thesis using len k m l by (simp add: r)
  qed
  then show "fst (pslice q' p) = fst (pslice q p)" "snd (pslice q' p) \<le> snd (pslice q p)"
    "length (arr (q_arrays q') (fst (pslice q p))) = length (arr (q_arrays q) (fst (pslice q p)))"
    "set (take m (arr (q_arrays q') (fst (pslice q p)))) \<subseteq> set (take m (arr (q_arrays q) (fst (pslice q p))))"
    by auto
qed

lemma MarkAttempt_array:
  assumes inv: "queue_inv q" and q': "q' = MarkAttempt en now q p i"
  shows "pslice q' p = pslice q p"
    "length (arr (q_arrays q') (fst (pslice q p))) = length (arr (q_arrays q) (fst (pslice q p)))"
    "map core (arr (q_arrays q') (fst (pslice q p))) = map core (arr (q_arrays q) (fst (pslice q p)))"
proof -
  let ?s = "pslice q p" and ?xs = "arr (q_arrays q) (fst (pslice q p))"
  have "pslice q' p = ?s \<and> length (arr (q_arrays q') (fst ?s)) = length ?xs
    \<and> map core (arr (q_arrays q') (fst ?s)) = map core ?xs"
  proof (cases "find_id (elems_of (q_arrays q) ?s) i")
    case None
    then show ?thesis by (simp add: q' MarkAttempt_def Let_def)
  next
    case (Some k)
    have k: "k < snd ?s" "k < length ?xs"
      using find_id_SomeD [OF Some] length_elems_of [OF queue_invD(2) [OF inv, of p]] queue_invD(2) [OF inv, of p]
      by (simp_all add: wf_slice_def)
    then have "elems_of (q_arrays q) ?s ! k = ?xs ! k" by (simp add: elems_of_def)
    then show ?thesis
      using Some k by (simp add: q' MarkAttempt_def Let_def set_at_def map_update list_update_same_conv)
  qed
  then show "pslice q' p = ?s" "length (arr (q_arrays q') (fst ?s)) = length ?xs"
    "map core (arr (q_arrays q') (fst ?s)) = map core ?xs" by auto
qed

text \<open>
  The invariant of the loop over the messages \<open>xs\<close> that were pending for \<open>p\<close>: the array still
  holds copies of them, the other peers' messages are as before, and each of \<open>xs\<close> is pending
  or one of them with its ID went out.
\<close>

definition sent_under_id :: "net \<Rightarrow> queued_msg list \<Rightarrow> queued_msg \<Rightarrow> bool" where
  "sent_under_id n xs x \<longleftrightarrow> (\<exists>y\<in>set xs. qm_ID y = qm_ID x \<and> was_sent n y)"

definition loop_inv ::
    "peer \<Rightarrow> slice \<Rightarrow> queued_msg list \<Rightarrow> (peer \<Rightarrow> queued_msg list) \<Rightarrow> net \<Rightarrow> msg_queue \<times> net \<Rightarrow> bool" where
  "loop_inv p s xs v n0 qn \<longleftrightarrow>
     (case qn of (q, n) \<Rightarrow>
       queue_inv q \<and> fst (pslice q p) = fst s \<and> snd (pslice q p) \<le> snd s
       \<and> snd s \<le> length (arr (q_arrays q) (fst s))
       \<and> core ` set (take (snd s) (arr (q_arrays q) (fst s))) \<subseteq> core ` set xs
       \<and> (\<forall>p'. p' \<noteq> p \<longrightarrow> qview q p' = v p')
       \<and> (\<forall>x\<in>set xs. core x \<in> core ` set (qview q p) \<or> sent_under_id n xs x)
       \<and> set (sent n0) \<subseteq> set (sent n)
       \<and> (\<forall>y\<in>set (sent n). y \<in> set (sent n0) \<or>
            (\<exists>x\<in>set xs. \<exists>w. wire_form (queued_relay_message x) = Some w \<and> y = (qm_To x, RelayProtocol, w))))"

lemma loop_invI:
  assumes "queue_inv q" and "fst (pslice q p) = fst s" and "snd (pslice q p) \<le> snd s"
    and "snd s \<le> length (arr (q_arrays q) (fst s))"
    and "core ` set (take (snd s) (arr (q_arrays q) (fst s))) \<subseteq> core ` set xs"
    and "\<And>p'. p' \<noteq> p \<Longrightarrow> qview q p' = v p'"
    and "\<And>x. x \<in> set xs \<Longrightarrow> core x \<in> core ` set (qview q p) \<or> sent_under_id n xs x"
    and "set (sent n0) \<subseteq> set (sent n)"
    and "\<And>y. y \<in> set (sent n) \<Longrightarrow> y \<in> set (sent n0) \<or>
            (\<exists>x\<in>set xs. \<exists>w. wire_form (queued_relay_message x) = Some w \<and> y = (qm_To x, RelayProtocol, w))"
  shows "loop_inv p s xs v n0 (q, n)"
  using assms unfolding loop_inv_def prod.case by blast

lemma loop_invD:
  assumes "loop_inv p s xs v n0 (q, n)"
  shows "queue_inv q" "fst (pslice q p) = fst s" "snd (pslice q p) \<le> snd s"
    "snd s \<le> length (arr (q_arrays q) (fst s))"
    "core ` set (take (snd s) (arr (q_arrays q) (fst s))) \<subseteq> core ` set xs"
    "p' \<noteq> p \<Longrightarrow> qview q p' = v p'"
    "x \<in> set xs \<Longrightarrow> core x \<in> core ` set (qview q p) \<or> sent_under_id n xs x"
    "set (sent n0) \<subseteq> set (sent n)"
    "y \<in> set (sent n) \<Longrightarrow> y \<in> set (sent n0) \<or>
            (\<exists>x\<in>set xs. \<exists>w. wire_form (queued_relay_message x) = Some w \<and> y = (qm_To x, RelayProtocol, w))"
  using assms unfolding loop_inv_def prod.case by blast+

text \<open>IDs tell the messages of a list apart, up to their bookkeeping.\<close>

definition ids_separate :: "queued_msg list \<Rightarrow> bool" where
  "ids_separate xs \<longleftrightarrow> (\<forall>x\<in>set xs. \<forall>y\<in>set xs. qm_ID x = qm_ID y \<longrightarrow> core x = core y)"

lemma was_sent_mono: "was_sent n x \<Longrightarrow> set (sent n) \<subseteq> set (sent n') \<Longrightarrow> was_sent n' x"
  by (auto simp: was_sent_def)

lemma sent_under_id_mono: "sent_under_id n xs x \<Longrightarrow> set (sent n) \<subseteq> set (sent n') \<Longrightarrow> sent_under_id n' xs x"
  unfolding sent_under_id_def using was_sent_mono by blast

lemma sent_under_separate_id: "sent_under_id n xs x \<Longrightarrow> ids_separate xs \<Longrightarrow> x \<in> set xs \<Longrightarrow> was_sent n x"
  unfolding sent_under_id_def ids_separate_def using was_sent_core by metis

lemma qview_subset_array: "set (qview q p) \<subseteq> set (take (snd (pslice q p)) (arr (q_arrays q) (fst (pslice q p))))"
  by (simp add: qview_def elems_of_def)

lemma loop_inv_view:
  assumes "loop_inv p s xs v n0 (q, n)" and "y \<in> set (qview q p)"
  shows "\<exists>x\<in>set xs. core y = core x"
proof -
  have "y \<in> set (take (snd s) (arr (q_arrays q) (fst s)))"
    using assms(2) qview_subset_array [of q p] loop_invD(2,3) [OF assms(1)]
      set_take_subset_set_take [of "snd (pslice q p)" "snd s" "arr (q_arrays q) (fst s)"] by auto
  then show ?thesis using loop_invD(5) [OF assms(1)] by blast
qed

lemma loop_step_remove:
  assumes inv: "loop_inv p s xs v n0 (q, n)"
    and m: "core m \<in> core ` set xs" and d: "deliverQueuedMessage n m = (n', True)"
  shows "loop_inv p s xs v n0 (fst (RemoveMessage en q p (qm_ID m)), n')"
proof (rule loop_invI)
  note I = loop_invD [OF inv]
  let ?q = "fst (RemoveMessage en q p (qm_ID m))"
  note A = RemoveMessage_array [OF I(1) refl, of p "snd s" en "qm_ID m", unfolded I(2), OF I(3,4)]
  note V = RemoveMessage_correct [OF I(1), of en p "qm_ID m"]
  show "queue_inv ?q" by (rule V(1))
  show "fst (pslice ?q p) = fst s" by (rule A(1))
  show "snd (pslice ?q p) \<le> snd s" using A(2) I(3) by linarith
  show "snd s \<le> length (arr (q_arrays ?q) (fst s))" using A(3) I(4) by simp
  show "core ` set (take (snd s) (arr (q_arrays ?q) (fst s))) \<subseteq> core ` set xs"
    using A(4) I(5) by blast
  show "qview ?q p' = v p'" if "p' \<noteq> p" for p' using V(2) [of p'] I(6) [OF that] that by simp
  show "core x \<in> core ` set (qview ?q p) \<or> sent_under_id n' xs x" if x: "x \<in> set xs" for x
  proof (cases "qm_ID x = qm_ID m")
    case True
    obtain z where z: "z \<in> set xs" "core m = core z" using m by blast
    have "qm_ID z = qm_ID x" using True core_eqD(1) [OF z(2)] by simp
    moreover have "was_sent n' z" using deliverQueued_True [OF d] was_sent_core [OF z(2)] by simp
    ultimately show ?thesis using z(1) unfolding sent_under_id_def by blast
  next
    case False
    show ?thesis
    proof (cases "sent_under_id n xs x")
      case True
      then show ?thesis using sent_under_id_mono deliverQueued_sent(1) [OF d] by blast
    next
      case nw: False
      then obtain y where y: "y \<in> set (qview q p)" "core x = core y" using I(7) [OF x] by blast
      then have "qm_ID y \<noteq> qm_ID m" using False core_eqD(1) [OF y(2)] by simp
      then have "y \<in> set (qview ?q p)"
        using remove_first_keeps [OF y(1)] V(2) [of p] by (simp add: remove_id_first)
      then show ?thesis using y(2) by blast
    qed
  qed
  show "set (sent n0) \<subseteq> set (sent n')" using I(8) deliverQueued_sent(1) [OF d] by blast
  show "y \<in> set (sent n0) \<or> (\<exists>x\<in>set xs. \<exists>w. wire_form (queued_relay_message x) = Some w \<and> y = (qm_To x, RelayProtocol, w))"
    if y: "y \<in> set (sent n')" for y
  proof (cases "y \<in> set (sent n)")
    case False
    then obtain w where w: "wire_form (queued_relay_message m) = Some w" "y = (qm_To m, RelayProtocol, w)"
      using deliverQueued_sent(2) [OF d y] by blast
    obtain z where z: "z \<in> set xs" "core m = core z" using m by blast
    have "qm_To m = qm_To z" using z(2) core_simps(5) by metis
    then show ?thesis using w z(1) core_eqD(2) [OF z(2)] by auto
  qed (rule I(9))
qed

lemma deliverQueued_False: "deliverQueuedMessage n m = (n', False) \<Longrightarrow> sent n' = sent n"
  by (auto simp: deliverQueuedMessage_def deliverToPeer_def dest: transmit_False)

lemma was_sent_cong: "sent n' = sent n \<Longrightarrow> was_sent n' x = was_sent n x"
  by (simp add: was_sent_def)

lemma sent_under_id_cong: "sent n' = sent n \<Longrightarrow> sent_under_id n' xs x = sent_under_id n xs x"
  by (simp add: sent_under_id_def was_sent_def)

lemma loop_step_kept:
  assumes inv: "loop_inv p s xs v n0 (q, n)" and d: "sent n' = sent n"
  shows "loop_inv p s xs v n0 (q, n')"
  using inv unfolding loop_inv_def prod.case sent_under_id_cong [OF d] d by blast

lemma mark_id_cores: "map core (mark_id now i ms) = map core ms"
  by (auto simp: mark_id_def map_update split: option.splits dest!: find_id_SomeD)
    (metis length_map list_update_id nth_map)

lemma loop_step_mark:
  assumes inv: "loop_inv p s xs v n0 (q, n)" and d: "sent n' = sent n"
  shows "loop_inv p s xs v n0 (MarkAttempt en now q p i, n')"
proof (rule loop_invI)
  note I = loop_invD [OF inv]
  let ?q = "MarkAttempt en now q p i"
  note A = MarkAttempt_array [OF I(1) refl, of en now p i, unfolded I(2)]
  note V = MarkAttempt_correct [OF I(1), of en now p i]
  have cores: "core ` set (qview ?q p) = core ` set (qview q p)"
    using mark_id_cores [of now i "qview q p"] V(2) [of p] by (metis list.set_map)
  show "queue_inv ?q" by (rule V(1))
  show "fst (pslice ?q p) = fst s" "snd (pslice ?q p) \<le> snd s" using A(1) I(2,3) by simp_all
  show "snd s \<le> length (arr (q_arrays ?q) (fst s))" using A(2) I(4) by simp
  have "map core (take (snd s) (arr (q_arrays ?q) (fst s))) = map core (take (snd s) (arr (q_arrays q) (fst s)))"
    using A(3) by (metis take_map)
  then have "core ` set (take (snd s) (arr (q_arrays ?q) (fst s))) = core ` set (take (snd s) (arr (q_arrays q) (fst s)))"
    by (metis list.set_map)
  then show "core ` set (take (snd s) (arr (q_arrays ?q) (fst s))) \<subseteq> core ` set xs" using I(5) by simp
  show "qview ?q p' = v p'" if "p' \<noteq> p" for p' using V(2) [of p'] I(6) [OF that] that by simp
  show "core x \<in> core ` set (qview ?q p) \<or> sent_under_id n' xs x" if "x \<in> set xs" for x
    using I(7) [OF that] sent_under_id_cong [OF d] by (simp only: cores)
  show "set (sent n0) \<subseteq> set (sent n')" using I(8) by (simp only: d)
  show "y \<in> set (sent n0) \<or> (\<exists>x\<in>set xs. \<exists>w. wire_form (queued_relay_message x) = Some w \<and> y = (qm_To x, RelayProtocol, w))"
    if "y \<in> set (sent n')" for y using that unfolding d by (rule I(9))
qed

text \<open>What the loops do on a failed delivery: nothing, or count the attempt.\<close>

definition keeps_loop :: "peer \<Rightarrow> (msg_queue \<Rightarrow> string \<Rightarrow> msg_queue) \<Rightarrow> bool" where
  "keeps_loop p failed \<longleftrightarrow> (\<forall>s xs v n0 q n n' i.
     loop_inv p s xs v n0 (q, n) \<longrightarrow> sent n' = sent n \<longrightarrow> loop_inv p s xs v n0 (failed q i, n'))"

lemma keeps_loop_none: "keeps_loop p (\<lambda>q i. q)"
  unfolding keeps_loop_def using loop_step_kept by blast

lemma keeps_loop_mark: "keeps_loop p (\<lambda>q i. MarkAttempt en now q p i)"
  unfolding keeps_loop_def using loop_step_mark by blast

lemma loop_step:
  assumes inv: "loop_inv p s xs v n0 (q, n)" and i: "i < snd s"
    and failed: "keeps_loop p failed"
  shows "loop_inv p s xs v n0 (deliver_at en failed p s (q, n) i)"
proof -
  let ?m = "arr (q_arrays q) (fst s) ! i"
  have "?m \<in> set (take (snd s) (arr (q_arrays q) (fst s)))"
    using i loop_invD(4) [OF inv] by (simp add: in_set_conv_nth) (metis order_less_le_trans nth_take)
  then have m: "core ?m \<in> core ` set xs" using loop_invD(5) [OF inv] by blast
  obtain n' ok where d: "deliverQueuedMessage n ?m = (n', ok)" by force
  show ?thesis
  proof (cases ok)
    case True
    then show ?thesis using loop_step_remove [OF inv m] d by (simp add: deliver_at_def Let_def)
  next
    case False
    then have "sent n' = sent n" using d deliverQueued_False by simp
    then have "loop_inv p s xs v n0 (failed q (qm_ID ?m), n')"
      using failed inv unfolding keeps_loop_def by blast
    then show ?thesis using d False by (simp add: deliver_at_def Let_def)
  qed
qed

lemma loop_steps:
  assumes "keeps_loop p failed"
  shows "loop_inv p s xs v n0 qn \<Longrightarrow> \<forall>i\<in>set is. i < snd s \<Longrightarrow>
    loop_inv p s xs v n0 (foldl (deliver_at en failed p s) qn is)"
proof (induction "is" arbitrary: qn)
  case (Cons i "is")
  obtain q n where qn: "qn = (q, n)" by (cases qn)
  have "loop_inv p s xs v n0 (deliver_at en failed p s qn i)"
    using loop_step [OF _ _ assms] Cons.prems by (simp add: qn)
  then show ?case using Cons by simp
qed simp

lemma deliver_pending_keeps:
  assumes inv: "queue_inv q" and failed: "keeps_loop p failed"
    and d: "deliver_pending en failed p q n = (q', n')"
  shows "queue_inv q'" "p' \<noteq> p \<Longrightarrow> qview q' p' = qview q p'"
    "x \<in> set (qview q p) \<Longrightarrow> core x \<in> core ` set (qview q' p) \<or> sent_under_id n' (qview q p) x"
    "y \<in> set (qview q' p) \<Longrightarrow> \<exists>x\<in>set (qview q p). core y = core x"
    "set (sent n) \<subseteq> set (sent n')"
    "z \<in> set (sent n') \<Longrightarrow> z \<in> set (sent n) \<or>
      (\<exists>x\<in>set (qview q p). \<exists>w. wire_form (queued_relay_message x) = Some w \<and> z = (qm_To x, RelayProtocol, w))"
proof -
  let ?s = "pslice q p"
  have start: "loop_inv p ?s (qview q p) (qview q) n (q, n)"
    using inv queue_invD(2) [OF inv, of p]
    by (intro loop_invI) (auto simp: wf_slice_def qview_def elems_of_def)
  have "loop_inv p ?s (qview q p) (qview q) n (q', n')"
    using loop_steps [OF failed start, of "[0..<snd ?s]" en] d by (simp add: deliver_pending_def Peek_def Let_def)
  note I = loop_invD [OF this] loop_inv_view [OF this]
  show "queue_inv q'" by (rule I(1))
  show "p' \<noteq> p \<Longrightarrow> qview q' p' = qview q p'" by (rule I(6))
  show "x \<in> set (qview q p) \<Longrightarrow> core x \<in> core ` set (qview q' p) \<or> sent_under_id n' (qview q p) x" by (rule I(7))
  show "y \<in> set (qview q' p) \<Longrightarrow> \<exists>x\<in>set (qview q p). core y = core x" by (rule I(10))
  show "set (sent n) \<subseteq> set (sent n')" by (rule I(8))
  show "z \<in> set (sent n') \<Longrightarrow> z \<in> set (sent n) \<or>
      (\<exists>x\<in>set (qview q p). \<exists>w. wire_form (queued_relay_message x) = Some w \<and> z = (qm_To x, RelayProtocol, w))"
    by (rule I(9))
qed

section \<open>A tick of the delivery loop\<close>

definition kept_or_sent :: "(peer \<Rightarrow> queued_msg list) \<Rightarrow> msg_queue \<times> net \<Rightarrow> bool" where
  "kept_or_sent v qn \<longleftrightarrow>
     (case qn of (q, n) \<Rightarrow> \<forall>p. \<forall>x\<in>set (v p). core x \<in> core ` set (qview q p) \<or> sent_under_id n (v p) x)"

definition tick_inv :: "(peer \<Rightarrow> queued_msg list) \<Rightarrow> msg_queue \<times> net \<Rightarrow> bool" where
  "tick_inv v qn \<longleftrightarrow> queue_inv (fst qn) \<and> kept_or_sent v qn
     \<and> (\<forall>p. \<forall>y\<in>set (qview (fst qn) p). \<exists>x\<in>set (v p). core y = core x)"

lemma tick_inv_start: "queue_inv q \<Longrightarrow> tick_inv (qview q) (q, n)"
  by (auto simp: tick_inv_def kept_or_sent_def)

lemma deliver_pending_tick:
  assumes t: "tick_inv v (q, n)" and failed: "keeps_loop p failed"
  shows "tick_inv v (deliver_pending en failed p q n)"
proof -
  obtain q' n' where d: "deliver_pending en failed p q n = (q', n')" by force
  have inv: "queue_inv q" and ks: "\<And>p' x. x \<in> set (v p') \<Longrightarrow> core x \<in> core ` set (qview q p') \<or> sent_under_id n (v p') x"
    and sub: "\<And>p'. \<forall>y\<in>set (qview q p'). \<exists>x\<in>set (v p'). core y = core x"
    using t by (auto simp: tick_inv_def kept_or_sent_def)
  note K = deliver_pending_keeps [OF inv failed d]
  have "core x \<in> core ` set (qview q' p') \<or> sent_under_id n' (v p') x" if x: "x \<in> set (v p')" for p' x
  proof (cases "sent_under_id n (v p') x")
    case True
    then show ?thesis using sent_under_id_mono [OF _ K(5)] by blast
  next
    case False
    then obtain y where y: "y \<in> set (qview q p')" "core x = core y" using ks [OF x] by blast
    show ?thesis
    proof (cases "p' = p \<and> core y \<notin> core ` set (qview q' p)")
      case True
      then obtain z where z: "z \<in> set (qview q p)" "qm_ID z = qm_ID y" "was_sent n' z"
        using K(3) [of y] y(1) by (auto simp: sent_under_id_def)
      then obtain z' where z': "z' \<in> set (v p)" "core z = core z'" using sub [of p] by blast
      then have "qm_ID z' = qm_ID x" "was_sent n' z'"
        using core_eqD(1) [OF z'(2)] core_eqD(1) [OF y(2)] z(2,3) was_sent_core [OF z'(2)] by simp_all
      then show ?thesis using True z'(1) unfolding sent_under_id_def by blast
    next
      case False
      then show ?thesis using K(2) [of p'] y by (cases "p' = p") auto
    qed
  qed
  moreover have "\<exists>x\<in>set (v p'). core y = core x" if y: "y \<in> set (qview q' p')" for p' y
  proof (cases "p' = p")
    case True
    then show ?thesis using K(4) [of y] y sub [of p] by auto
  qed (use K(2) y sub in auto)
  ultimately show ?thesis unfolding d by (auto simp: tick_inv_def kept_or_sent_def K(1))
qed

lemma delivery_peer_tick:
  assumes "tick_inv v qn"
  shows "tick_inv v (delivery_peer en now online qn p)"
proof -
  obtain q n where qn: "qn = (q, n)" by (cases qn)
  have "tick_inv v (deliver_pending en (\<lambda>q i. MarkAttempt en now q p i) p q n)"
    using assms unfolding qn by (intro deliver_pending_tick keeps_loop_mark)
  then show ?thesis using assms by (simp add: delivery_peer_def qn split: option.split)
qed

lemma delivery_peers_tick:
  "tick_inv v qn \<Longrightarrow> tick_inv v (foldl (delivery_peer en now online) qn ps)"
  by (induction ps arbitrary: qn) (simp_all add: delivery_peer_tick)

section \<open>Steps of a node\<close>

datatype relay_event =
    EvRelay peer "relay_message option"
  | EvGet peer "relay_message option"
  | EvDeliver "peer list"
  | EvCleanup "string list" "peer list"

fun relay_step :: "env \<Rightarrow> time \<Rightarrow> 'r relay_node \<times> net \<Rightarrow> relay_event \<Rightarrow> 'r relay_node \<times> net" where
  "relay_step en now (r, n) (EvRelay p input) = handleRelayStream en now r n p input"
| "relay_step en now (r, n) (EvGet p input) = (fst (handleGetStream en now r p input), n)"
| "relay_step en now (r, n) (EvDeliver order) = delivery_tick en now r n order"
| "relay_step en now (r, n) (EvCleanup lo qo) = (cleanup_tick en now r lo qo, n)"

fun is_cleanup :: "relay_event \<Rightarrow> bool" where
  "is_cleanup (EvCleanup lo qo) = True"
| "is_cleanup _ = False"

lemma handleGetStream_queue: "rn_queue (fst (handleGetStream en now r p input)) = rn_queue r"
  by (auto simp: handleGetStream_def split: prod.split bool.split option.split)

lemma handleForward_tick:
  assumes q: "rn_queue r = Some q" and inv: "queue_inv q" and f: "handleForward en now r n m = (r', n')"
  shows "\<exists>q'. rn_queue r' = Some q' \<and> queue_inv q' \<and> kept_or_sent (qview q) (q', n')"
proof -
  have grow: "kept_or_sent (qview q) (q', n')" if "\<And>p. set (qview q p) \<subseteq> set (qview q' p)" for q'
    using that unfolding kept_or_sent_def prod.case by blast
  obtain n1 ok where d: "(case onlinePeers r (rm_To m) of None \<Rightarrow> (n, False)
      | Some lastSeen \<Rightarrow> if time_sub now lastSeen < 5 * minute then deliverToPeer n m else (n, False)) = (n1, ok)"
    by force
  let ?qm = "zero_msg\<lparr>qm_ID := rm_ID m, qm_From := rm_From m, qm_To := rm_To m, qm_Type := ''forward'',
      qm_Content := CRaw (rm_Data m)\<rparr>"
  have r': "rn_queue r' = (if ok then Some q else Some (fst (Enqueue en now q ?qm)))"
    using f q unfolding handleForward_def d Let_def prod.case by (auto split: if_splits)
  show ?thesis
  proof (cases ok)
    case True
    then show ?thesis using r' inv grow [of q] by simp
  next
    case False
    have "set (qview q p) \<subseteq> set (qview (fst (Enqueue en now q ?qm)) p)" for p
      using Enqueue_correct(2) [OF inv, of en now ?qm p] by auto
    then show ?thesis using r' False grow Enqueue_correct(1) [OF inv] by simp
  qed
qed

lemma handleAnnounce_tick:
  assumes q: "rn_queue r = Some q" and inv: "queue_inv q"
    and f: "handleAnnounce en now r n p = (r', n')"
  shows "\<exists>q'. rn_queue r' = Some q' \<and> queue_inv q' \<and> kept_or_sent (qview q) (q', n')"
proof -
  obtain q' n1 where d: "deliver_pending en (\<lambda>q i. q) p q n = (q', n1)" by force
  have "tick_inv (qview q) (q', n1)"
    using deliver_pending_tick [OF tick_inv_start [OF inv] keeps_loop_none, of en p n] by (simp add: d)
  then show ?thesis using f q d by (auto simp: handleAnnounce_def Let_def tick_inv_def)
qed

lemma kept_or_sent_refl: "kept_or_sent (qview q) (q, n)"
  by (auto simp: kept_or_sent_def)

lemma handleRelayStream_tick:
  assumes q: "rn_queue r = Some q" and inv: "queue_inv q"
    and f: "handleRelayStream en now r n p input = (r', n')"
  shows "\<exists>q'. rn_queue r' = Some q' \<and> queue_inv q' \<and> kept_or_sent (qview q) (q', n')"
proof -
  obtain l ok where l: "AllowRequest now (rn_limiter r) (pid_String en p) = (l, ok)" by force
  show ?thesis
  proof (cases "ok \<and> input \<noteq> None")
    case False
    then have "rn_queue r' = Some q" "n' = n"
      using f q by (auto simp: handleRelayStream_def l split: bool.splits option.splits)
    then show ?thesis using inv kept_or_sent_refl by auto
  next
    case True
    then obtain m where m: "input = Some m" "ok" by auto
    let ?m = "m\<lparr>rm_From := p, rm_Timestamp := now\<rparr>"
    let ?r = "r\<lparr>rn_limiter := l, onlinePeers := (onlinePeers r)(p \<mapsto> now)\<rparr>"
    have qr: "rn_queue ?r = Some q" using q by simp
    have "handleRelayStream en now r n p input = (if rm_Type m = ''forward'' then handleForward en now ?r n ?m
        else if rm_Type m = ''cache'' then (handleCache now ?r ?m, n)
        else if rm_Type m = ''announce'' then handleAnnounce en now ?r n p else (?r, n))"
      by (simp add: handleRelayStream_def l m Let_def)
    note step = trans [OF f [symmetric] this]
    consider "rm_Type m = ''forward''" | "rm_Type m \<noteq> ''forward''" "rm_Type m = ''announce''"
      | "rm_Type m \<noteq> ''forward''" "rm_Type m \<noteq> ''announce''" by blast
    then show ?thesis
    proof cases
      case 1
      then show ?thesis using handleForward_tick [OF qr inv, of en now n ?m r' n'] step by simp
    next
      case 2
      then show ?thesis using handleAnnounce_tick [OF qr inv, of en now n p r' n'] step by simp
    next
      case 3
      then have "rn_queue r' = Some q" "n' = n"
        using step q by (auto simp: handleCache_def split: if_splits)
      then show ?thesis using inv kept_or_sent_refl by auto
    qed
  qed
qed

section \<open>Removing while ranging\<close>

lemma RemoveMessage_at:
  assumes "find_id (elems_of (q_arrays q) (pslice q p)) i = Some k"
  shows "pslice (fst (RemoveMessage en q p i)) p = (fst (pslice q p), snd (pslice q p) - 1)"
    "arr (q_arrays (fst (RemoveMessage en q p i))) (fst (pslice q p)) =
       (let xs = arr (q_arrays q) (fst (pslice q p)); n = snd (pslice q p)
        in take k xs @ drop (Suc k) (take n xs) @ drop (n - 1) xs)"
  using assms by (simp_all add: RemoveMessage_def Let_def cut_at_def)

text \<open>A step that succeeds, in terms of the array \<open>xs\<close> and the slice's current length \<open>n\<close>.\<close>

definition array_is :: "msg_queue \<Rightarrow> peer \<Rightarrow> nat \<Rightarrow> nat \<Rightarrow> queued_msg list \<Rightarrow> bool" where
  "array_is q p b n xs \<longleftrightarrow> queue_inv q \<and> pslice q p = (b, n) \<and> arr (q_arrays q) b = xs"

lemma deliver_at_removes:
  assumes a: "array_is q p b n xs" and f: "find_id (take n xs) (qm_ID (xs ! i)) = Some k"
    and o: "outcomes nt = True # rest" and w: "wire_form (queued_relay_message (xs ! i)) = Some w"
  shows "\<exists>q' nt'. deliver_at en failed p (b, m) (q, nt) i = (q', nt')
    \<and> array_is q' p b (n - 1) (take k xs @ drop (Suc k) (take n xs) @ drop (n - 1) xs)
    \<and> outcomes nt' = rest \<and> sent nt' = sent nt @ [(qm_To (xs ! i), RelayProtocol, w)]"
proof -
  let ?q = "fst (RemoveMessage en q p (qm_ID (xs ! i)))"
  have find: "find_id (elems_of (q_arrays q) (pslice q p)) (qm_ID (xs ! i)) = Some k"
    using a f by (simp add: array_is_def elems_of_def)
  have "array_is ?q p b (n - 1) (take k xs @ drop (Suc k) (take n xs) @ drop (n - 1) xs)"
    using a RemoveMessage_at [OF find, of en] RemoveMessage_correct(1) [of q en p "qm_ID (xs ! i)"]
    by (simp add: array_is_def Let_def)
  then show ?thesis
    using a o w by (simp add: deliver_at_def deliverQueuedMessage_def deliverToPeer_def transmit_def array_is_def Let_def)
qed

lemma deliver_at_stale:
  assumes a: "array_is q p b n xs" and f: "find_id (take n xs) (qm_ID (xs ! i)) = None"
    and o: "outcomes nt = True # rest" and w: "wire_form (queued_relay_message (xs ! i)) = Some w"
  shows "\<exists>nt'. deliver_at en failed p (b, m) (q, nt) i = (q, nt')
    \<and> outcomes nt' = rest \<and> sent nt' = sent nt @ [(qm_To (xs ! i), RelayProtocol, w)]"
proof -
  have "RemoveMessage en q p (qm_ID (xs ! i)) = (q, False)"
    using a f by (simp add: array_is_def elems_of_def RemoveMessage_def Let_def)
  then show ?thesis
    using a o w by (simp add: deliver_at_def deliverQueuedMessage_def deliverToPeer_def transmit_def array_is_def Let_def)
qed

lemma array_of_view:
  assumes "queue_inv q" and "qview q p = ys"
  shows "\<exists>b tail. array_is q p b (length ys) (ys @ tail)"
proof -
  let ?xs = "arr (q_arrays q) (fst (pslice q p))"
  have "length ys = snd (pslice q p)" using length_qview [OF assms(1), of p] assms(2) by simp
  moreover have "ys = take (snd (pslice q p)) ?xs" using assms(2) by (simp add: qview_def elems_of_def)
  then have "?xs = ys @ drop (snd (pslice q p)) ?xs" by simp
  ultimately show ?thesis using assms(1) unfolding array_is_def by (metis prod.collapse)
qed

lemma qview_array: "array_is q p b n xs \<Longrightarrow> qview q p = take n xs"
  by (simp add: array_is_def qview_def elems_of_def)

lemma three_deliveries:
  assumes inv: "queue_inv q" and v: "qview q p = [m1, m2, m3]" and d: "distinct (map qm_ID [m1, m2, m3])"
    and o: "outcomes nt = [True, True, True]"
    and w: "wire_form (queued_relay_message m1) = Some w1" "wire_form (queued_relay_message m3) = Some w3"
  shows "\<exists>q' nt'. deliver_pending en failed p q nt = (q', nt') \<and> qview q' p = [m2]
    \<and> sent nt' = sent nt @ [(qm_To m1, RelayProtocol, w1), (qm_To m3, RelayProtocol, w3), (qm_To m3, RelayProtocol, w3)]"
proof -
  obtain b tail where a: "array_is q p b 3 ([m1, m2, m3] @ tail)" using array_of_view [OF inv v] by (auto simp: numeral_3_eq_3)
  obtain q1 n1 where 1: "deliver_at en failed p (b, 3) (q, nt) 0 = (q1, n1)"
      "array_is q1 p b 2 ([m2, m3, m3] @ tail)" "outcomes n1 = [True, True]"
      "sent n1 = sent nt @ [(qm_To m1, RelayProtocol, w1)]"
    using deliver_at_removes [OF a, of 0 0 nt "[True, True]" w1 en failed 3] o w by (auto simp: numeral_2_eq_2)
  have f2: "find_id [m2, m3] (qm_ID m3) = Some 1" using d by simp
  obtain q2 n2 where 2: "deliver_at en failed p (b, 3) (q1, n1) 1 = (q2, n2)"
      "array_is q2 p b 1 ([m2, m3, m3] @ tail)" "outcomes n2 = [True]"
      "sent n2 = sent n1 @ [(qm_To m3, RelayProtocol, w3)]"
    using deliver_at_removes [OF 1(2), of 1 1 n1 "[True]" w3 en failed 3] 1(3) w(2) f2 by auto
  have f3: "find_id [m2] (qm_ID m3) = None" using d by simp
  obtain n3 where 3: "deliver_at en failed p (b, 3) (q2, n2) 2 = (q2, n3)"
      "sent n3 = sent n2 @ [(qm_To m3, RelayProtocol, w3)]"
    using deliver_at_stale [OF 2(2), of 2 n2 "[]" w3 en failed 3] 2(3) w(2) f3 by auto
  have "pslice q p = (b, 3)" using a by (simp add: array_is_def)
  moreover have "[0..<3] = [0, 1, 2 :: nat]" by (simp add: upt_rec)
  ultimately have "deliver_pending en failed p q nt = (q2, n3)"
    using 1(1) 2(1) 3(1) by (simp add: deliver_pending_def Peek_def Let_def)
  moreover have "qview q2 p = [m2]" using qview_array [OF 2(2)] by simp
  ultimately show ?thesis using 1(4) 2(4) 3(2) by auto
qed

section \<open>Properties\<close>

text \<open>
  C2. Outside the hourly cleanup, a step of a relay node loses a queued message only to another one
  with the same ID: whatever request comes in, whatever the network does with each attempt, and
  whatever orders the runtime picks, every pending message is afterwards still pending for its
  peer, up to its count of attempts, or a message pending for the same peer under the same ID
  went out to it.  Where IDs tell the pending messages of a peer apart, that is the message
  itself.
\<close>

theorem relay_loses_nothing:
  assumes "rn_queue r = Some q" and "queue_inv q"
    and "\<not> is_cleanup ev" and "relay_step en now (r, n) ev = (r', n')"
  shows "\<exists>q'. rn_queue r' = Some q' \<and> queue_inv q'
    \<and> (\<forall>p. \<forall>x\<in>set (qview q p). core x \<in> core ` set (qview q' p)
          \<or> (\<exists>y\<in>set (qview q p). qm_ID y = qm_ID x \<and> was_sent n' y))
    \<and> (\<forall>p. ids_separate (qview q p) \<longrightarrow>
          (\<forall>x\<in>set (qview q p). core x \<in> core ` set (qview q' p) \<or> was_sent n' x))"
proof -
  have "\<exists>q'. rn_queue r' = Some q' \<and> queue_inv q' \<and> kept_or_sent (qview q) (q', n')"
  proof (cases ev)
    case (EvRelay p input)
    then show ?thesis using handleRelayStream_tick [OF assms(1,2)] assms(4) by simp
  next
    case (EvGet p input)
    then show ?thesis using assms(1,2,4) kept_or_sent_refl handleGetStream_queue [of en now r p input] by auto
  next
    case (EvDeliver order)
    then have "tick_inv (qview q) (foldl (delivery_peer en now (onlinePeers r)) (q, n) (PeersWithPending q order))"
      using delivery_peers_tick [OF tick_inv_start [OF assms(2)]] by blast
    then show ?thesis using EvDeliver assms(1,4)
      by (auto simp: delivery_tick_def tick_inv_def split: prod.splits)
  next
    case (EvCleanup lo qo)
    then show ?thesis using assms(3) by simp
  qed
  then obtain q' where q': "rn_queue r' = Some q'" "queue_inv q'"
      "\<And>p x. x \<in> set (qview q p) \<Longrightarrow> core x \<in> core ` set (qview q' p) \<or> sent_under_id n' (qview q p) x"
    by (auto simp: kept_or_sent_def)
  moreover have "core x \<in> core ` set (qview q' p) \<or> was_sent n' x" if "ids_separate (qview q p)" "x \<in> set (qview q p)" for p x
    using q'(3) [OF that(2)] sent_under_separate_id [OF _ that] by blast
  ultimately show ?thesis
    unfolding sent_under_id_def by blast
qed

definition one_net :: "bool list \<Rightarrow> net" where
  "one_net os = \<lparr>outcomes = os, sent = []\<rparr>"

lemma one_net_simps [simp]: "outcomes (one_net os) = os" "sent (one_net os) = []"
  by (simp_all add: one_net_def)

definition demo_queue :: "string list \<Rightarrow> msg_queue" where
  "demo_queue ids = foldl (\<lambda>q i. fst (Enqueue plain_env 1 q (some_msg i ''p''))) (empty_queue []) ids"

definition demo_node :: "msg_queue \<Rightarrow> string list relay_node" where
  "demo_node q = \<lparr>rn_self = ''me'', rn_config = DefaultRelayConfig, rn_router = NewConsistentHashRouter list_ring 100,
     rn_cache = NewLRUCache 100, rn_limiter = NewRateLimiter 0 DefaultLimiterConfig, rn_queue = Some q,
     onlinePeers = Map.empty, rn_closed = False, rn_handlers = {}\<rparr>"

lemma demo_node_simps [simp]: "rn_queue (demo_node q) = Some q" "onlinePeers (demo_node q) = Map.empty"
  "rn_self (demo_node q) = ''me''"
  by (simp_all add: demo_node_def)

lemma demo_queue_view:
  "queue_inv (demo_queue ids) \<and> q_ttl (demo_queue ids) = DefaultTTL
    \<and> qview (demo_queue ids) p = (if p = ''p'' then map (\<lambda>i. stamped 1 DefaultTTL (some_msg i ''p'')) ids else [])"
proof -
  have "queue_inv q \<and> q_ttl q = DefaultTTL \<Longrightarrow>
     queue_inv (foldl (\<lambda>q i. fst (Enqueue plain_env 1 q (some_msg i ''p''))) q ids)
     \<and> q_ttl (foldl (\<lambda>q i. fst (Enqueue plain_env 1 q (some_msg i ''p''))) q ids) = DefaultTTL
     \<and> qview (foldl (\<lambda>q i. fst (Enqueue plain_env 1 q (some_msg i ''p''))) q ids) p
       = qview q p @ (if p = ''p'' then map (\<lambda>i. stamped 1 DefaultTTL (some_msg i ''p'')) ids else [])" for q
  proof (induction ids arbitrary: q)
    case (Cons i ids)
    have "q_ttl (fst (Enqueue plain_env 1 q (some_msg i ''p''))) = DefaultTTL"
      using queue_step_config(1) [of plain_env q "QEnqueue 1 (some_msg i ''p'')"] Cons.prems by simp
    then show ?case using Cons.IH [of "fst (Enqueue plain_env 1 q (some_msg i ''p''))"] Cons.prems
      by (simp add: Enqueue_correct)
  qed simp
  from this [of "empty_queue []"] show ?thesis by (simp add: demo_queue_def)
qed

lemma relay_loses_nothing_witness:
  "\<exists>q'. rn_queue (fst (relay_step plain_env 5 (demo_node (demo_queue [''a'']), one_net [False])
       (EvRelay ''p'' (Some (zero_rm\<lparr>rm_Type := ''announce''\<rparr>))))) = Some q'
    \<and> (\<forall>x\<in>set (qview (demo_queue [''a'']) ''p''). core x \<in> core ` set (qview q' ''p'')
        \<or> was_sent (snd (relay_step plain_env 5 (demo_node (demo_queue [''a'']), one_net [False])
            (EvRelay ''p'' (Some (zero_rm\<lparr>rm_Type := ''announce''\<rparr>))))) x)"
proof -
  have "ids_separate (qview (demo_queue [''a'']) p)" for p
    by (simp add: demo_queue_view ids_separate_def)
  moreover have "queue_inv (demo_queue [''a''])" by (simp add: demo_queue_view)
  ultimately show ?thesis
    using relay_loses_nothing [of "demo_node (demo_queue [''a''])" "demo_queue [''a'']"
        "EvRelay ''p'' (Some (zero_rm\<lparr>rm_Type := ''announce''\<rparr>))" plain_env 5 "one_net [False]"]
    by (metis demo_node_simps(1) is_cleanup.simps(2) prod.collapse)
qed

text \<open>
  C28. Delivery on announcement removes messages from the queue while it ranges over the slice that
  \<open>Peek\<close> returned, and removal shifts that slice's array: with three pending messages and a
  network that delivers everything, the first goes out, the second is skipped and stays
  pending, and the third goes out twice.
\<close>

theorem announce_skips_and_repeats:
  assumes "rn_queue r = Some q" and "queue_inv q" and "qview q p = [m1, m2, m3]"
    and "distinct (map qm_ID [m1, m2, m3])" and "outcomes n = [True, True, True]"
    and "wire_form (queued_relay_message m1) = Some w1" and "wire_form (queued_relay_message m3) = Some w3"
    and "handleAnnounce en now r n p = (r', n')"
  shows "map_option (\<lambda>q'. qview q' p) (rn_queue r') = Some [m2]
    \<and> sent n' = sent n @ [(qm_To m1, RelayProtocol, w1), (qm_To m3, RelayProtocol, w3), (qm_To m3, RelayProtocol, w3)]"
  using three_deliveries [OF assms(2-7), of en "\<lambda>q i. q"] assms(1,8)
  by (auto simp: handleAnnounce_def Let_def)

lemma wire_form_some_msg: "\<exists>w. wire_form (queued_relay_message (stamped t ttl (some_msg i p))) = Some w"
  by (simp add: wire_form_def queued_relay_message_def stamped_def some_msg_def zero_msg_def zero_rm_def compact_null)

lemma announce_skips_and_repeats_witness:
  "map_option (\<lambda>q'. map qm_ID (qview q' ''p''))
     (rn_queue (fst (handleAnnounce plain_env 5 (demo_node (demo_queue [''a'', ''b'', ''c''])) (one_net [True, True, True]) ''p'')))
   = Some [''b'']"
proof -
  let ?q = "demo_queue [''a'', ''b'', ''c'']"
  obtain w1 w3 where w: "wire_form (queued_relay_message (stamped 1 DefaultTTL (some_msg ''a'' ''p''))) = Some w1"
    "wire_form (queued_relay_message (stamped 1 DefaultTTL (some_msg ''c'' ''p''))) = Some w3"
    using wire_form_some_msg by blast
  have v: "qview ?q ''p'' = [stamped 1 DefaultTTL (some_msg ''a'' ''p''), stamped 1 DefaultTTL (some_msg ''b'' ''p''),
      stamped 1 DefaultTTL (some_msg ''c'' ''p'')]" and inv: "queue_inv ?q"
    by (simp_all add: demo_queue_view)
  obtain r' n' where h: "handleAnnounce plain_env 5 (demo_node ?q) (one_net [True, True, True]) ''p'' = (r', n')" by force
  have "map_option (\<lambda>q'. qview q' ''p'') (rn_queue r') = Some [stamped 1 DefaultTTL (some_msg ''b'' ''p'')]"
    using announce_skips_and_repeats [OF demo_node_simps(1) inv v _ _ w h] by simp
  then show ?thesis by (auto simp: h)
qed

text \<open>
  C27. A \<open>forward\<close> request that the limiter lets through is never dropped by a node with a queue:
  it goes out to its recipient at once, stamped with the peer it came from, or it is the last
  message pending for the recipient, with that sender, its data and a fresh expiry.
\<close>

theorem accepted_forward_sent_or_queued:
  assumes "rn_queue r = Some q" and "queue_inv q" and "snd (AllowRequest now (rn_limiter r) (pid_String en p))"
    and "rm_Type m = ''forward''" and "handleRelayStream en now r n p (Some m) = (r', n')"
  shows "(\<exists>w. wire_form (m\<lparr>rm_From := p, rm_Timestamp := now\<rparr>) = Some w
           \<and> sent n' = sent n @ [(rm_To m, RelayProtocol, w)] \<and> rn_queue r' = Some q)
    \<or> (\<exists>q' qm. sent n' = sent n \<and> rn_queue r' = Some q' \<and> queue_inv q'
         \<and> qview q' (rm_To m) = qview q (rm_To m) @ [qm]
         \<and> qm_From qm = p \<and> qm_To qm = rm_To m \<and> qm_Content qm = CRaw (rm_Data m)
         \<and> qm_CreatedAt qm = now \<and> qm_ExpiresAt qm = now + q_ttl q \<and> qm_Attempts qm = 0
         \<and> (rm_ID m \<noteq> [] \<longrightarrow> qm_ID qm = rm_ID m))"
proof -
  obtain l where l: "AllowRequest now (rn_limiter r) (pid_String en p) = (l, True)"
    using assms(3) by (metis prod.collapse)
  let ?m = "m\<lparr>rm_From := p, rm_Timestamp := now\<rparr>"
  let ?r = "r\<lparr>rn_limiter := l, onlinePeers := (onlinePeers r)(p \<mapsto> now)\<rparr>"
  let ?qm = "zero_msg\<lparr>qm_ID := rm_ID m, qm_From := p, qm_To := rm_To m, qm_Type := ''forward'',
      qm_Content := CRaw (rm_Data m)\<rparr>"
  have h: "handleForward en now ?r n ?m = (r', n')"
    using assms(4,5) by (simp add: handleRelayStream_def l Let_def)
  obtain n1 ok where d: "(case onlinePeers ?r (rm_To ?m) of None \<Rightarrow> (n, False)
      | Some lastSeen \<Rightarrow> if time_sub now lastSeen < 5 * minute then deliverToPeer n ?m else (n, False)) = (n1, ok)"
    by force
  show ?thesis
  proof (cases ok)
    case True
    then have "r' = ?r" "n' = n1"
      using h unfolding handleForward_def d Let_def prod.case by simp_all
    moreover have "\<exists>w. wire_form ?m = Some w \<and> sent n1 = sent n @ [(rm_To m, RelayProtocol, w)]"
      using d True
      by (auto simp: deliverToPeer_def split: option.splits if_splits dest!: transmit_True)
    ultimately show ?thesis using assms(1) by simp
  next
    case False
    then have r': "rn_queue r' = Some (fst (Enqueue en now q ?qm))" "n' = n1"
      using h assms(1) unfolding handleForward_def d Let_def prod.case by auto
    have "sent n1 = sent n"
      using d False
      by (auto simp: deliverToPeer_def split: option.splits if_splits dest: transmit_False)
    moreover have "qview (fst (Enqueue en now q ?qm)) (rm_To m) = qview q (rm_To m) @ [stamped now (q_ttl q) ?qm]"
      by (simp add: Enqueue_correct [OF assms(2)])
    ultimately show ?thesis
      using r' Enqueue_correct(1) [OF assms(2), of en now ?qm]
      by (intro disjI2 exI [of _ "fst (Enqueue en now q ?qm)"] exI [of _ "stamped now (q_ttl q) ?qm"])
        (auto simp: stamped_def)
  qed
qed

lemma demo_allows: "snd (AllowRequest 0 (rn_limiter (demo_node q)) p)"
proof -
  have a: "snd (Allow 0 (NewTokenBucket 0 m rr)) = (1 \<le> m)" if "0 \<le> m" "fl m = m" for m rr
    using that by (simp add: Allow_def AllowN_def NewTokenBucket_def Let_def refill_same_time)
  have "snd (Allow 0 (NewTokenBucket 0 2000 1000))" "snd (Allow 0 (NewTokenBucket 0 200 100))"
    by (simp_all add: a fl_numeral)
  then show ?thesis
    by (auto simp: AllowRequest_def demo_node_def peer_bucket_def split: prod.split bool.split)
qed

lemma accepted_forward_sent_or_queued_witness:
  "\<exists>q'. rn_queue (fst (handleRelayStream plain_env 0 (demo_node (demo_queue [])) (one_net [True]) ''me''
      (Some (zero_rm\<lparr>rm_Type := ''forward'', rm_ID := ''i'', rm_To := ''p''\<rparr>)))) = Some q'
    \<and> map qm_From (qview q' ''p'') = [''me'']"
proof -
  let ?m = "zero_rm\<lparr>rm_Type := ''forward'', rm_ID := ''i'', rm_To := ''p''\<rparr>"
  obtain r' n' where h: "handleRelayStream plain_env 0 (demo_node (demo_queue [])) (one_net [True]) ''me'' (Some ?m) = (r', n')"
    by force
  have a: "snd (AllowRequest 0 (rn_limiter (demo_node (demo_queue []))) (pid_String plain_env ''me''))"
    by (rule demo_allows)
  have inv: "queue_inv (demo_queue [])" "qview (demo_queue []) ''p'' = []" by (simp_all add: demo_queue_view)
  have "sent n' = []"
  proof -
    obtain l where "AllowRequest 0 (rn_limiter (demo_node (demo_queue []))) (pid_String plain_env ''me'') = (l, True)"
      using a by (metis prod.collapse)
    then show ?thesis using h
      by (auto simp: handleRelayStream_def handleForward_def Let_def)
  qed
  then show ?thesis
    using accepted_forward_sent_or_queued [OF demo_node_simps(1) inv(1) a _ h] inv(2) by (auto simp: h)
qed

text \<open>
  The node that a message is for handles it like any relay: unless it has itself among its
  online peers, it sends nothing on and puts the message into its own queue under its own ID,
  and its delivery loop then leaves it there.  No call hands the content to the application.
\<close>

theorem recipient_requeues:
  assumes "rn_queue r = Some q" and "queue_inv q" and "snd (AllowRequest now (rn_limiter r) (pid_String en p))"
    and "rm_Type m = ''forward''" and "rm_To m = rn_self r" and "onlinePeers r (rn_self r) = None" and "p \<noteq> rn_self r"
    and "handleRelayStream en now r n p (Some m) = (r', n')"
  shows "n' = n \<and> (\<exists>q' qm. rn_queue r' = Some q' \<and> qview q' (rn_self r) = qview q (rn_self r) @ [qm]
      \<and> qm_Content qm = CRaw (rm_Data m))
    \<and> (\<forall>t qn. delivery_peer en t (onlinePeers r') qn (rn_self r) = qn)"
proof -
  obtain l where l: "AllowRequest now (rn_limiter r) (pid_String en p) = (l, True)"
    using assms(3) by (metis prod.collapse)
  let ?qm = "zero_msg\<lparr>qm_ID := rm_ID m, qm_From := p, qm_To := rm_To m, qm_Type := ''forward'',
      qm_Content := CRaw (rm_Data m)\<rparr>"
  have r': "n' = n" "rn_queue r' = Some (fst (Enqueue en now q ?qm))" "onlinePeers r' (rn_self r) = None"
    using assms by (auto simp: handleRelayStream_def handleForward_def l Let_def)
  have "qview (fst (Enqueue en now q ?qm)) (rn_self r) = qview q (rn_self r) @ [stamped now (q_ttl q) ?qm]"
    by (simp add: Enqueue_correct [OF assms(2)] assms(5))
  then show ?thesis using r' by (auto simp: stamped_def delivery_peer_def)
qed

lemma recipient_requeues_witness:
  "snd (handleRelayStream plain_env 0 (demo_node (demo_queue [])) (one_net [True]) ''relay''
      (Some (zero_rm\<lparr>rm_Type := ''forward'', rm_To := ''me''\<rparr>))) = one_net [True]"
proof -
  have inv: "queue_inv (demo_queue [])" by (simp add: demo_queue_view)
  have a: "snd (AllowRequest 0 (rn_limiter (demo_node (demo_queue []))) (pid_String plain_env ''relay''))"
    by (rule demo_allows)
  show ?thesis
    using recipient_requeues [OF demo_node_simps(1) inv a, of "zero_rm\<lparr>rm_Type := ''forward'', rm_To := ''me''\<rparr>" "one_net [True]"]
    by (cases "handleRelayStream plain_env 0 (demo_node (demo_queue [])) (one_net [True]) ''relay''
      (Some (zero_rm\<lparr>rm_Type := ''forward'', rm_To := ''me''\<rparr>))") simp
qed

text \<open>
  Content a node caches it can fetch again without the network for as long as its TTL lasts,
  if it fits the cache.
\<close>

theorem cached_content_is_fetched:
  assumes "lru_inv (rn_cache r)" and "int (length d) \<le> capacity (rn_cache r)"
    and "max 0 (capacity (rn_cache r)) + int (length d) < 2 ^ 63"
    and "time_sub now' now \<le> rc_CacheTTL (rn_config r)"
  shows "snd (Fetch en lib ask now' (fst (Cache en lib now r key d)) key) = Inr d"
proof -
  have "live now' (d, now, rc_CacheTTL (rn_config r))" using assms(4) by (rule live_within_ttl)
  from lru.put_then_get [OF assms(1,3,2) this, of key]
  obtain c where "LRU_Get now' (LRU_PutWithTTL now (rn_cache r) key d (rc_CacheTTL (rn_config r))) key = (c, Some d)"
    by (metis prod.collapse)
  then show ?thesis by (simp add: Fetch_def Cache_def Let_def)
qed

lemma cached_content_is_fetched_witness:
  "snd (Fetch plain_env list_ring (\<lambda>p m. None) 9 (fst (Cache plain_env list_ring 5 (demo_node (demo_queue [])) ''k'' ''data'')) ''k'')
    = Inr ''data''"
proof (rule cached_content_is_fetched)
  show "lru_inv (rn_cache (demo_node (demo_queue [])))"
    using NewLRUCache_inv [of 100] by (simp add: demo_node_def)
qed (simp_all add: demo_node_def NewLRUCache_capacity time_sub_def max_duration_def DefaultRelayConfig_def DefaultCacheTTL_def
    hour_def minute_def second_def)

text \<open>
  The messages of \<open>Cache\<close> and \<open>Fetch\<close> carry no sender, and a sender is always encoded.  If
  \<open>peer.Decode\<close> refuses the text of the empty ID, no receiver decodes them: nothing is ever
  cached on another relay, and \<open>Fetch\<close> never finds what is not in the local cache.
\<close>

theorem sender_missing_blocks_cache:
  assumes "pid_Decode en (pid_String en []) = None"
    and "\<And>p m a. ask p m = Some a \<Longrightarrow> wire_decode en m \<noteq> None"
  shows "(\<forall>(p, m)\<in>set (snd (Cache en lib now r key d)). wire_decode en m = None)
    \<and> snd (Fetch en lib ask now r key) =
        (case snd (LRU_Get now (rn_cache r) key) of Some d' \<Rightarrow> Inr d' | None \<Rightarrow> Inl ContentNotFound)"
proof -
  have z: "wire_decode en (zero_rm\<lparr>rm_Type := t, rm_Key := k, rm_Data := x\<rparr>) = None"
    "wire_decode en (zero_rm\<lparr>rm_Type := t, rm_Key := k\<rparr>) = None" for t k x
    by (simp_all add: wire_decode_def zero_rm_def assms(1))
  have ask: "ask p (zero_rm\<lparr>rm_Type := t, rm_Key := k\<rparr>) = None" for p t k
    using assms(2) [of p "zero_rm\<lparr>rm_Type := t, rm_Key := k\<rparr>"] z(2) by (cases "ask p (zero_rm\<lparr>rm_Type := t, rm_Key := k\<rparr>)") auto
  have "fetch_from en ask now r' key ns = (r', Inl ContentNotFound)" for r' :: "'a relay_node" and ns
    by (induction ns) (simp_all add: ask split: option.split)
  then show ?thesis
    by (auto simp: Cache_def Let_def z Fetch_def split: prod.split option.split)
qed

lemma sender_missing_blocks_cache_witness:
  "snd (Fetch plain_env list_ring (\<lambda>p m. wire_decode plain_env m) 9 (demo_node (demo_queue [])) ''k'') = Inl ContentNotFound"
  using sender_missing_blocks_cache [of plain_env "\<lambda>p m. wire_decode plain_env m" list_ring 9 "demo_node (demo_queue [])" "''k''" "[]"]
  by (simp add: plain_env_def demo_node_def NewLRUCache_def LRU_Get_def)

text \<open>
  The sender chooses the ID, and the queue removes by ID: when two pending messages share
  one, the delivery of the second after a failed attempt at the first removes the first, which
  is lost, and keeps the second, which went out.
\<close>

theorem shared_id_loses_message:
  assumes "queue_inv q" and "qview q p = [m1, m2]" and "qm_ID m1 = qm_ID m2"
    and "outcomes n = [False, True]" and "wire_form (queued_relay_message m2) = Some w"
    and "deliver_pending en (\<lambda>q i. q) p q n = (q', n')"
  shows "qview q' p = [m2] \<and> sent n' = sent n @ [(qm_To m2, RelayProtocol, w)]"
proof -
  obtain b tail where a: "array_is q p b 2 ([m1, m2] @ tail)"
    using array_of_view [OF assms(1,2)] by (auto simp: numeral_2_eq_2)
  let ?n = "n\<lparr>outcomes := [True]\<rparr>"
  have 1: "deliver_at en (\<lambda>q i. q) p (b, 2) (q, n) 0 = (q, ?n)"
    using a assms(4) by (cases "wire_form (queued_relay_message m1)")
      (simp_all add: deliver_at_def deliverQueuedMessage_def deliverToPeer_def transmit_def array_is_def Let_def)
  have f: "find_id (take 2 ([m1, m2] @ tail)) (qm_ID (([m1, m2] @ tail) ! 1)) = Some 0" using assms(3) by simp
  obtain q2 n2 where 2: "deliver_at en (\<lambda>q i. q) p (b, 2) (q, ?n) 1 = (q2, n2)"
      "array_is q2 p b 1 ([m2, m2] @ tail)" "sent n2 = sent n @ [(qm_To m2, RelayProtocol, w)]"
    using deliver_at_removes [OF a f, of ?n "[]" w en "\<lambda>q i. q" 2] assms(5) by (auto simp: numeral_2_eq_2)
  have "pslice q p = (b, 2)" using a by (simp add: array_is_def)
  moreover have "[0..<2] = [0, 1 :: nat]" by (simp add: upt_rec)
  ultimately have "deliver_pending en (\<lambda>q i. q) p q n = (q2, n2)"
    using 1 2(1) by (simp add: deliver_pending_def Peek_def Let_def)
  then show ?thesis using assms(6) qview_array [OF 2(2)] 2(3) by simp
qed

lemma shared_id_loses_message_witness:
  "map qm_CreatedAt (qview (fst (deliver_pending plain_env (\<lambda>q i. q) ''p''
      (fst (Enqueue plain_env 7 (demo_queue [''a'']) (some_msg ''a'' ''p''))) (one_net [False, True]))) ''p'') = [7]"
proof -
  let ?q = "fst (Enqueue plain_env 7 (demo_queue [''a'']) (some_msg ''a'' ''p''))"
  have inv: "queue_inv ?q" and v: "qview ?q ''p'' = [stamped 1 DefaultTTL (some_msg ''a'' ''p''), stamped 7 DefaultTTL (some_msg ''a'' ''p'')]"
    using demo_queue_view [of "[''a'']"] by (simp_all add: Enqueue_correct)
  obtain w where w: "wire_form (queued_relay_message (stamped 7 DefaultTTL (some_msg ''a'' ''p''))) = Some w"
    using wire_form_some_msg by blast
  show ?thesis
    using shared_id_loses_message [OF inv v _ _ w, of "one_net [False, True]" plain_env]
    by (cases "deliver_pending plain_env (\<lambda>q i. q) ''p'' ?q (one_net [False, True])") simp
qed

end
