(* ===== verification/RelayRecovery.thy ===== *)
theory RelayRecovery
  imports RelayNode
begin

text \<open>
  A message through a relay that crashes: the handlers of \<open>internal/relay/node.go\<close>, the files of
  \<open>internal/relay/queue.go\<close> and the wire together, from the request of the sender to the stream of
  the recipient.
\<close>

section \<open>One pending message\<close>

lemma one_delivery:
  assumes "queue_inv q" "qview q p = [x]" "outcomes nt = True # os" "wire_form (queued_relay_message x) = Some w"
  obtains q' nt' where "deliver_pending en failed p q nt = (q', nt')" "queue_inv q'" "qview q' p = []"
    "sent nt' = sent nt @ [(qm_To x, RelayProtocol, w)]"
proof -
  obtain b tail where a: "array_is q p b 1 ([x] @ tail)"
    using array_of_view [OF assms(1,2)] by auto
  obtain q' nt' where s: "deliver_at en failed p (b, 1) (q, nt) 0 = (q', nt')" "array_is q' p b 0 ([x] @ tail)"
      "sent nt' = sent nt @ [(qm_To x, RelayProtocol, w)]"
    using deliver_at_removes [OF a, of 0 0 nt os w en failed 1] assms(3,4) by auto
  have "pslice q p = (b, 1)"
    using a by (simp add: array_is_def)
  then have "deliver_pending en failed p q nt = (q', nt')"
    using s(1) by (simp add: deliver_pending_def Peek_def Let_def)
  moreover have "queue_inv q'" "qview q' p = []"
    using qview_array [OF s(2)] s(2) by (simp_all add: array_is_def)
  ultimately show thesis
    using that s(3) by blast
qed

lemma forward_offline:
  assumes "rn_queue r = Some q" "snd (AllowRequest now (rn_limiter r) (pid_String en p))" "rm_Type m = ''forward''"
    "onlinePeers r (rm_To m) = None" "rm_To m \<noteq> p"
  obtains r' where "handleRelayStream en now r n p (Some m) = (r', n)"
    "rn_queue r' = Some (fst (Enqueue en now q (zero_msg\<lparr>qm_ID := rm_ID m, qm_From := p, qm_To := rm_To m,
       qm_Type := ''forward'', qm_Content := CRaw (rm_Data m)\<rparr>)))"
proof -
  obtain l where "AllowRequest now (rn_limiter r) (pid_String en p) = (l, True)"
    using assms(2) by (metis prod.collapse)
  then show thesis
    using assms that by (simp add: handleRelayStream_def handleForward_def Let_def)
qed

lemma announce_delivers:
  assumes "rn_queue r = Some q" "queue_inv q" "qview q t = [x]" "outcomes n = True # os" "wire_form (queued_relay_message x) = Some w"
  obtains r' n' where "handleAnnounce en now r n t = (r', n')" "sent n' = sent n @ [(qm_To x, RelayProtocol, w)]"
    "map_option (\<lambda>q. qview q t) (rn_queue r') = Some []"
proof -
  obtain q' n' where d: "deliver_pending en (\<lambda>q i. q) t q n = (q', n')" "qview q' t = []" "sent n' = sent n @ [(qm_To x, RelayProtocol, w)]"
    using one_delivery [OF assms(2-5), of en "\<lambda>q i. q"] by metis
  then show thesis
    using that assms(1) by (simp add: handleAnnounce_def Let_def)
qed

text \<open>What a restart makes of the only pending message of a peer.\<close>

lemma restart_view:
  assumes "pid_ok en" "queue_inv q" "disk_synced en q" "qview q t = []" "valid_peer en t" "valid_peer en p"
    and "json_ok j" "json_plain j" "m = zero_msg\<lparr>qm_ID := i, qm_From := p, qm_To := t, qm_Type := ''forward'', qm_Content := CRaw (json_text j)\<rparr>"
    and "msg_ok en (stamped now (q_ttl q) m)"
  obtains q2 where "NewMessageQueue en (Some (q_disk (fst (Enqueue en now q m)))) = Some q2" "queue_inv q2"
    "qview q2 t = [(stamped now (q_ttl q) m)\<lparr>qm_Content := CAny j\<rparr>]"
proof -
  let ?q1 = "fst (Enqueue en now q m)" and ?x = "stamped now (q_ttl q) m"
  have c: "content_value (CRaw (json_text j)) = Some j"
    using json_parse_text [OF assms(7)] by (cases "json_text j = []") (simp_all add: json_parse_def del: json_text.simps)
  have sync: "disk_synced en ?q1"
    by (rule push_pending_sync(1) [OF assms(1-3,10)])
  have "qview ?q1 t = [?x]"
    using Enqueue_correct(2) [OF assms(2), of en now m t] assms(4) by (simp add: assms(9) del: json_text.simps)
  moreover have "qm_Content ?x = CRaw (json_text j)" "qm_From ?x = p" "qm_To ?x = t"
    by (simp_all add: stamped_def assms(9) del: json_text.simps)
  ultimately have "reloaded en (qview ?q1 t) = [?x\<lparr>qm_Content := CAny j\<rparr>]"
    using c assms(5,6,8) by (simp add: reloaded_plain del: json_text.simps)
  then have "qview (queue_load en (empty_queue (q_disk ?q1))) t = [?x\<lparr>qm_Content := CAny j\<rparr>]"
    unfolding load_synced(2) [OF assms(1) sync] using assms(5) by (simp only: if_True)
  then show thesis
    using that load_synced(1) [OF assms(1) sync] unfolding NewMessageQueue_def by simp
qed

text \<open>A payload that \<open>json.Marshal\<close> wrote can be stored, when its times and IDs can.\<close>

lemma forward_storable:
  assumes "json_ok j" "utf8_ok i" "i \<noteq> []" "utf8_ok (pid_String en p)" "utf8_ok (pid_String en t)"
    and "time_ok en now" "time_ok en (now + ttl)" "time_ok en zero_time"
  shows "msg_ok en (stamped now ttl (zero_msg\<lparr>qm_ID := i, qm_From := p, qm_To := t, qm_Type := ''forward'', qm_Content := CRaw (json_text j)\<rparr>))"
proof -
  have "json_text j \<noteq> []"
    using json_parse_text [OF assms(1)] by (auto simp: json_parse_def)
  then have "content_canon (CRaw (json_text j))"
    using assms(1) by (simp add: content_canon_def json_parse_text del: json_text.simps)
  then show ?thesis
    using assms by (simp add: msg_ok_def stamped_def zero_msg_def code_def in64_def del: json_text.simps)
qed

text \<open>
  C5. A message for an absent peer survives the relay: when a relay whose queue was only used by its
  own calls, on messages and times that have a JSON text, accepts a \<open>forward\<close> from a peer whose ID
  decodes to a peer it has not seen, crashes, and starts again on its files, then the
  recipient's next announcement, if its stream opens, is answered by exactly this message,
  under its ID, with the sender stamped by the relay and the payload byte for byte, and the
  queue of the recipient is empty afterwards.  The payload is one that \<open>json.Marshal\<close> writes, without
  numbers and with its members in order, so that decoding it changes nothing.
\<close>

theorem forward_survives_crash:
  assumes "pid_ok en" "list_all qop_ok xs" "list_all (qop_saved en DefaultTTL) xs"
    and "rn_queue r = Some (foldl (queue_step en) (empty_queue []) xs)"
    and "qview (foldl (queue_step en) (empty_queue []) xs) t = []" "valid_peer en t" "valid_peer en p"
    and "onlinePeers r t = None" "t \<noteq> p" "snd (AllowRequest now (rn_limiter r) (pid_String en p))"
    and "rm_Type m = ''forward''" "rm_To m = t" "rm_ID m \<noteq> []" "rm_Data m = json_text j" "json_ok j" "json_plain j"
    and "utf8_ok (rm_ID m)" "utf8_ok (pid_String en p)" "utf8_ok (pid_String en t)"
    and "time_ok en now" "time_ok en (now + DefaultTTL)" "time_ok en zero_time"
  shows "\<exists>r1 q1 q2. handleRelayStream en now r n p (Some m) = (r1, n) \<and> rn_queue r1 = Some q1
    \<and> NewMessageQueue en (Some (q_disk q1)) = Some q2
    \<and> (\<forall>r2 later n2 os. rn_queue r2 = Some q2 \<and> outcomes n2 = True # os \<longrightarrow>
        (\<exists>r3 n3 w. handleAnnounce en later r2 n2 t = (r3, n3) \<and> sent n3 = sent n2 @ [(t, RelayProtocol, w)]
          \<and> rm_ID w = rm_ID m \<and> rm_From w = p \<and> rm_To w = t \<and> rm_Type w = ''forward'' \<and> rm_Data w = rm_Data m
          \<and> map_option (\<lambda>q. qview q t) (rn_queue r3) = Some []))"
proof -
  let ?q = "foldl (queue_step en) (empty_queue []) xs"
  let ?x = "zero_msg\<lparr>qm_ID := rm_ID m, qm_From := p, qm_To := t, qm_Type := ''forward'', qm_Content := CRaw (json_text j)\<rparr>"
  have inv: "queue_inv ?q"
    using queue_run_refines [OF empty_queue_inv(1) assms(2)] by simp
  have ttl: "q_ttl ?q = DefaultTTL"
    by (simp add: queue_run_config)
  have sync: "disk_synced en ?q"
    by (rule queue_run_synced [OF assms(1) empty_queue_inv(1) _ assms(2)])
      (simp add: disk_synced_def file_of_view_def, simp add: empty_queue_def, use assms(3) in simp)
  have ok: "msg_ok en (stamped now (q_ttl ?q) ?x)"
    unfolding ttl by (rule forward_storable [OF assms(15,17,13,18-22)])
  obtain r1 where r1: "handleRelayStream en now r n p (Some m) = (r1, n)" "rn_queue r1 = Some (fst (Enqueue en now ?q ?x))"
    using forward_offline [OF assms(4,10,11)] assms(8,9,12,14) by metis
  obtain q2 where q2: "NewMessageQueue en (Some (q_disk (fst (Enqueue en now ?q ?x)))) = Some q2" "queue_inv q2"
      "qview q2 t = [(stamped now (q_ttl ?q) ?x)\<lparr>qm_Content := CAny j\<rparr>]"
    using restart_view [OF assms(1) inv sync assms(5-7,15,16) refl ok] by metis
  let ?y = "(stamped now (q_ttl ?q) ?x)\<lparr>qm_Content := CAny j\<rparr>"
  have y: "queued_relay_message ?y = zero_rm\<lparr>rm_ID := rm_ID m, rm_Type := ''forward'', rm_From := p, rm_To := t, rm_Data := json_text j\<rparr>"
    using assms(13) by (simp add: queued_relay_message_def stamped_def del: json_text.simps)
  have w: "wire_form (queued_relay_message ?y) = Some (queued_relay_message ?y)"
    unfolding y using assms(15) by (simp add: wire_form_def del: json_text.simps)
  have "\<exists>r3 n3 w. handleAnnounce en later r2 n2 t = (r3, n3) \<and> sent n3 = sent n2 @ [(t, RelayProtocol, w)]
      \<and> rm_ID w = rm_ID m \<and> rm_From w = p \<and> rm_To w = t \<and> rm_Type w = ''forward'' \<and> rm_Data w = rm_Data m
      \<and> map_option (\<lambda>q. qview q t) (rn_queue r3) = Some []"
    if r2: "rn_queue r2 = Some q2" "outcomes n2 = True # os" for r2 later n2 os
  proof -
    obtain r3 n3 where "handleAnnounce en later r2 n2 t = (r3, n3)"
        "sent n3 = sent n2 @ [(qm_To ?y, RelayProtocol, queued_relay_message ?y)]" "map_option (\<lambda>q. qview q t) (rn_queue r3) = Some []"
      using announce_delivers [OF r2(1) q2(2,3) r2(2) w] by metis
    moreover have "qm_To ?y = t"
      by (simp add: stamped_def del: json_text.simps)
    ultimately show ?thesis
      using assms(14) by (intro exI [of _ r3] exI [of _ n3] exI [of _ "queued_relay_message ?y"]) (simp add: y del: json_text.simps)
  qed
  then show ?thesis
    using r1 q2(1) by blast
qed

theorem forward_survives_crash_witness:
  "\<exists>r1 q1 q2. handleRelayStream plain_env 0 (demo_node (empty_queue [])) (one_net []) ''me''
       (Some (zero_rm\<lparr>rm_Type := ''forward'', rm_ID := ''i'', rm_To := ''p'', rm_Data := json_text (JStr ''hi'')\<rparr>)) = (r1, one_net [])
     \<and> rn_queue r1 = Some q1 \<and> NewMessageQueue plain_env (Some (q_disk q1)) = Some q2
     \<and> (\<exists>w. sent (snd (handleAnnounce plain_env 9 (demo_node q2) (one_net [True]) ''p'')) = [(''p'', RelayProtocol, w)]
          \<and> rm_From w = ''me'' \<and> rm_Data w = json_text (JStr ''hi''))"
proof -
  let ?m = "zero_rm\<lparr>rm_Type := ''forward'', rm_ID := ''i'', rm_To := ''p'', rm_Data := json_text (JStr ''hi'')\<rparr>"
  let ?r = "demo_node (empty_queue [])"
  have a: "snd (AllowRequest 0 (rn_limiter ?r) (pid_String plain_env ''me''))"
    by (rule demo_allows)
  have q: "list_all qop_ok []" "list_all (qop_saved plain_env DefaultTTL) []" "rn_queue ?r = Some (foldl (queue_step plain_env) (empty_queue []) [])"
      "qview (foldl (queue_step plain_env) (empty_queue []) []) ''p'' = []" "valid_peer plain_env ''p''" "valid_peer plain_env ''me''" "onlinePeers ?r ''p'' = None"
      "''p'' \<noteq> ''me''"
    by (simp_all add: valid_peer_def plain_env_def)
  have m: "rm_Type ?m = ''forward''" "rm_To ?m = ''p''" "rm_ID ?m \<noteq> []" "rm_Data ?m = json_text (JStr ''hi'')"
      "json_ok (JStr ''hi'')" "json_plain (JStr ''hi'')" "utf8_ok (rm_ID ?m)" "utf8_ok (pid_String plain_env ''me'')"
      "utf8_ok (pid_String plain_env ''p'')"
    by (simp_all add: code_def plain_env_def)
  have t: "time_ok plain_env 0" "time_ok plain_env (0 + DefaultTTL)" "time_ok plain_env zero_time"
    by (auto intro!: time_ok_plain simp: DefaultTTL_def zero_time_def second_def minute_def hour_def)
  obtain r1 q1 q2 where r: "handleRelayStream plain_env 0 ?r (one_net []) ''me'' (Some ?m) = (r1, one_net [])"
      "rn_queue r1 = Some q1" "NewMessageQueue plain_env (Some (q_disk q1)) = Some q2"
      "\<forall>(r2 :: string list relay_node) later n2 os. rn_queue r2 = Some q2 \<and> outcomes n2 = True # os \<longrightarrow>
        (\<exists>r3 n3 w. handleAnnounce plain_env later r2 n2 ''p'' = (r3, n3) \<and> sent n3 = sent n2 @ [(''p'', RelayProtocol, w)]
          \<and> rm_ID w = rm_ID ?m \<and> rm_From w = ''me'' \<and> rm_To w = ''p'' \<and> rm_Type w = ''forward'' \<and> rm_Data w = rm_Data ?m
          \<and> map_option (\<lambda>q. qview q ''p'') (rn_queue r3) = Some [])"
    using forward_survives_crash [OF pid_ok_plain q a m t, of "one_net []"] by blast
  obtain r3 n3 w where "handleAnnounce plain_env 9 (demo_node q2) (one_net [True]) ''p'' = (r3, n3)"
      "sent n3 = sent (one_net [True]) @ [(''p'', RelayProtocol, w)]" "rm_From w = ''me''" "rm_Data w = rm_Data ?m"
    using r(4) [rule_format, of "demo_node q2" "one_net [True]" "[]" 9] by auto
  then show ?thesis
    using r(1-3) by (intro exI [of _ r1] exI [of _ q1] exI [of _ q2]) (auto simp del: json_text.simps)
qed

end
