(* ===== verification/KvSpec.thy ===== *)
theory KvSpec
  imports Prelude
begin

text \<open>
  What a replicated key-value store promises to the node that drives it: reads after writes and
  deletions, for the keys and values the store accepts, and from these the reads after any
  sequence of calls.
\<close>

datatype ('k, 'v) kv_call = KvPut 'k 'v | KvDel 'k

fun kv_spec :: "('k \<rightharpoonup> 'v) \<Rightarrow> ('k, 'v) kv_call \<Rightarrow> ('k \<rightharpoonup> 'v)" where
  "kv_spec m (KvPut k v) = m(k \<mapsto> v)"
| "kv_spec m (KvDel k) = m(k := None)"

locale kv_store =
  fixes kinv :: "'s \<Rightarrow> bool"
    and look :: "'s \<Rightarrow> 'k \<Rightarrow> 'v option"
    and accepts :: "'k \<Rightarrow> 'v \<Rightarrow> bool"
    and put :: "'s \<Rightarrow> 'k \<Rightarrow> 'v \<Rightarrow> 's"
    and del :: "'s \<Rightarrow> 'k \<Rightarrow> 's"
  assumes put_inv: "kinv s \<Longrightarrow> accepts k v \<Longrightarrow> kinv (put s k v)"
    and put_look: "kinv s \<Longrightarrow> accepts k v \<Longrightarrow> look (put s k v) = (look s)(k \<mapsto> v)"
    and del_inv: "kinv s \<Longrightarrow> kinv (del s k)"
    and del_look: "kinv s \<Longrightarrow> look (del s k) = (look s)(k := None)"
begin

fun kv_step :: "'s \<Rightarrow> ('k, 'v) kv_call \<Rightarrow> 's" where
  "kv_step s (KvPut k v) = put s k v"
| "kv_step s (KvDel k) = del s k"

fun kv_ok :: "('k, 'v) kv_call \<Rightarrow> bool" where
  "kv_ok (KvPut k v) = accepts k v"
| "kv_ok (KvDel k) = True"

lemma kv_step_correct: "kinv s \<Longrightarrow> kv_ok x \<Longrightarrow> kinv (kv_step s x) \<and> look (kv_step s x) = kv_spec (look s) x"
  by (cases x) (simp_all add: put_inv put_look del_inv del_look)

lemma kv_run_correct:
  "kinv s \<Longrightarrow> list_all kv_ok xs \<Longrightarrow>
    kinv (foldl kv_step s xs) \<and> look (foldl kv_step s xs) = foldl kv_spec (look s) xs"
  by (induction xs arbitrary: s) (simp_all add: kv_step_correct)

text \<open>Two stores with the same content answer alike after the same calls.\<close>

lemma kv_run_agree:
  "kinv s \<Longrightarrow> kinv t \<Longrightarrow> look s = look t \<Longrightarrow> list_all kv_ok xs \<Longrightarrow>
    look (foldl kv_step s xs) = look (foldl kv_step t xs)"
  by (simp add: kv_run_correct)

end

end
