(* ===== verification/RaftFsm.thy ===== *)
theory RaftFsm
  imports JsonDecode KvSpec "HOL-Library.Mapping"
begin

text \<open>
  The replicated key-value store of \<open>internal/consensus/raft.go\<close>: the state machine that
  applies committed log entries, its snapshots, and the operations of a node around the
  third-party \<open>hashicorp/raft\<close>.  What the raft library decides (who leads, whether a future
  fails, what the configuration is) is an argument of the operations.  \<open>num\<close> is the text a
  number comes back as after it was read as a \<open>float64\<close>.
\<close>

section \<open>Commands\<close>

record command =
  cmd_Op :: string
  cmd_Key :: string
  cmd_Value :: json

definition OpSet :: string where "OpSet = ''set''"
definition OpDelete :: string where "OpDelete = ''delete''"

definition zero_command :: command where
  "zero_command = \<lparr>cmd_Op = [], cmd_Key = [], cmd_Value = JNull\<rparr>"

definition command_text :: "command \<Rightarrow> bytes" where
  "command_text c = json_text (JObj [(''op'', JStr (cmd_Op c)), (''key'', JStr (cmd_Key c)), (''value'', cmd_Value c)])"

definition command_field :: "(string \<Rightarrow> string option) \<Rightarrow> string \<Rightarrow> json \<Rightarrow> command \<Rightarrow> command option" where
  "command_field num n j c =
     (if n = ''op'' then map_option (\<lambda>s. c\<lparr>cmd_Op := s\<rparr>) (as_string j (cmd_Op c))
      else if n = ''key'' then map_option (\<lambda>s. c\<lparr>cmd_Key := s\<rparr>) (as_string j (cmd_Key c))
      else if n = ''value'' then map_option (\<lambda>v. c\<lparr>cmd_Value := v\<rparr>) (json_any num j)
      else Some c)"

definition decode_command :: "(string \<Rightarrow> string option) \<Rightarrow> bytes \<Rightarrow> command option" where
  "decode_command num bs =
     Option.bind (json_parse bs) (\<lambda>j. decode_struct (command_field num) j zero_command)"

section \<open>The state machine\<close>

text \<open>The data map may be nil, \<open>None\<close> here: writing to a nil map panics.\<close>

type_synonym fsm = "(string, json) mapping option"

definition NewFSM :: fsm where
  "NewFSM = Some Mapping.empty"

text \<open>
  \<open>None\<close>: the call panics.  The flag is the response of the state machine, true for \<open>nil\<close> and false
  for the error of a log entry that does not decode.
\<close>

definition FSM_Apply :: "(string \<Rightarrow> string option) \<Rightarrow> fsm \<Rightarrow> bytes \<Rightarrow> (fsm \<times> bool) option" where
  "FSM_Apply num f log_Data =
     (case decode_command num log_Data of
        None \<Rightarrow> Some (f, False)
      | Some cmd \<Rightarrow>
          if cmd_Op cmd = OpSet then
            (case f of None \<Rightarrow> None | Some m \<Rightarrow> Some (Some (Mapping.update (cmd_Key cmd) (cmd_Value cmd) m), True))
          else if cmd_Op cmd = OpDelete then Some (map_option (Mapping.delete (cmd_Key cmd)) f, True)
          else Some (f, True))"

definition FSM_Get :: "fsm \<Rightarrow> string \<Rightarrow> json option" where
  "FSM_Get f key = (case f of None \<Rightarrow> None | Some m \<Rightarrow> Mapping.lookup m key)"

definition FSM_GetAll :: "fsm \<Rightarrow> (string, json) mapping" where
  "FSM_GetAll f = (case f of None \<Rightarrow> Mapping.empty | Some m \<Rightarrow> m)"

definition FSM_Snapshot :: "fsm \<Rightarrow> (string, json) mapping" where
  "FSM_Snapshot f = (case f of None \<Rightarrow> Mapping.empty | Some m \<Rightarrow> m)"

text \<open>A Go map is written in key order.\<close>

definition map_members :: "(string, json) mapping \<Rightarrow> (string \<times> json) list" where
  "map_members m = map (\<lambda>k. (k, case Mapping.lookup m k of None \<Rightarrow> JNull | Some v \<Rightarrow> v)) (Mapping.ordered_keys m)"

text \<open>\<open>Persist\<close> writes the snapshot to the sink and closes it, or cancels the sink when a write fails.\<close>

datatype sink = SinkOpen bytes | SinkClosed bytes | SinkCancelled

definition Persist :: "(string, json) mapping \<Rightarrow> bool \<Rightarrow> sink \<times> bool" where
  "Persist s write_ok =
     (if write_ok then (SinkClosed (json_text (JObj (map_members s))), True) else (SinkCancelled, False))"

text \<open>The decoder reads one value and leaves the rest; \<open>None\<close> is the error, which changes nothing.\<close>

definition decode_map :: "(string \<Rightarrow> string option) \<Rightarrow> json \<Rightarrow> fsm option" where
  "decode_map num j =
     (case j of
        JNull \<Rightarrow> Some None
      | JObj ms \<Rightarrow>
          map_option (\<lambda>ms'. Some (foldl (\<lambda>m x. Mapping.update (fst x) (snd x) m) Mapping.empty ms'))
            (those (map (\<lambda>x. map_option (Pair (fst x)) (json_any num (snd x))) ms))
      | _ \<Rightarrow> None)"

definition FSM_Restore :: "(string \<Rightarrow> string option) \<Rightarrow> fsm \<Rightarrow> bytes \<Rightarrow> fsm \<times> bool" where
  "FSM_Restore num f rc =
     (case parse_val (2 * length rc + 2) rc of
        None \<Rightarrow> (f, False)
      | Some (j, rest) \<Rightarrow>
          (case decode_map num j of None \<Rightarrow> (f, False) | Some f' \<Rightarrow> (f', True)))"

section \<open>The node\<close>

datatype raft_error = NotLeader | MarshalError | FutureError | AlreadyGone

text \<open>
  \<open>RaftNode.Apply\<close> on the cluster's committed log: \<open>leader\<close> is the node's state, \<open>commit\<close>
  whether the future succeeds; a value that does not marshal is \<open>None\<close>.
\<close>

definition RaftNode_Apply ::
    "bool \<Rightarrow> bool \<Rightarrow> bytes list \<Rightarrow> command option \<Rightarrow> bytes list \<times> raft_error option" where
  "RaftNode_Apply leader commit entries cmd =
     (if \<not> leader then (entries, Some NotLeader)
      else (case cmd of
              None \<Rightarrow> (entries, Some MarshalError)
            | Some c \<Rightarrow> if commit then (entries @ [command_text c], None) else (entries, Some FutureError)))"

definition RaftNode_Set ::
    "bool \<Rightarrow> bool \<Rightarrow> bytes list \<Rightarrow> string \<Rightarrow> json option \<Rightarrow> bytes list \<times> raft_error option" where
  "RaftNode_Set leader commit entries key val =
     RaftNode_Apply leader commit entries
       (map_option (\<lambda>v. \<lparr>cmd_Op = OpSet, cmd_Key = key, cmd_Value = v\<rparr>) val)"

definition RaftNode_Delete ::
    "bool \<Rightarrow> bool \<Rightarrow> bytes list \<Rightarrow> string \<Rightarrow> bytes list \<times> raft_error option" where
  "RaftNode_Delete leader commit entries key =
     RaftNode_Apply leader commit entries (Some \<lparr>cmd_Op = OpDelete, cmd_Key = key, cmd_Value = JNull\<rparr>)"

text \<open>A replica that has applied a sequence of entries; \<open>None\<close> when it panicked.\<close>

fun replay :: "(string \<Rightarrow> string option) \<Rightarrow> fsm \<Rightarrow> bytes list \<Rightarrow> fsm option" where
  "replay num f [] = Some f"
| "replay num f (e # es) =
     (case FSM_Apply num f e of None \<Rightarrow> None | Some (f', ok) \<Rightarrow> replay num f' es)"

section \<open>Membership\<close>

text \<open>
  What the library does to the list of servers: removing a server or adding a voter gives a
  new configuration or fails.
\<close>

type_synonym servers = "(string \<times> string) list"

record raft_api =
  ra_RemoveServer :: "servers \<Rightarrow> string \<Rightarrow> servers option"
  ra_AddVoter :: "servers \<Rightarrow> string \<Rightarrow> string \<Rightarrow> servers option"

datatype join_error = JoinNotLeader | JoinNoConfig | JoinRemoveFailed | JoinAddFailed

text \<open>
  The loop of \<open>Join\<close> over the configuration as it was read: \<open>Inl\<close> ends the call, \<open>Inr\<close> goes on
  with the current servers.
\<close>

fun join_loop ::
    "raft_api \<Rightarrow> servers \<Rightarrow> string \<Rightarrow> string \<Rightarrow> servers \<Rightarrow> (servers \<times> join_error option) + servers" where
  "join_loop api cur nodeID addr [] = Inr cur"
| "join_loop api cur nodeID addr (srv # srvs) =
     (if fst srv = nodeID then
        if snd srv = addr then Inl (cur, None)
        else (case ra_RemoveServer api cur (fst srv) of
                None \<Rightarrow> Inl (cur, Some JoinRemoveFailed)
              | Some cur' \<Rightarrow> join_loop api cur' nodeID addr srvs)
      else join_loop api cur nodeID addr srvs)"

definition RaftNode_Join ::
    "raft_api \<Rightarrow> bool \<Rightarrow> bool \<Rightarrow> servers \<Rightarrow> string \<Rightarrow> string \<Rightarrow> servers \<times> join_error option" where
  "RaftNode_Join api leader config_ok cur nodeID addr =
     (if \<not> leader then (cur, Some JoinNotLeader)
      else if \<not> config_ok then (cur, Some JoinNoConfig)
      else (case join_loop api cur nodeID addr cur of
              Inl r \<Rightarrow> r
            | Inr cur' \<Rightarrow>
                (case ra_AddVoter api cur' nodeID addr of
                   None \<Rightarrow> (cur', Some JoinAddFailed)
                 | Some cur'' \<Rightarrow> (cur'', None))))"

definition RaftNode_Leave :: "raft_api \<Rightarrow> bool \<Rightarrow> servers \<Rightarrow> string \<Rightarrow> servers \<times> join_error option" where
  "RaftNode_Leave api leader cur nodeID =
     (if \<not> leader then (cur, Some JoinNotLeader)
      else (case ra_RemoveServer api cur nodeID of
              None \<Rightarrow> (cur, Some JoinRemoveFailed)
            | Some cur' \<Rightarrow> (cur', None)))"

text \<open>
  \<open>WaitForLeader\<close>: every tick looks for a leader, the timer ends the wait.  \<open>None\<close>: neither has
  happened yet.
\<close>

datatype wait_event = WaitTick string | WaitTimer

fun WaitForLeader :: "wait_event list \<Rightarrow> bool option" where
  "WaitForLeader [] = None"
| "WaitForLeader (WaitTick leader # evs) = (if leader \<noteq> [] then Some True else WaitForLeader evs)"
| "WaitForLeader (WaitTimer # evs) = Some False"

text \<open>
  \<open>NewRaftNode\<close> sets up one resource after the other; \<open>succeeds\<close> says which steps the operating
  system and the library let through.  A failure returns at once: the left result is the failed
  step and the resources that stay open, the right one the resources of the new node and the
  servers it bootstraps with.
\<close>

datatype raft_setup = SetupDir | SetupAddr | SetupTransport | SetupBolt | SetupSnapshots | SetupRaft

record raft_config =
  rcf_NodeID :: string
  rcf_RaftDir :: string
  rcf_RaftBind :: string
  rcf_Bootstrap :: bool
  rcf_JoinAddr :: string

fun raft_setup_steps ::
    "(raft_setup \<Rightarrow> bool) \<Rightarrow> raft_setup list \<Rightarrow> raft_setup list \<Rightarrow> (raft_setup \<times> raft_setup list) + raft_setup list" where
  "raft_setup_steps succeeds opened [] = Inr opened"
| "raft_setup_steps succeeds opened (st # sts) =
     (if succeeds st
      then raft_setup_steps succeeds (if st \<in> {SetupTransport, SetupBolt, SetupRaft} then opened @ [st] else opened) sts
      else Inl (st, opened))"

definition NewRaftNode ::
    "(raft_setup \<Rightarrow> bool) \<Rightarrow> raft_config \<Rightarrow> (raft_setup \<times> raft_setup list) + (raft_setup list \<times> servers)" where
  "NewRaftNode succeeds cfg =
     (case raft_setup_steps succeeds [] [SetupDir, SetupAddr, SetupTransport, SetupBolt, SetupSnapshots, SetupRaft] of
        Inl e \<Rightarrow> Inl e
      | Inr opened \<Rightarrow> Inr (opened, if rcf_Bootstrap cfg then [(rcf_NodeID cfg, rcf_RaftBind cfg)] else []))"

section \<open>Values that survive decoding\<close>

text \<open>What \<open>strconv\<close> documents: the text of a \<open>float64\<close> is a number that reads back as that \<open>float64\<close>.\<close>

definition num_law :: "(string \<Rightarrow> string option) \<Rightarrow> bool" where
  "num_law num \<longleftrightarrow> (\<forall>n n'. num_ok n \<longrightarrow> num n = Some n' \<longrightarrow> num_ok n' \<and> num n' = Some n')"

definition stable :: "(string \<Rightarrow> string option) \<Rightarrow> json \<Rightarrow> bool" where
  "stable num j \<longleftrightarrow> json_ok j \<and> json_any num j = Some j"

lemma those_SomeD: "those xs = Some ys \<Longrightarrow> xs = map Some ys"
  by (induction xs arbitrary: ys) (auto split: option.splits)

lemma go_members_props:
  "set (go_members kvs) \<subseteq> set kvs" "sorted (map fst (go_members kvs))" "distinct (map fst (go_members kvs))"
proof -
  show "set (go_members kvs) \<subseteq> set kvs"
  proof
    fix x assume "x \<in> set (go_members kvs)"
    then have "x \<in> set (AList.clearjunk (rev kvs))" by (simp add: go_members_def)
    then have "map_of (rev kvs) (fst x) = Some (snd x)"
      using map_of_is_SomeI [OF distinct_clearjunk, of "fst x" "snd x" "rev kvs"] by (simp add: map_of_clearjunk)
    then have "(fst x, snd x) \<in> set (rev kvs)" by (rule map_of_SomeD)
    then show "x \<in> set kvs" by simp
  qed
  show "sorted (map fst (go_members kvs))" by (simp add: go_members_def)
  have "distinct (map fst (AList.clearjunk (rev kvs)))" by (rule distinct_clearjunk)
  then show "distinct (map fst (go_members kvs))" by (simp add: go_members_def distinct_map distinct_sort)
qed

lemma map_Some_eqD: "map f xs = map Some ys \<Longrightarrow> y \<in> set ys \<Longrightarrow> \<exists>x\<in>set xs. f x = Some y"
proof -
  assume e: "map f xs = map Some ys" and "y \<in> set ys"
  then have "Some y \<in> set (map f xs)" by simp
  then show ?thesis by auto
qed

lemma json_any_stable:
  assumes law: "num_law num"
  shows "json_ok j \<Longrightarrow> json_any num j = Some j' \<Longrightarrow> stable num j'"
proof (induction j arbitrary: j')
  case (JNum n)
  then obtain n' where n': "num n = Some n'" "j' = JNum n'" by auto
  have "num_ok n' \<and> num n' = Some n'"
    using law JNum.prems(1) n'(1) unfolding num_law_def json_ok.simps by blast
  then show ?case by (simp add: stable_def n'(2))
next
  case (JArr js)
  then obtain js' where js: "those (map (json_any num) js) = Some js'" "j' = JArr js'" by auto
  have st: "stable num y" if "y \<in> set js'" for y
    using map_Some_eqD [OF those_SomeD [OF js(1)] that] JArr by (auto simp: list_all_iff)
  have "those (map (json_any num) js') = Some (map (\<lambda>j. j) js')"
    by (rule those_map_Some) (use st in \<open>simp add: stable_def\<close>)
  then show ?case using st by (simp add: stable_def js(2) list_all_iff)
next
  case (JObj kvs)
  let ?f = "\<lambda>x. map_option (Pair (fst x)) (json_any num (snd x))"
  obtain ms where ms: "those (map ?f kvs) = Some ms" "j' = JObj (go_members ms)"
    using JObj.prems(2) by (auto simp: comp_def)
  have el: "utf8_ok (fst y) \<and> stable num (snd y)" if y: "y \<in> set (go_members ms)" for y
  proof -
    have "y \<in> set ms" using y go_members_props(1) by blast
    then obtain x v where x: "x \<in> set kvs" "json_any num (snd x) = Some v" "y = (fst x, v)"
      using map_Some_eqD [OF those_SomeD [OF ms(1)]] by fastforce
    have "utf8_ok (fst x)" "json_ok (snd x)" using JObj.prems(1) x(1) by (auto simp: list_all_iff)
    moreover have "stable num v" using JObj.IH [OF x(1), of "snd x" v] x calculation by (cases x) auto
    ultimately show ?thesis using x(3) by simp
  qed
  have "those (map ?f (go_members ms)) = Some (map (\<lambda>x. x) (go_members ms))"
    by (rule those_map_Some) (use el in \<open>auto simp: stable_def\<close>)
  then show ?case using el go_members_sorted [OF go_members_props(2,3)]
    by (auto simp: stable_def ms(2) list_all_iff comp_def)
qed (auto simp: stable_def)

section \<open>What an entry does\<close>

definition command_ok :: "command \<Rightarrow> bool" where
  "command_ok c \<longleftrightarrow> utf8_ok (cmd_Op c) \<and> utf8_ok (cmd_Key c) \<and> json_ok (cmd_Value c)"

lemma utf8_ok_names [simp]: "utf8_ok ''op''" "utf8_ok ''key''" "utf8_ok ''value''" "utf8_ok []"
  "utf8_ok ''set''" "utf8_ok ''delete''"
  by (simp_all add: utf8_ok_def code_def)

lemma fold_names [simp]: "fold_name ''op'' = ''op''" "fold_name ''key'' = ''key''" "fold_name ''value'' = ''value''"
  by (rule fold_name_plain, simp add: code_def)+

lemma decode_command_text:
  assumes "command_ok c"
  shows "decode_command num (command_text c)
    = map_option (\<lambda>v. c\<lparr>cmd_Value := v\<rparr>) (json_any num (cmd_Value c))"
proof -
  have "json_parse (command_text c)
      = Some (JObj [(''op'', JStr (cmd_Op c)), (''key'', JStr (cmd_Key c)), (''value'', cmd_Value c)])"
    unfolding command_text_def by (rule json_parse_text) (use assms in \<open>simp add: command_ok_def\<close>)
  then show ?thesis
    by (cases c) (simp add: decode_command_def decode_struct_def command_field_def zero_command_def as_string_def)
qed

definition fsm_inv :: "(string \<Rightarrow> string option) \<Rightarrow> fsm \<Rightarrow> bool" where
  "fsm_inv num f \<longleftrightarrow>
     (case f of None \<Rightarrow> False
      | Some m \<Rightarrow> finite (Mapping.keys m)
          \<and> (\<forall>k v. Mapping.lookup m k = Some v \<longrightarrow> utf8_ok k \<and> stable num v))"

lemma fsm_inv_New [simp]: "fsm_inv num NewFSM"
  by (simp add: fsm_inv_def NewFSM_def)

lemma fsm_invE:
  assumes "fsm_inv num f"
  obtains m where "f = Some m" "finite (Mapping.keys m)"
    "\<And>k v. Mapping.lookup m k = Some v \<Longrightarrow> utf8_ok k \<and> stable num v"
  using assms by (auto simp: fsm_inv_def split: option.splits)

text \<open>The two writes as the state machine performs them.\<close>

definition fsm_put :: "fsm \<Rightarrow> string \<Rightarrow> json \<Rightarrow> fsm" where
  "fsm_put f k v = map_option (Mapping.update k v) f"

definition fsm_del :: "fsm \<Rightarrow> string \<Rightarrow> fsm" where
  "fsm_del f k = map_option (Mapping.delete k) f"

lemma lookup_deleted: "Mapping.lookup (Mapping.delete k m) k' = (if k' = k then None else Mapping.lookup m k')"
  by transfer simp

lemma FSM_Get_put: "fsm_inv num f \<Longrightarrow> FSM_Get (fsm_put f k v) = (FSM_Get f)(k \<mapsto> v)"
  by (elim fsm_invE) (auto simp: FSM_Get_def fsm_put_def lookup_update' fun_eq_iff)

lemma FSM_Get_del: "fsm_inv num f \<Longrightarrow> FSM_Get (fsm_del f k) = (FSM_Get f)(k := None)"
  by (elim fsm_invE) (auto simp: FSM_Get_def fsm_del_def lookup_deleted fun_eq_iff)

lemma fsm_put_inv: "fsm_inv num f \<Longrightarrow> utf8_ok k \<Longrightarrow> stable num v \<Longrightarrow> fsm_inv num (fsm_put f k v)"
  by (elim fsm_invE) (auto simp: fsm_inv_def fsm_put_def lookup_update' split: if_splits)

lemma fsm_del_inv: "fsm_inv num f \<Longrightarrow> fsm_inv num (fsm_del f k)"
  by (elim fsm_invE) (auto simp: fsm_inv_def fsm_del_def lookup_deleted split: if_splits)

interpretation kv: kv_store "fsm_inv num" FSM_Get "\<lambda>k v. utf8_ok k \<and> stable num v" fsm_put fsm_del for num
  by unfold_locales (auto simp: fsm_put_inv fsm_del_inv FSM_Get_put FSM_Get_del)

text \<open>The calls an entry amounts to.\<close>

definition entry_calls :: "(string \<Rightarrow> string option) \<Rightarrow> command \<Rightarrow> (string, json) kv_call list" where
  "entry_calls num c =
     (case json_any num (cmd_Value c) of
        None \<Rightarrow> []
      | Some v \<Rightarrow> if cmd_Op c = OpSet then [KvPut (cmd_Key c) v]
                  else if cmd_Op c = OpDelete then [KvDel (cmd_Key c)] else [])"

lemma ops_differ [simp]: "OpDelete \<noteq> OpSet" "OpSet \<noteq> OpDelete"
  by (simp_all add: OpSet_def OpDelete_def)

lemma entry_calls_ok: "num_law num \<Longrightarrow> command_ok c \<Longrightarrow> list_all (kv.kv_ok num) (entry_calls num c)"
  by (auto simp: entry_calls_def command_ok_def kv.kv_ok.simps json_any_stable split: option.split)

lemma FSM_Apply_entry:
  assumes "num_law num" and "command_ok c" and "fsm_inv num f"
  shows "FSM_Apply num f (command_text c)
    = Some (foldl kv.kv_step f (entry_calls num c), json_any num (cmd_Value c) \<noteq> None)"
proof -
  obtain m where m: "f = Some m" using assms(3) by (elim fsm_invE)
  show ?thesis
    by (cases "json_any num (cmd_Value c)")
      (simp_all add: FSM_Apply_def decode_command_text [OF assms(2)] entry_calls_def m fsm_put_def fsm_del_def kv.kv_step.simps)
qed

definition log_calls :: "(string \<Rightarrow> string option) \<Rightarrow> command list \<Rightarrow> (string, json) kv_call list" where
  "log_calls num cs = concat (map (entry_calls num) cs)"

lemma replay_calls:
  assumes "num_law num"
  shows "list_all command_ok cs \<Longrightarrow> fsm_inv num f \<Longrightarrow>
    replay num f (map command_text cs) = Some (foldl kv.kv_step f (log_calls num cs))
    \<and> list_all (kv.kv_ok num) (log_calls num cs)"
proof (induction cs arbitrary: f)
  case (Cons c cs)
  have ok: "command_ok c" "list_all command_ok cs" using Cons.prems by simp_all
  note e = entry_calls_ok [OF assms ok(1)]
  have "fsm_inv num (foldl kv.kv_step f (entry_calls num c))"
    using kv.kv_run_correct [OF Cons.prems(2) e] by blast
  from Cons.IH [OF ok(2) this] show ?case
    using FSM_Apply_entry [OF assms ok(1) Cons.prems(2)] e by (simp add: log_calls_def)
qed (simp add: log_calls_def)

section \<open>Snapshots\<close>

lemma lookup_fold_update:
  "Mapping.lookup (foldl (\<lambda>m x. Mapping.update (fst x) (snd x) m) m xs) k
    = (case map_of (rev xs) k of None \<Rightarrow> Mapping.lookup m k | Some v \<Rightarrow> Some v)"
  by (induction xs arbitrary: m) (auto simp: lookup_update' map_add_def split: option.splits)

lemma set_ordered_keys: "finite (Mapping.keys m) \<Longrightarrow> set (Mapping.ordered_keys m) = Mapping.keys m"
  by (simp add: Mapping.ordered_keys_def)

lemma distinct_ordered_keys: "distinct (Mapping.ordered_keys m)"
  by (simp add: Mapping.ordered_keys_def)

lemma map_of_members:
  assumes "finite (Mapping.keys m)"
  shows "map_of (rev (map_members m)) k = Mapping.lookup m k"
proof -
  have "distinct (map fst (map_members m))"
    by (simp add: map_members_def comp_def distinct_ordered_keys)
  then have "map_of (rev (map_members m)) = map_of (map_members m)"
    by (subst map_of_inject_set) (simp_all flip: rev_map)
  moreover have "map_of (map_members m) k = Mapping.lookup m k"
  proof (cases "Mapping.lookup m k")
    case None
    then have "k \<notin> set (Mapping.ordered_keys m)" using assms by (simp add: set_ordered_keys keys_dom_lookup domIff)
    then have "map_of (map_members m) k = None" by (auto simp: map_members_def map_of_eq_None_iff)
    then show ?thesis using None by simp
  next
    case (Some v)
    then have "k \<in> set (Mapping.ordered_keys m)" using assms by (simp add: set_ordered_keys keys_dom_lookup domIff)
    then have "(k, v) \<in> set (map_members m)" using Some by (force simp: map_members_def)
    then show ?thesis using \<open>distinct (map fst (map_members m))\<close> Some by simp
  qed
  ultimately show ?thesis by simp
qed

lemma members_ok:
  assumes "finite (Mapping.keys m)" and "\<And>k v. Mapping.lookup m k = Some v \<Longrightarrow> utf8_ok k \<and> stable num v"
    and "x \<in> set (map_members m)"
  shows "utf8_ok (fst x)" "json_ok (snd x)" "json_any num (snd x) = Some (snd x)"
proof -
  obtain k where k: "k \<in> Mapping.keys m" "x = (k, case Mapping.lookup m k of None \<Rightarrow> JNull | Some v \<Rightarrow> v)"
    using assms(1,3) by (auto simp: map_members_def set_ordered_keys)
  then obtain v where v: "Mapping.lookup m k = Some v" by (auto simp: keys_dom_lookup)
  show "utf8_ok (fst x)" "json_ok (snd x)" "json_any num (snd x) = Some (snd x)"
    using assms(2) [OF v] v k(2) by (simp_all add: stable_def)
qed

lemma restore_snapshot:
  assumes inv: "fsm_inv num f"
  shows "FSM_Restore num g (json_text (JObj (map_members (FSM_Snapshot f)))) = (f, True)"
proof -
  obtain m where m: "f = Some m" "finite (Mapping.keys m)"
    "\<And>k v. Mapping.lookup m k = Some v \<Longrightarrow> utf8_ok k \<and> stable num v"
    using inv by (elim fsm_invE) blast
  note ok = members_ok [OF m(2,3)]
  let ?j = "JObj (map_members m)"
  have jok: "json_ok ?j" using ok by (auto simp: list_all_iff)
  have "parse_val (2 * length (json_text ?j) + 2) (json_text ?j @ []) = Some (?j, [])"
    using need_le [OF jok] by (intro parse_val_text [OF jok]) (simp_all add: delim_def del: need.simps json_text.simps)
  moreover have "those (map (\<lambda>x. map_option (Pair (fst x)) (json_any num (snd x))) (map_members m)) = Some (map (\<lambda>x. x) (map_members m))"
    by (rule those_map_Some) (use ok(3) in simp)
  moreover have "foldl (\<lambda>m x. Mapping.update (fst x) (snd x) m) Mapping.empty (map_members m) = m"
    by (rule mapping_eqI) (simp add: lookup_fold_update map_of_members [OF m(2)] split: option.split)
  ultimately show ?thesis by (simp add: FSM_Restore_def decode_map_def FSM_Snapshot_def m(1) del: json_text.simps)
qed

lemma replay_append: "replay num f (xs @ ys) = Option.bind (replay num f xs) (\<lambda>g. replay num g ys)"
  by (induction xs arbitrary: f) (auto split: option.split prod.split)

section \<open>Properties\<close>

lemma replay_New:
  assumes "num_law num" and "list_all command_ok cs"
  obtains f where "replay num NewFSM (map command_text cs) = Some f" and "fsm_inv num f"
    and "FSM_Get f = foldl kv_spec Map.empty (log_calls num cs)"
proof -
  note r = replay_calls [OF assms fsm_inv_New]
  have "FSM_Get NewFSM = Map.empty" by (simp add: FSM_Get_def NewFSM_def fun_eq_iff)
  then show thesis
    using r kv.kv_run_correct [OF fsm_inv_New conjunct2 [OF r]] that by simp
qed

text \<open>
  C3. A replica that applies a log of commands never panics, and what it answers for every key is
  what the commands say one after the other: the value of the last set, as decoding it gives
  it, unless a deletion came later.  A command whose value does not decode changes nothing.
\<close>

theorem replica_follows_log:
  assumes "num_law num" and "list_all command_ok cs"
  shows "\<exists>f. replay num NewFSM (map command_text cs) = Some f \<and> fsm_inv num f
    \<and> FSM_Get f = foldl kv_spec Map.empty (log_calls num cs)"
  by (rule replay_New [OF assms]) blast

lemma num_law_Some: "num_law Some"
  by (simp add: num_law_def)

lemma replica_follows_log_witness:
  "\<exists>f. replay Some NewFSM (map command_text
      [\<lparr>cmd_Op = OpSet, cmd_Key = ''key'', cmd_Value = JStr ''op''\<rparr>, \<lparr>cmd_Op = OpDelete, cmd_Key = ''op'', cmd_Value = JNull\<rparr>]) = Some f
    \<and> FSM_Get f ''key'' = Some (JStr ''op'') \<and> FSM_Get f ''op'' = None"
proof -
  let ?cs = "[\<lparr>cmd_Op = OpSet, cmd_Key = ''key'', cmd_Value = JStr ''op''\<rparr>, \<lparr>cmd_Op = OpDelete, cmd_Key = ''op'', cmd_Value = JNull\<rparr>]"
  have "list_all command_ok ?cs" by (simp add: command_ok_def OpSet_def OpDelete_def)
  from replica_follows_log [OF num_law_Some this] show ?thesis
    by (auto simp: log_calls_def entry_calls_def)
qed

text \<open>
  C16. A snapshot stands for the log before it: a fresh replica that restores the persisted snapshot
  of a replica and then applies the rest of the log ends in the same state as one that applied
  the whole log.
\<close>

theorem snapshot_replaces_log:
  assumes "num_law num" and "list_all command_ok (cs @ ds)"
    and "replay num NewFSM (map command_text cs) = Some f"
    and "Persist (FSM_Snapshot f) True = (SinkClosed bytes, True)"
  shows "snd (FSM_Restore num g bytes)
    \<and> replay num (fst (FSM_Restore num g bytes)) (map command_text ds)
      = replay num NewFSM (map command_text (cs @ ds))"
proof -
  have "fsm_inv num f"
    using replay_New [OF assms(1), of cs] assms(2,3) by auto
  then have "FSM_Restore num g bytes = (f, True)"
    using restore_snapshot [of num f g] assms(4) by (simp add: Persist_def)
  then show ?thesis by (simp add: replay_append assms(3))
qed

lemma snapshot_replaces_log_witness:
  "replay Some (fst (FSM_Restore Some None (json_text (JObj (map_members (FSM_Snapshot
        (the (replay Some NewFSM (map command_text [\<lparr>cmd_Op = OpSet, cmd_Key = ''key'', cmd_Value = JStr ''op''\<rparr>])))))))))
      (map command_text [\<lparr>cmd_Op = OpDelete, cmd_Key = ''op'', cmd_Value = JNull\<rparr>])
    = replay Some NewFSM (map command_text
        [\<lparr>cmd_Op = OpSet, cmd_Key = ''key'', cmd_Value = JStr ''op''\<rparr>, \<lparr>cmd_Op = OpDelete, cmd_Key = ''op'', cmd_Value = JNull\<rparr>])"
proof -
  let ?c = "\<lparr>cmd_Op = OpSet, cmd_Key = ''key'', cmd_Value = JStr ''op''\<rparr>"
  let ?d = "\<lparr>cmd_Op = OpDelete, cmd_Key = ''op'', cmd_Value = JNull\<rparr>"
  have ok: "list_all command_ok ([?c] @ [?d])" by (simp add: command_ok_def OpSet_def OpDelete_def)
  have "list_all command_ok [?c]" using ok by simp
  then obtain f where f: "replay Some NewFSM (map command_text [?c]) = Some f"
    using replay_calls [OF num_law_Some _ fsm_inv_New, of "[?c]"] by blast
  show ?thesis
    using snapshot_replaces_log [OF num_law_Some ok f, of _ None] unfolding f by (simp add: Persist_def)
qed

text \<open>
  When \<open>Set\<close> succeeds on the leader, every replica that has applied the log reads the value
  as decoding it gives it; when the value does not decode (a number beyond \<open>float64\<close>),
  \<open>Set\<close> reports success all the same and no replica's data changes.
\<close>

theorem set_then_get:
  assumes "num_law num" and "list_all command_ok cs" and "utf8_ok key" and "json_ok v"
    and "RaftNode_Set leader commit (map command_text cs) key (Some v) = (es, None)"
    and "replay num NewFSM (map command_text cs) = Some f"
  shows "\<exists>f'. replay num NewFSM es = Some f'
    \<and> FSM_Get f' key = (case json_any num v of Some v' \<Rightarrow> Some v' | None \<Rightarrow> FSM_Get f key)
    \<and> (\<forall>k. k \<noteq> key \<longrightarrow> FSM_Get f' k = FSM_Get f k)"
proof -
  let ?c = "\<lparr>cmd_Op = OpSet, cmd_Key = key, cmd_Value = v\<rparr>"
  have es: "es = map command_text (cs @ [?c])"
    using assms(5) by (auto simp: RaftNode_Set_def RaftNode_Apply_def split: if_splits)
  have ok: "command_ok ?c" using assms(3,4) by (simp add: command_ok_def OpSet_def)
  have inv: "fsm_inv num f" using replay_New [OF assms(1,2)] assms(6) by auto
  have step: "replay num f [command_text ?c] = Some (foldl kv.kv_step f (entry_calls num ?c))"
    by (simp add: FSM_Apply_entry [OF assms(1) ok inv])
  have "FSM_Get (foldl kv.kv_step f (entry_calls num ?c)) = foldl kv_spec (FSM_Get f) (entry_calls num ?c)"
    using kv.kv_run_correct [OF inv entry_calls_ok [OF assms(1) ok]] by blast
  moreover have "replay num NewFSM es = Some (foldl kv.kv_step f (entry_calls num ?c))"
    using step by (simp add: es replay_append assms(6) del: replay.simps(2))
  ultimately show ?thesis by (auto simp: entry_calls_def split: option.split)
qed

lemma set_then_get_witness:
  "\<exists>f'. replay (\<lambda>n. None) NewFSM (fst (RaftNode_Set True True [] ''key'' (Some (JNum ''1e999'')))) = Some f'
    \<and> FSM_Get f' ''key'' = None \<and> snd (RaftNode_Set True True [] ''key'' (Some (JNum ''1e999''))) = None"
proof -
  have law: "num_law (\<lambda>n. None)" by (simp add: num_law_def)
  have ok: "json_ok (JNum ''1e999'')"
    by (simp add: num_ok_def valid_num_def valid_int_def valid_frac_def valid_exp_def num_char_def is_digit_def code_def)
  have r: "RaftNode_Set True True (map command_text []) ''key'' (Some (JNum ''1e999''))
      = ([command_text \<lparr>cmd_Op = OpSet, cmd_Key = ''key'', cmd_Value = JNum ''1e999''\<rparr>], None)"
    by (simp add: RaftNode_Set_def RaftNode_Apply_def)
  from set_then_get [OF law _ _ ok r] show ?thesis
    using r by (auto simp: FSM_Get_def NewFSM_def)
qed

text \<open>
  What raft documents of membership changes: removal takes out the server with the ID; adding a
  voter adds it with its address, or changes the address of the server with the ID.
\<close>

definition raft_api_ok :: "raft_api \<Rightarrow> bool" where
  "raft_api_ok api \<longleftrightarrow>
     (\<forall>cur i cur'. ra_RemoveServer api cur i = Some cur' \<longrightarrow> set cur' = {s \<in> set cur. fst s \<noteq> i})
     \<and> (\<forall>cur i a cur'. ra_AddVoter api cur i a = Some cur' \<longrightarrow>
          set cur' = insert (i, a) {s \<in> set cur. fst s \<noteq> i})"

lemma remove_others:
  "raft_api_ok api \<Longrightarrow> ra_RemoveServer api cur i = Some c \<Longrightarrow> {s \<in> set c. fst s \<noteq> i} = {s \<in> set cur. fst s \<noteq> i}"
  unfolding raft_api_ok_def by blast

lemma join_loop_others:
  assumes "raft_api_ok api"
  shows "(\<forall>cur'. join_loop api cur i a srvs = Inr cur' \<longrightarrow> {s \<in> set cur'. fst s \<noteq> i} = {s \<in> set cur. fst s \<noteq> i})
    \<and> (\<forall>cur'. join_loop api cur i a srvs = Inl (cur', None) \<longrightarrow> (i, a) \<in> set srvs)"
proof (induction srvs arbitrary: cur)
  case (Cons s srvs)
  show ?case
  proof (cases "fst s = i \<and> snd s \<noteq> a")
    case True
    show ?thesis
    proof (cases "ra_RemoveServer api cur i")
      case None
      then show ?thesis using True by simp
    next
      case (Some c)
      have l: "join_loop api cur i a (s # srvs) = join_loop api c i a srvs" using True Some by simp
      show ?thesis unfolding l using Cons.IH [of c] remove_others [OF assms Some] by auto
    qed
  next
    case False
    show ?thesis
    proof (cases "fst s = i")
      case True
      then have "s = (i, a)" using False by (cases s) simp
      then show ?thesis by simp
    next
      case ne: False
      then have l: "join_loop api cur i a (s # srvs) = join_loop api cur i a srvs" by simp
      show ?thesis unfolding l using Cons.IH [of cur] by auto
    qed
  qed
qed simp

lemma join_loop_member:
  assumes "distinct (map fst srvs)" and "join_loop api cur i a srvs = Inl (cur', None)"
  shows "cur' = cur"
  using assms
proof (induction srvs arbitrary: cur)
  case (Cons s srvs)
  have "fst s \<noteq> i \<Longrightarrow> ?case" using Cons by simp
  moreover have "cur' = cur" if s: "fst s = i"
  proof (rule ccontr)
    assume ne: "cur' \<noteq> cur"
    then obtain c where c: "ra_RemoveServer api cur i = Some c" "join_loop api c i a srvs = Inl (cur', None)"
      using Cons.prems(2) s by (auto split: if_splits option.splits)
    have "i \<notin> fst ` set srvs" using Cons.prems(1) s by auto
    then have "join_loop api c i a srvs = Inr c" for c
      by (induction srvs arbitrary: c) auto
    then show False using c by simp
  qed
  ultimately show ?case by blast
qed simp

text \<open>
  After a successful \<open>Join\<close> the node is in the cluster with the given address and no other,
  and the other servers are as before; joining again changes nothing.
\<close>

theorem join_makes_member:
  assumes "raft_api_ok api" and "distinct (map fst cur)"
    and "RaftNode_Join api leader config_ok cur i a = (cur', None)"
  shows "{s \<in> set cur'. fst s = i} = {(i, a)} \<and> {s \<in> set cur'. fst s \<noteq> i} = {s \<in> set cur. fst s \<noteq> i}
    \<and> (distinct (map fst cur') \<longrightarrow> RaftNode_Join api True True cur' i a = (cur', None))"
proof -
  have again: "join_loop api c i a srvs = Inl (c, None)" if "distinct (map fst srvs)" "(i, a) \<in> set srvs" for c srvs
    using that by (induction srvs) (auto simp: image_iff)
  have mem: "{s \<in> set cur'. fst s = i} = {(i, a)} \<and> {s \<in> set cur'. fst s \<noteq> i} = {s \<in> set cur. fst s \<noteq> i}"
  proof (cases "join_loop api cur i a cur")
    case (Inl r)
    then have r: "r = (cur', None)" using assms(3) by (auto simp: RaftNode_Join_def split: if_splits)
    have "cur' = cur" using join_loop_member [OF assms(2)] Inl r by blast
    moreover have m: "(i, a) \<in> set cur" using join_loop_others [OF assms(1)] Inl r by blast
    have u: "b = a" if "(i, b) \<in> set cur" for b
      using assms(2) that m by (rule eq_key_imp_eq_value)
    have "(s \<in> set cur \<and> fst s = i) = (s = (i, a))" for s
      using u [of "snd s"] m by (cases s) fastforce
    then have "{s \<in> set cur. fst s = i} = {(i, a)}" by simp
    ultimately show ?thesis by blast
  next
    case (Inr c)
    then have "ra_AddVoter api c i a = Some cur'"
      using assms(3) by (auto simp: RaftNode_Join_def split: if_splits option.splits)
    then have "set cur' = insert (i, a) {s \<in> set c. fst s \<noteq> i}" using assms(1) unfolding raft_api_ok_def by blast
    moreover have "{s \<in> set c. fst s \<noteq> i} = {s \<in> set cur. fst s \<noteq> i}"
      using join_loop_others [OF assms(1), of cur i a cur] Inr by blast
    ultimately show ?thesis by auto
  qed
  moreover have "RaftNode_Join api True True cur' i a = (cur', None)" if "distinct (map fst cur')"
  proof -
    have "(i, a) \<in> set cur'" using mem by blast
    from again [OF that this] show ?thesis by (simp add: RaftNode_Join_def)
  qed
  ultimately show ?thesis by blast
qed

definition list_raft :: raft_api where
  "list_raft = \<lparr>ra_RemoveServer = (\<lambda>cur i. Some (filter (\<lambda>s. fst s \<noteq> i) cur)),
     ra_AddVoter = (\<lambda>cur i a. Some (filter (\<lambda>s. fst s \<noteq> i) cur @ [(i, a)]))\<rparr>"

lemma join_makes_member_witness:
  "{s \<in> set (fst (RaftNode_Join list_raft True True [(''n1'', ''h:1''), (''n2'', ''h:2'')] ''n2'' ''h:9'')). fst s = ''n2''}
     = {(''n2'', ''h:9'')}"
proof -
  have "raft_api_ok list_raft" by (auto simp: raft_api_ok_def list_raft_def)
  moreover have "RaftNode_Join list_raft True True [(''n1'', ''h:1''), (''n2'', ''h:2'')] ''n2'' ''h:9''
      = ([(''n1'', ''h:1''), (''n2'', ''h:9'')], None)"
    by (simp add: RaftNode_Join_def list_raft_def)
  ultimately show ?thesis
    using join_makes_member [of list_raft "[(''n1'', ''h:1''), (''n2'', ''h:2'')]" True True "''n2''" "''h:9''"] by simp
qed

end
