(* ===== verification/RaftCluster.thy ===== *)
theory RaftCluster
  imports RaftFsm
begin

text \<open>
  The node of \<open>internal/consensus/raft.go\<close> as its callers see it, and a cluster of such nodes:
  each applies the committed log at its own pace, writes and loads snapshots, crashes and
  restarts.  What the library promises is that there is one log and that it calls \<open>Apply\<close> with
  its entries in order, from the index of the snapshot that was restored.
\<close>

section \<open>The node\<close>

text \<open>The states of the library, and what it answers to the node; \<open>'r\<close> is its own state.\<close>

datatype raft_state = Follower | Candidate | Leader | Shutdown

definition RetainSnapshotCount :: int where "RetainSnapshotCount = 2"
definition RaftTimeout :: duration where "RaftTimeout = 10 * second"

record 'r raft_lib =
  rl_State :: "'r \<Rightarrow> raft_state"
  rl_LeaderWithID :: "'r \<Rightarrow> string \<times> string"
  rl_Stats :: "'r \<Rightarrow> string \<rightharpoonup> string"
  rl_Shutdown :: "'r \<Rightarrow> 'r \<times> bool"
  rl_Snapshot :: "'r \<Rightarrow> 'r \<times> bool"

record 'r raft_node =
  rf_raft :: 'r
  rf_fsm :: fsm
  rf_nodeID :: string
  rf_raftDir :: string
  rf_raftBind :: string

definition RaftNode_Get :: "'r raft_node \<Rightarrow> string \<Rightarrow> json option" where
  "RaftNode_Get n key = FSM_Get (rf_fsm n) key"

definition RaftNode_GetAll :: "'r raft_node \<Rightarrow> (string, json) mapping" where
  "RaftNode_GetAll n = FSM_GetAll (rf_fsm n)"

definition IsLeader :: "'r raft_lib \<Rightarrow> 'r raft_node \<Rightarrow> bool" where
  "IsLeader lib n \<longleftrightarrow> rl_State lib (rf_raft n) = Leader"

definition LeaderAddr :: "'r raft_lib \<Rightarrow> 'r raft_node \<Rightarrow> string" where
  "LeaderAddr lib n = fst (rl_LeaderWithID lib (rf_raft n))"

definition RaftNode_State :: "'r raft_lib \<Rightarrow> 'r raft_node \<Rightarrow> raft_state" where
  "RaftNode_State lib n = rl_State lib (rf_raft n)"

definition RaftNode_Stats :: "'r raft_lib \<Rightarrow> 'r raft_node \<Rightarrow> string \<rightharpoonup> string" where
  "RaftNode_Stats lib n = rl_Stats lib (rf_raft n)"

definition RaftNode_Shutdown :: "'r raft_lib \<Rightarrow> 'r raft_node \<Rightarrow> 'r raft_node \<times> bool" where
  "RaftNode_Shutdown lib n = (case rl_Shutdown lib (rf_raft n) of (r, ok) \<Rightarrow> (n\<lparr>rf_raft := r\<rparr>, ok))"

definition RaftNode_Snapshot :: "'r raft_lib \<Rightarrow> 'r raft_node \<Rightarrow> 'r raft_node \<times> bool" where
  "RaftNode_Snapshot lib n = (case rl_Snapshot lib (rf_raft n) of (r, ok) \<Rightarrow> (n\<lparr>rf_raft := r\<rparr>, ok))"

section \<open>A cluster\<close>

text \<open>
  A replica has applied the first \<open>rp_index\<close> entries, and may have a snapshot on its disk with the
  number of entries it stands for.
\<close>

record replica =
  rp_index :: nat
  rp_fsm :: fsm
  rp_disk :: "(nat \<times> bytes) option"

record raft_cluster =
  rc_log :: "bytes list"
  rc_replica :: "string \<Rightarrow> replica"

definition new_replica :: replica where
  "new_replica = \<lparr>rp_index = 0, rp_fsm = NewFSM, rp_disk = None\<rparr>"

definition new_cluster :: raft_cluster where
  "new_cluster = \<lparr>rc_log = [], rc_replica = (\<lambda>i. new_replica)\<rparr>"

text \<open>
  What happens in a cluster: a node proposes a command, a replica applies its next entry, writes
  a snapshot, starts again from its disk, or takes over the snapshot of another replica that
  the leader sends it.  A replica that is only asked to do what it cannot stays as it is.
\<close>

datatype cluster_act =
    Propose bool bool command | ApplyNext string | TakeSnapshot string bool | Restart string
  | InstallSnapshot string string

definition apply_next :: "(string \<Rightarrow> string option) \<Rightarrow> bytes list \<Rightarrow> replica \<Rightarrow> replica option" where
  "apply_next num entries r =
     (if rp_index r < length entries
      then map_option (\<lambda>(f, ok). r\<lparr>rp_index := rp_index r + 1, rp_fsm := f\<rparr>)
             (FSM_Apply num (rp_fsm r) (entries ! rp_index r))
      else Some r)"

definition take_snapshot :: "bool \<Rightarrow> replica \<Rightarrow> replica" where
  "take_snapshot write_ok r =
     (case Persist (FSM_Snapshot (rp_fsm r)) write_ok of
        (SinkClosed bs, True) \<Rightarrow> r\<lparr>rp_disk := Some (rp_index r, bs)\<rparr>
      | _ \<Rightarrow> r)"

text \<open>Loading a snapshot into a state machine; an error keeps the state and its index.\<close>

definition load_snapshot :: "(string \<Rightarrow> string option) \<Rightarrow> nat \<times> bytes \<Rightarrow> replica \<Rightarrow> replica" where
  "load_snapshot num s r =
     (case FSM_Restore num (rp_fsm r) (snd s) of
        (f, True) \<Rightarrow> r\<lparr>rp_index := fst s, rp_fsm := f\<rparr>
      | (f, False) \<Rightarrow> r\<lparr>rp_fsm := f\<rparr>)"

definition restart :: "(string \<Rightarrow> string option) \<Rightarrow> replica \<Rightarrow> replica" where
  "restart num r =
     (let r0 = r\<lparr>rp_index := 0, rp_fsm := NewFSM\<rparr>
      in case rp_disk r of None \<Rightarrow> r0 | Some s \<Rightarrow> load_snapshot num s r0)"

definition install_snapshot :: "(string \<Rightarrow> string option) \<Rightarrow> replica \<Rightarrow> replica \<Rightarrow> replica" where
  "install_snapshot num from r = (case rp_disk from of None \<Rightarrow> r | Some s \<Rightarrow> load_snapshot num s r)"

fun cluster_step :: "(string \<Rightarrow> string option) \<Rightarrow> raft_cluster \<Rightarrow> cluster_act \<Rightarrow> raft_cluster option" where
  "cluster_step num c (Propose leader commit cmd) =
     Some (c\<lparr>rc_log := fst (RaftNode_Apply leader commit (rc_log c) (Some cmd))\<rparr>)"
| "cluster_step num c (ApplyNext i) =
     map_option (\<lambda>r. c\<lparr>rc_replica := (rc_replica c)(i := r)\<rparr>) (apply_next num (rc_log c) (rc_replica c i))"
| "cluster_step num c (TakeSnapshot i ok) =
     Some (c\<lparr>rc_replica := (rc_replica c)(i := take_snapshot ok (rc_replica c i))\<rparr>)"
| "cluster_step num c (Restart i) =
     Some (c\<lparr>rc_replica := (rc_replica c)(i := restart num (rc_replica c i))\<rparr>)"
| "cluster_step num c (InstallSnapshot i j) =
     Some (c\<lparr>rc_replica := (rc_replica c)(i := install_snapshot num (rc_replica c j) (rc_replica c i))\<rparr>)"

fun cluster_run :: "(string \<Rightarrow> string option) \<Rightarrow> raft_cluster \<Rightarrow> cluster_act list \<Rightarrow> raft_cluster option" where
  "cluster_run num c [] = Some c"
| "cluster_run num c (a # as) = Option.bind (cluster_step num c a) (\<lambda>c'. cluster_run num c' as)"

section \<open>Replicas stand for prefixes of the log\<close>

text \<open>A log that was written by encoding commands, and the state its first entries lead to.\<close>

definition log_ok :: "bytes list \<Rightarrow> bool" where
  "log_ok es \<longleftrightarrow> (\<exists>cs. es = map command_text cs \<and> list_all command_ok cs)"

definition state_at :: "(string \<Rightarrow> string option) \<Rightarrow> bytes list \<Rightarrow> nat \<Rightarrow> fsm \<Rightarrow> bool" where
  "state_at num es n f \<longleftrightarrow> n \<le> length es \<and> fsm_inv num f \<and> replay num NewFSM (take n es) = Some f"

definition snapshot_at :: "(string \<Rightarrow> string option) \<Rightarrow> bytes list \<Rightarrow> nat \<times> bytes \<Rightarrow> bool" where
  "snapshot_at num es s \<longleftrightarrow>
     (\<exists>f. state_at num es (fst s) f \<and> snd s = json_text (JObj (map_members (FSM_Snapshot f))))"

definition replica_ok :: "(string \<Rightarrow> string option) \<Rightarrow> bytes list \<Rightarrow> replica \<Rightarrow> bool" where
  "replica_ok num es r \<longleftrightarrow> state_at num es (rp_index r) (rp_fsm r) \<and> (\<forall>s. rp_disk r = Some s \<longrightarrow> snapshot_at num es s)"

definition cluster_ok :: "(string \<Rightarrow> string option) \<Rightarrow> raft_cluster \<Rightarrow> bool" where
  "cluster_ok num c \<longleftrightarrow> log_ok (rc_log c) \<and> (\<forall>i. replica_ok num (rc_log c) (rc_replica c i))"

lemma state_at_grows: "state_at num es n f \<Longrightarrow> state_at num (es @ ds) n f"
  by (simp add: state_at_def)

lemma replica_ok_grows: "replica_ok num es r \<Longrightarrow> replica_ok num (es @ ds) r"
  unfolding replica_ok_def snapshot_at_def using state_at_grows by blast

lemma log_ok_snoc: "log_ok es \<Longrightarrow> command_ok c \<Longrightarrow> log_ok (es @ [command_text c])"
proof -
  assume "log_ok es" "command_ok c"
  then obtain cs where "es @ [command_text c] = map command_text (cs @ [c])" "list_all command_ok (cs @ [c])"
    by (auto simp: log_ok_def)
  then show ?thesis
    unfolding log_ok_def by blast
qed

lemma state_at_New: "state_at num es 0 NewFSM"
  by (simp add: state_at_def fsm_inv_New)

lemma state_at_next:
  assumes "num_law num" "log_ok es" "state_at num es n f" "n < length es"
  obtains g ok where "FSM_Apply num f (es ! n) = Some (g, ok)" and "state_at num es (Suc n) g"
proof -
  obtain cs where cs: "es = map command_text cs" "list_all command_ok cs"
    using assms(2) by (auto simp: log_ok_def)
  have "n < length cs" "command_ok (cs ! n)"
    using cs assms(4) by (simp_all add: list_all_length)
  then obtain g ok where g: "FSM_Apply num f (es ! n) = Some (g, ok)"
    using FSM_Apply_entry [OF assms(1), of "cs ! n" f] assms(3) by (auto simp: cs(1) state_at_def)
  have rep: "replay num NewFSM (take (Suc n) es) = Some g"
    using assms(3) g by (simp add: take_Suc_conv_app_nth [OF assms(4)] replay_append state_at_def)
  obtain h where "replay num NewFSM (map command_text (take (Suc n) cs)) = Some h" "fsm_inv num h"
    using replay_New [OF assms(1), of "take (Suc n) cs"] cs(2) by (metis list_all_append append_take_drop_id)
  then have "fsm_inv num g"
    using rep by (simp add: cs(1) take_map)
  with g rep assms(4) that show thesis
    by (simp add: state_at_def)
qed

lemma load_snapshot_at:
  assumes "snapshot_at num es s"
  shows "\<exists>f. load_snapshot num s r = r\<lparr>rp_index := fst s, rp_fsm := f\<rparr> \<and> state_at num es (fst s) f"
proof -
  obtain f where f: "state_at num es (fst s) f" "snd s = json_text (JObj (map_members (FSM_Snapshot f)))"
    using assms by (auto simp: snapshot_at_def)
  then have "FSM_Restore num (rp_fsm r) (snd s) = (f, True)"
    using restore_snapshot [of num f "rp_fsm r"] by (simp add: state_at_def)
  then show ?thesis
    using f(1) by (auto simp: load_snapshot_def)
qed

lemma apply_next_ok:
  assumes "num_law num" "log_ok es" "replica_ok num es r"
  obtains r' where "apply_next num es r = Some r'" and "replica_ok num es r'"
proof (cases "rp_index r < length es")
  case True
  obtain g ok where "FSM_Apply num (rp_fsm r) (es ! rp_index r) = Some (g, ok)" "state_at num es (Suc (rp_index r)) g"
    using state_at_next [OF assms(1,2) _ True] assms(3) by (auto simp: replica_ok_def)
  then show thesis
    using that assms(3) True by (simp add: apply_next_def replica_ok_def)
next
  case False
  then show thesis
    using that assms(3) by (simp add: apply_next_def)
qed

lemma take_snapshot_ok: "replica_ok num es r \<Longrightarrow> replica_ok num es (take_snapshot ok r)"
  by (cases ok) (auto simp: replica_ok_def take_snapshot_def Persist_def snapshot_at_def simp del: json_text.simps)

lemma load_snapshot_ok:
  assumes "replica_ok num es r" "snapshot_at num es s"
  shows "replica_ok num es (load_snapshot num s r)"
proof -
  obtain f where "load_snapshot num s r = r\<lparr>rp_index := fst s, rp_fsm := f\<rparr>" "state_at num es (fst s) f"
    using load_snapshot_at [OF assms(2)] by blast
  then show ?thesis
    using assms(1) by (simp add: replica_ok_def)
qed

lemma restart_ok:
  assumes "replica_ok num es r"
  shows "replica_ok num es (restart num r)"
proof -
  have "replica_ok num es (r\<lparr>rp_index := 0, rp_fsm := NewFSM\<rparr>)"
    using assms by (simp add: replica_ok_def state_at_New)
  then show ?thesis
    using assms by (cases "rp_disk r") (simp_all add: restart_def load_snapshot_ok replica_ok_def [of num es r])
qed

lemma install_snapshot_ok: "replica_ok num es from \<Longrightarrow> replica_ok num es r \<Longrightarrow> replica_ok num es (install_snapshot num from r)"
  by (cases "rp_disk from") (simp_all add: install_snapshot_def load_snapshot_ok replica_ok_def [of num es "from"])

text \<open>Only well-formed commands are proposed: their texts are valid UTF-8 and their values JSON.\<close>

fun act_ok :: "cluster_act \<Rightarrow> bool" where
  "act_ok (Propose leader commit cmd) = command_ok cmd"
| "act_ok _ = True"

lemma cluster_step_ok:
  assumes "num_law num" "cluster_ok num c" "act_ok a"
  obtains c' where "cluster_step num c a = Some c'" and "cluster_ok num c'"
proof (cases a)
  case (Propose leader commit cmd)
  then show thesis
    using that assms(2,3) log_ok_snoc replica_ok_grows by (auto simp: cluster_ok_def RaftNode_Apply_def)
next
  case (ApplyNext i)
  obtain r where "apply_next num (rc_log c) (rc_replica c i) = Some r" "replica_ok num (rc_log c) r"
    using apply_next_ok [OF assms(1), of "rc_log c" "rc_replica c i"] assms(2) by (auto simp: cluster_ok_def)
  then show thesis
    using that assms(2) by (simp add: ApplyNext cluster_ok_def)
qed (use that assms(2) take_snapshot_ok restart_ok install_snapshot_ok in \<open>auto simp: cluster_ok_def\<close>)

lemma cluster_run_ok:
  assumes "num_law num" "cluster_ok num c" "list_all act_ok as"
  obtains c' where "cluster_run num c as = Some c'" and "cluster_ok num c'"
proof -
  have "\<exists>c'. cluster_run num c as = Some c' \<and> cluster_ok num c'"
    using assms(2,3)
  proof (induction as arbitrary: c)
    case (Cons a as)
    then obtain c1 where "cluster_step num c a = Some c1" "cluster_ok num c1"
      using cluster_step_ok [OF assms(1) Cons.prems(1), of a] by auto
    with Cons show ?case
      by simp
  qed simp
  then show thesis
    using that by blast
qed

lemma new_cluster_ok: "cluster_ok num new_cluster"
  by (simp add: cluster_ok_def new_cluster_def new_replica_def replica_ok_def state_at_New log_ok_def)

text \<open>
  C6. Whatever the nodes of a cluster propose, apply, snapshot, restart and install, in any order,
  no replica panics, and each holds exactly the state to which the entries up to its index
  lead: two replicas at the same index agree on every key, however they got there, and a
  replica answers for a key what the commands up to its index say.
\<close>

theorem replicas_agree:
  assumes "num_law num" "list_all act_ok as"
  shows "\<exists>c cs. cluster_run num new_cluster as = Some c \<and> rc_log c = map command_text cs
    \<and> (\<forall>i. rp_index (rc_replica c i) \<le> length cs
         \<and> FSM_Get (rp_fsm (rc_replica c i)) = foldl kv_spec Map.empty (log_calls num (take (rp_index (rc_replica c i)) cs)))
    \<and> (\<forall>i j. rp_index (rc_replica c i) = rp_index (rc_replica c j) \<longrightarrow>
         rp_fsm (rc_replica c i) = rp_fsm (rc_replica c j))"
proof -
  obtain c where c: "cluster_run num new_cluster as = Some c" "cluster_ok num c"
    using cluster_run_ok [OF assms(1) new_cluster_ok assms(2)] .
  obtain cs where cs: "rc_log c = map command_text cs" "list_all command_ok cs"
    using c(2) by (auto simp: cluster_ok_def log_ok_def)
  have at: "state_at num (map command_text cs) (rp_index (rc_replica c i)) (rp_fsm (rc_replica c i))" for i
    using c(2) by (simp add: cluster_ok_def replica_ok_def cs(1))
  have "rp_index (rc_replica c i) \<le> length cs
      \<and> FSM_Get (rp_fsm (rc_replica c i)) = foldl kv_spec Map.empty (log_calls num (take (rp_index (rc_replica c i)) cs))" for i
  proof -
    have "list_all command_ok (take (rp_index (rc_replica c i)) cs)"
      using cs(2) by (metis list_all_append append_take_drop_id)
    then show ?thesis
      using replay_New [OF assms(1), of "take (rp_index (rc_replica c i)) cs"] at [of i]
      by (auto simp: state_at_def take_map)
  qed
  moreover have "rp_fsm (rc_replica c i) = rp_fsm (rc_replica c j)"
    if "rp_index (rc_replica c i) = rp_index (rc_replica c j)" for i j
    using at [of i] at [of j] that by (simp add: state_at_def)
  ultimately show ?thesis
    using c(1) cs(1) by blast
qed

theorem replicas_agree_witness:
  "\<exists>c. cluster_run Some new_cluster
      [Propose True True \<lparr>cmd_Op = OpSet, cmd_Key = ''key'', cmd_Value = JStr ''op''\<rparr>, ApplyNext ''a'', TakeSnapshot ''a'' True,
       InstallSnapshot ''b'' ''a'', Restart ''a''] = Some c
    \<and> (rp_index (rc_replica c ''a'') = rp_index (rc_replica c ''b'') \<longrightarrow> rp_fsm (rc_replica c ''a'') = rp_fsm (rc_replica c ''b''))"
proof -
  have "list_all act_ok [Propose True True \<lparr>cmd_Op = OpSet, cmd_Key = ''key'', cmd_Value = JStr ''op''\<rparr>, ApplyNext ''a'',
      TakeSnapshot ''a'' True, InstallSnapshot ''b'' ''a'', Restart ''a'']"
    by (simp add: command_ok_def OpSet_def)
  from replicas_agree [OF num_law_Some this] show ?thesis
    by blast
qed

end
