(* ===== verification/FileSys.thy ===== *)
theory FileSys
  imports Prelude "HOL-Library.AList" "HOL-Library.List_Lexorder" "HOL-Library.Char_ord"
begin

text \<open>
  The part of \<open>path/filepath\<close> and \<open>os\<close> that the storage and the configuration use: lexical
  path operations, and a file system as a list of files and directories under their resolved
  paths, lists of names from the root.  Paths resolve lexically from the working directory;
  there are no symbolic links.  \<open>fs_allow\<close> says which paths the process may touch, \<open>fs_io\<close> holds
  the outcomes of the coming writes (when it is empty, they succeed); a write that fails
  writes nothing.
\<close>

section \<open>Paths\<close>

fun split_path :: "string \<Rightarrow> string list" where
  "split_path [] = [[]]"
| "split_path (c # cs) =
     (if c = CHR ''/'' then [] # split_path cs
      else (case split_path cs of [] \<Rightarrow> [[c]] | w # ws \<Rightarrow> (c # w) # ws))"

definition rooted :: "string \<Rightarrow> bool" where
  "rooted p \<longleftrightarrow> p \<noteq> [] \<and> hd p = CHR ''/''"

definition clean_step :: "bool \<Rightarrow> string list \<Rightarrow> string \<Rightarrow> string list" where
  "clean_step r acc c =
     (if c = [] \<or> c = ''.'' then acc
      else if c = ''..'' then
        (if acc \<noteq> [] \<and> last acc \<noteq> ''..'' then butlast acc else if r then acc else acc @ [c])
      else acc @ [c])"

text \<open>\<open>filepath.Clean\<close>, \<open>filepath.Join\<close>, \<open>filepath.Base\<close> and \<open>filepath.Dir\<close>.\<close>

definition Clean :: "string \<Rightarrow> string" where
  "Clean p =
     (let cs = foldl (clean_step (rooted p)) [] (split_path p)
      in if rooted p then CHR ''/'' # join_with ''/'' cs
         else if cs = [] then ''.'' else join_with ''/'' cs)"

definition Join :: "string list \<Rightarrow> string" where
  "Join ps = (let qs = filter (\<lambda>p. p \<noteq> []) ps in if qs = [] then [] else Clean (join_with ''/'' qs))"

definition Base :: "string \<Rightarrow> string" where
  "Base p =
     (if p = [] then ''.''
      else (let q = rev (dropWhile (\<lambda>c. c = CHR ''/'') (rev p))
            in if q = [] then ''/'' else rev (takeWhile (\<lambda>c. c \<noteq> CHR ''/'') (rev q))))"

definition Dir :: "string \<Rightarrow> string" where
  "Dir p = Clean (rev (dropWhile (\<lambda>c. c \<noteq> CHR ''/'') (rev p)))"

section \<open>The file system\<close>

type_synonym path = "string list"

record fs =
  fs_files :: "(path \<times> bytes) list"
  fs_dirs :: "path list"
  fs_cwd :: path
  fs_allow :: "path \<Rightarrow> bool"
  fs_io :: "bool list"

definition walk :: "path \<Rightarrow> string \<Rightarrow> path" where
  "walk acc c = (if c = [] \<or> c = ''.'' then acc else if c = ''..'' then butlast acc else acc @ [c])"

definition resolve :: "fs \<Rightarrow> string \<Rightarrow> path" where
  "resolve fs p = foldl walk (if rooted p then [] else fs_cwd fs) (split_path p)"

abbreviation file_at :: "fs \<Rightarrow> path \<Rightarrow> bytes option" where
  "file_at fs \<equiv> map_of (fs_files fs)"

definition file_name :: "string \<Rightarrow> bool" where
  \<comment> \<open>a path the system takes for the name of a file\<close>
  "file_name p \<longleftrightarrow> p \<noteq> [] \<and> CHR 0x00 \<notin> set p \<and> last p \<noteq> CHR ''/''"

definition os_ReadFile :: "fs \<Rightarrow> string \<Rightarrow> bytes option" where
  "os_ReadFile fs p =
     (if file_name p \<and> fs_allow fs (resolve fs p) then file_at fs (resolve fs p) else None)"

definition os_Stat :: "fs \<Rightarrow> string \<Rightarrow> bool" where
  "os_Stat fs p \<longleftrightarrow> p \<noteq> [] \<and> CHR 0x00 \<notin> set p \<and>
     (resolve fs p \<in> set (fs_dirs fs) \<or> last p \<noteq> CHR ''/'' \<and> file_at fs (resolve fs p) \<noteq> None)"

text \<open>\<open>os.Create\<close> gives the path that the handle stands for.\<close>

definition os_Create :: "fs \<Rightarrow> string \<Rightarrow> (fs \<times> path) option" where
  "os_Create fs p =
     (let q = resolve fs p
      in if file_name p \<and> fs_allow fs q \<and> q \<noteq> [] \<and> q \<notin> set (fs_dirs fs) \<and> butlast q \<in> set (fs_dirs fs)
         then Some (fs\<lparr>fs_files := AList.update q [] (fs_files fs)\<rparr>, q) else None)"

definition fs_append :: "fs \<Rightarrow> path \<Rightarrow> bytes \<Rightarrow> fs \<times> bool" where
  "fs_append fs q d =
     (let fs' = fs\<lparr>fs_io := tl (fs_io fs)\<rparr>
      in if fs_io fs \<noteq> [] \<and> \<not> hd (fs_io fs) then (fs', False)
         else (fs'\<lparr>fs_files := AList.update q ((case file_at fs q of None \<Rightarrow> [] | Some b \<Rightarrow> b) @ d) (fs_files fs)\<rparr>, True))"

definition os_WriteFile :: "fs \<Rightarrow> string \<Rightarrow> bytes \<Rightarrow> fs \<times> bool" where
  "os_WriteFile fs p d =
     (case os_Create fs p of None \<Rightarrow> (fs, False) | Some (fs', q) \<Rightarrow> fs_append fs' q d)"

text \<open>\<open>os.Remove\<close> removes a file or an empty directory.\<close>

definition os_Remove :: "fs \<Rightarrow> string \<Rightarrow> fs \<times> bool" where
  "os_Remove fs p =
     (let q = resolve fs p
      in if p = [] \<or> CHR 0x00 \<in> set p \<or> \<not> fs_allow fs q then (fs, False)
         else if last p \<noteq> CHR ''/'' \<and> file_at fs q \<noteq> None
           then (fs\<lparr>fs_files := AList.delete q (fs_files fs)\<rparr>, True)
         else if q \<in> set (fs_dirs fs) \<and> q \<noteq> []
             \<and> list_all (\<lambda>r. r = [] \<or> butlast r \<noteq> q) (map fst (fs_files fs) @ fs_dirs fs)
           then (fs\<lparr>fs_dirs := filter (\<lambda>r. r \<noteq> q) (fs_dirs fs)\<rparr>, True)
         else (fs, False))"

text \<open>\<open>os.Rename\<close> of a file.\<close>

definition os_Rename :: "fs \<Rightarrow> string \<Rightarrow> string \<Rightarrow> fs \<times> bool" where
  "os_Rename fs p p' =
     (let q = resolve fs p; q' = resolve fs p'
      in case os_ReadFile fs p of
           None \<Rightarrow> (fs, False)
         | Some d \<Rightarrow>
             if file_name p' \<and> fs_allow fs q' \<and> q' \<noteq> [] \<and> q' \<notin> set (fs_dirs fs) \<and> butlast q' \<in> set (fs_dirs fs)
             then (fs\<lparr>fs_files := AList.update q' d (AList.delete q (fs_files fs))\<rparr>, True)
             else (fs, False))"

text \<open>\<open>os.MkdirAll\<close> creates the missing directories from the top, up to the first that fails.\<close>

definition mkdir_step :: "fs \<times> bool \<Rightarrow> path \<Rightarrow> fs \<times> bool" where
  "mkdir_step r q =
     (case r of (fs, ok) \<Rightarrow>
       if \<not> ok then (fs, False)
       else if q \<in> set (fs_dirs fs) then (fs, True)
       else if file_at fs q \<noteq> None \<or> \<not> fs_allow fs q then (fs, False)
       else (fs\<lparr>fs_dirs := q # fs_dirs fs\<rparr>, True))"

definition os_MkdirAll :: "fs \<Rightarrow> string \<Rightarrow> fs \<times> bool" where
  "os_MkdirAll fs p =
     (if p = [] \<or> CHR 0x00 \<in> set p then (fs, False)
      else foldl mkdir_step (fs, True) (map (\<lambda>n. take (Suc n) (resolve fs p)) [0..<length (resolve fs p)]))"

text \<open>\<open>os.ReadDir\<close>: the names in a directory, sorted.\<close>

definition os_ReadDir :: "fs \<Rightarrow> string \<Rightarrow> string list option" where
  "os_ReadDir fs p =
     (let q = resolve fs p
      in if p \<noteq> [] \<and> CHR 0x00 \<notin> set p \<and> q \<in> set (fs_dirs fs) \<and> fs_allow fs q
         then Some (sort (remdups (map last
           (filter (\<lambda>r. r \<noteq> [] \<and> butlast r = q) (map fst (fs_files fs) @ fs_dirs fs)))))
         else None)"

section \<open>Resolution\<close>

definition name_ok :: "string \<Rightarrow> bool" where
  "name_ok c \<longleftrightarrow> c \<noteq> [] \<and> c \<noteq> ''.'' \<and> c \<noteq> ''..'' \<and> CHR ''/'' \<notin> set c"

lemma split_path_not_Nil [simp]: "split_path p \<noteq> []"
  by (cases p) (simp_all split: list.split)

lemma split_path_no_slash: "c \<in> set (split_path p) \<Longrightarrow> CHR ''/'' \<notin> set c"
proof (induction p arbitrary: c)
  case (Cons x p)
  obtain w ws where "split_path p = w # ws" by (cases "split_path p") simp_all
  then show ?case using Cons by (auto split: if_splits)
qed simp

lemma split_path_single: "CHR ''/'' \<notin> set c \<Longrightarrow> split_path c = [c]"
  by (induction c) auto

lemma split_path_app: "split_path (p @ CHR ''/'' # q) = split_path p @ split_path q"
proof (induction p)
  case (Cons x p)
  obtain w ws where "split_path p = w # ws" by (cases "split_path p") simp_all
  then show ?case using Cons by simp
qed simp

lemma split_path_join: "cs \<noteq> [] \<Longrightarrow> \<forall>c\<in>set cs. CHR ''/'' \<notin> set c \<Longrightarrow> split_path (join_with ''/'' cs) = cs"
proof (induction "''/''" cs rule: join_with.induct)
  case (3 x y xs)
  then show ?case by (simp add: split_path_app split_path_single)
qed (simp_all add: split_path_single)

lemma walk_skip [simp]: "walk acc [] = acc" "walk acc ''.'' = acc" "walk acc ''..'' = butlast acc"
  by (simp_all add: walk_def)

lemma walk_name [simp]: "name_ok c \<Longrightarrow> walk acc c = acc @ [c]"
  by (simp add: walk_def name_ok_def)

text \<open>Cleaning a path does not change where it leads.\<close>

definition clean_inv :: "bool \<Rightarrow> string list \<Rightarrow> bool" where
  "clean_inv r cs \<longleftrightarrow> (\<forall>c\<in>set cs. CHR ''/'' \<notin> set c \<and> c \<noteq> [] \<and> c \<noteq> ''.'') \<and> (r \<longrightarrow> ''..'' \<notin> set cs)"

lemma clean_step_inv: "clean_inv r acc \<Longrightarrow> CHR ''/'' \<notin> set c \<Longrightarrow> clean_inv r (clean_step r acc c)"
  by (auto simp: clean_inv_def clean_step_def dest: in_set_butlastD)

lemma clean_step_walk:
  assumes "clean_inv r acc" and "r \<longrightarrow> start = []"
  shows "foldl walk start (clean_step r acc c) = walk (foldl walk start acc) c"
proof (cases "c = ''..'' \<and> acc \<noteq> []")
  case True
  then obtain as a where acc: "acc = as @ [a]" by (meson rev_exhaust)
  show ?thesis
  proof (cases "a = ''..''")
    case False
    then have "walk x a = x @ [a]" for x using assms(1) by (auto simp: clean_inv_def acc walk_def)
    then show ?thesis using True False by (simp add: clean_step_def acc)
  next
    case a: True
    then have "\<not> r" using assms(1) by (auto simp: clean_inv_def acc)
    then show ?thesis using True a by (simp add: clean_step_def acc)
  qed
next
  case False
  then show ?thesis using assms(2) by (cases "c = ''..''") (auto simp: clean_step_def walk_def)
qed

lemma clean_fold:
  assumes "r \<longrightarrow> start = []" and "\<forall>c\<in>set cs. CHR ''/'' \<notin> set c"
  shows "clean_inv r (foldl (clean_step r) [] cs)
    \<and> foldl walk start (foldl (clean_step r) [] cs) = foldl walk start cs"
  using assms(2)
proof (induction cs rule: rev_induct)
  case Nil
  then show ?case by (simp add: clean_inv_def)
next
  case (snoc c cs)
  then show ?case using clean_step_inv clean_step_walk [OF _ assms(1)] by simp
qed

lemma rooted_join: "cs \<noteq> [] \<Longrightarrow> hd cs \<noteq> [] \<Longrightarrow> rooted (join_with ''/'' cs) = rooted (hd cs)"
  by (cases cs; cases "tl cs") (auto simp: rooted_def)

lemma resolve_Clean [simp]: "resolve fs (Clean p) = resolve fs p"
proof -
  let ?cs = "foldl (clean_step (rooted p)) [] (split_path p)"
  let ?start = "if rooted p then [] else fs_cwd fs"
  have f: "clean_inv (rooted p) ?cs" "foldl walk ?start ?cs = resolve fs p"
    using clean_fold [of "rooted p" ?start "split_path p"] split_path_no_slash by (auto simp: resolve_def)
  show ?thesis
  proof (cases "?cs = []")
    case True
    then show ?thesis
    proof (cases "rooted p")
      case True
      then show ?thesis using f(2) \<open>?cs = []\<close> by (simp add: Clean_def resolve_def rooted_def)
    next
      case False
      have "split_path ''.'' = [''.'']" by simp
      then show ?thesis
        using f(2) \<open>?cs = []\<close> False by (simp add: Clean_def resolve_def rooted_def [of "''.''"])
    qed
  next
    case False
    then have s: "split_path (join_with ''/'' ?cs) = ?cs"
      using f(1) by (intro split_path_join) (auto simp: clean_inv_def)
    have "hd ?cs \<in> set ?cs" using False by simp
    then have h: "CHR ''/'' \<notin> set (hd ?cs)" "hd ?cs \<noteq> []" using f(1) unfolding clean_inv_def by blast+
    then have "\<not> rooted (hd ?cs)" by (cases "hd ?cs") (auto simp: rooted_def)
    then have nr: "\<not> rooted (join_with ''/'' ?cs)" using rooted_join [OF False h(2)] by simp
    show ?thesis
    proof (cases "rooted p")
      case True
      have "Clean p = CHR ''/'' # join_with ''/'' ?cs" using True by (simp add: Clean_def)
      moreover have "rooted (CHR ''/'' # join_with ''/'' ?cs)" by (simp add: rooted_def)
      ultimately have "resolve fs (Clean p) = foldl walk [] ?cs" by (simp add: resolve_def s)
      then show ?thesis using f(2) True by simp
    next
      case nonroot: False
      have "Clean p = join_with ''/'' ?cs" using nonroot False by (simp add: Clean_def)
      then have "resolve fs (Clean p) = foldl walk (fs_cwd fs) ?cs" using nr by (simp add: resolve_def s)
      then show ?thesis using f(2) nonroot by simp
    qed
  qed
qed

lemma resolve_Join:
  assumes "n \<noteq> []" and "d = [] \<longrightarrow> \<not> rooted n"
  shows "resolve fs (Join [d, n]) = foldl walk (resolve fs d) (split_path n)"
proof (cases "d = []")
  case True
  then have "Join [d, n] = Clean n" using assms by (simp add: Join_def)
  moreover have "resolve fs d = fs_cwd fs" using True by (simp add: resolve_def rooted_def)
  ultimately show ?thesis using assms True by (simp add: resolve_def [of fs n])
next
  case False
  then have "rooted (d @ CHR ''/'' # n) = rooted d" by (simp add: rooted_def)
  moreover have "Join [d, n] = Clean (d @ CHR ''/'' # n)" using assms False by (simp add: Join_def)
  ultimately show ?thesis by (simp add: resolve_def [of fs "d @ _"] resolve_def [of fs d] split_path_app)
qed

lemma name_not_rooted: "name_ok n \<Longrightarrow> \<not> rooted n"
  by (cases n) (auto simp: name_ok_def rooted_def)

lemma resolve_Join_name [simp]: "name_ok n \<Longrightarrow> resolve fs (Join [d, n]) = resolve fs d @ [n]"
  using name_not_rooted [of n]
  by (subst resolve_Join) (auto simp: name_ok_def split_path_single walk_def)

lemma resolve_cwd: "fs_cwd fs = fs_cwd fs' \<Longrightarrow> resolve fs p = resolve fs' p"
  by (simp add: resolve_def)

lemma resolve_upd [simp]:
  "resolve (fs\<lparr>fs_files := f\<rparr>) p = resolve fs p" "resolve (fs\<lparr>fs_dirs := ds\<rparr>) p = resolve fs p"
  "resolve (fs\<lparr>fs_io := io\<rparr>) p = resolve fs p"
  by (simp_all add: resolve_def)

text \<open>Climbing out of a directory: enough \<open>..\<close> lead to the root.\<close>

lemma walk_dotdots: "foldl walk q (replicate n ''..'') = take (length q - n) q"
  by (induction n arbitrary: q) (simp_all add: butlast_conv_take min_def)

lemma walk_names: "list_all name_ok cs \<Longrightarrow> foldl walk q cs = q @ cs"
  by (induction cs arbitrary: q) simp_all

section \<open>File names\<close>

lemma join_with_snoc: "cs \<noteq> [] \<Longrightarrow> join_with sep (cs @ [c]) = join_with sep cs @ sep @ c"
  by (induction sep cs rule: join_with.induct) simp_all

lemma set_join_with: "set (join_with ''/'' cs) \<subseteq> insert (CHR ''/'') (\<Union> (set ` set cs))"
  by (induction "''/''" cs rule: join_with.induct) auto

lemma set_split_path: "c \<in> set (split_path p) \<Longrightarrow> set c \<subseteq> set p"
proof (induction p arbitrary: c)
  case (Cons x p)
  obtain w ws where "split_path p = w # ws" by (cases "split_path p") simp_all
  then have "set w \<subseteq> set p" "\<forall>c\<in>set ws. set c \<subseteq> set p" using Cons.IH by simp_all
  then show ?case using Cons.prems \<open>split_path p = w # ws\<close> by (auto split: if_splits)
qed simp

lemma set_clean_fold: "\<Union> (set ` set (foldl (clean_step r) acc cs)) \<subseteq> \<Union> (set ` set acc) \<union> \<Union> (set ` set cs)"
proof (induction cs rule: rev_induct)
  case (snoc c cs)
  have "\<Union> (set ` set (clean_step r acc' c)) \<subseteq> \<Union> (set ` set acc') \<union> set c" for acc'
    by (auto simp: clean_step_def dest: in_set_butlastD)
  then show ?case using snoc by fastforce
qed simp

lemma file_name_Join_path:
  assumes "n \<noteq> []" and "name_ok (last (split_path n))" and "CHR 0x00 \<notin> set n" and "CHR 0x00 \<notin> set d"
  shows "file_name (Join [d, n])"
proof -
  define c where "c = last (split_path n)"
  define p where "p = (if d = [] then n else d @ CHR ''/'' # n)"
  have J: "Join [d, n] = Clean p" using assms(1) by (simp add: Join_def p_def)
  obtain bs where "split_path n = bs @ [c]" using append_butlast_last_id [of "split_path n"] by (metis c_def split_path_not_Nil)
  then have "split_path p = (if d = [] then bs else split_path d @ bs) @ [c]" by (simp add: p_def split_path_app)
  then obtain ds where sp: "split_path p = ds @ [c]" by blast
  let ?cs = "foldl (clean_step (rooted p)) [] ds"
  have cs: "foldl (clean_step (rooted p)) [] (split_path p) = ?cs @ [c]"
    using assms(2) by (simp add: sp clean_step_def name_ok_def c_def [symmetric])
  have "\<exists>q. Clean p = q @ c"
    using join_with_snoc [of ?cs "''/''" c] by (cases "?cs = []") (auto simp: Clean_def cs Let_def intro: exI [of _ "[]"])
  then obtain q where q: "Clean p = q @ c" by blast
  have c: "name_ok c" using assms(2) by (simp add: c_def)
  then have "last c \<in> set c" by (simp add: name_ok_def)
  then have "last c \<noteq> CHR ''/''" using c unfolding name_ok_def by metis
  moreover have "CHR 0x00 \<notin> set (Clean p)"
  proof -
    have "\<Union> (set ` set (?cs @ [c])) \<subseteq> set p"
    proof -
      have "\<Union> (set ` set (split_path p)) \<subseteq> set p" using set_split_path [of _ p] by blast
      moreover have "\<Union> (set ` set (?cs @ [c])) \<subseteq> \<Union> (set ` set (split_path p))"
        using set_clean_fold [of "rooted p" "[]" "split_path p"] unfolding cs by simp
      ultimately show ?thesis by (rule subset_trans [rotated])
    qed
    then have "set (join_with ''/'' (?cs @ [c])) \<subseteq> insert (CHR ''/'') (set p)"
      using set_join_with [of "?cs @ [c]"] by blast
    then have "set (Clean p) \<subseteq> insert (CHR ''/'') (set p)" by (auto simp: Clean_def cs Let_def)
    moreover have "CHR 0x00 \<notin> set p" using assms(3,4) by (simp add: p_def)
    ultimately show ?thesis by auto
  qed
  ultimately show ?thesis using c by (simp add: J file_name_def q name_ok_def)
qed

lemma file_name_Join [simp]:
  assumes "name_ok n" and "CHR 0x00 \<notin> set n" and "CHR 0x00 \<notin> set d"
  shows "file_name (Join [d, n])"
proof -
  have "split_path n = [n]" using assms(1) by (intro split_path_single) (simp add: name_ok_def)
  then show ?thesis using assms by (intro file_name_Join_path) (simp_all add: name_ok_def)
qed

section \<open>What the operations change\<close>

definition writable :: "fs \<Rightarrow> path \<Rightarrow> bool" where
  "writable fs q \<longleftrightarrow> fs_allow fs q \<and> q \<noteq> [] \<and> q \<notin> set (fs_dirs fs) \<and> butlast q \<in> set (fs_dirs fs)"

text \<open>Two states of one tree: the same directories, permissions and working directory, and no write fails.\<close>

definition same_tree :: "fs \<Rightarrow> fs \<Rightarrow> bool" where
  "same_tree fs fs' \<longleftrightarrow> fs_dirs fs' = fs_dirs fs \<and> fs_cwd fs' = fs_cwd fs \<and> fs_allow fs' = fs_allow fs
     \<and> fs_io fs = [] \<and> fs_io fs' = []"

lemma same_treeD:
  assumes "same_tree fs fs'"
  shows "fs_dirs fs' = fs_dirs fs" "fs_allow fs' = fs_allow fs" "fs_cwd fs' = fs_cwd fs" "fs_io fs = []" "fs_io fs' = []"
    "resolve fs' p = resolve fs p" "writable fs' q = writable fs q"
  using assms by (simp_all add: same_tree_def resolve_def writable_def)

lemma same_tree_refl [simp]: "fs_io fs = [] \<Longrightarrow> same_tree fs fs"
  by (simp add: same_tree_def)

lemma same_tree_trans [trans]: "same_tree a b \<Longrightarrow> same_tree b c \<Longrightarrow> same_tree a c"
  by (simp add: same_tree_def)

lemma same_tree_files [simp]: "same_tree fs (fs\<lparr>fs_files := f\<rparr>) = (fs_io fs = [])"
  by (simp add: same_tree_def)

lemma os_ReadFile_at: "file_name p \<Longrightarrow> fs_allow fs (resolve fs p) \<Longrightarrow> os_ReadFile fs p = file_at fs (resolve fs p)"
  by (simp add: os_ReadFile_def)

lemma os_Create_ok:
  assumes "file_name p" and "writable fs (resolve fs p)"
  obtains fs' where "os_Create fs p = Some (fs', resolve fs p)"
    and "file_at fs' = (file_at fs)(resolve fs p \<mapsto> [])" and "fs_io fs = [] \<Longrightarrow> same_tree fs fs'"
  using assms that by (auto simp: os_Create_def writable_def update_conv' Let_def)

lemma fs_append_ok:
  assumes "fs_io fs = []" and "file_at fs q = Some b"
  obtains fs' where "fs_append fs q d = (fs', True)" and "file_at fs' = (file_at fs)(q \<mapsto> b @ d)" and "same_tree fs fs'"
  using assms that by (auto simp: fs_append_def update_conv' same_tree_def)

lemma os_WriteFile_ok:
  assumes "file_name p" and "writable fs (resolve fs p)" and "fs_io fs = []"
  obtains fs' where "os_WriteFile fs p d = (fs', True)"
    and "file_at fs' = (file_at fs)(resolve fs p \<mapsto> d)" and "same_tree fs fs'"
proof -
  obtain f where f: "os_Create fs p = Some (f, resolve fs p)" "file_at f = (file_at fs)(resolve fs p \<mapsto> [])" "same_tree fs f"
    using os_Create_ok [OF assms(1,2)] assms(3) by metis
  obtain f' where "fs_append f (resolve fs p) d = (f', True)" "file_at f' = (file_at f)(resolve fs p \<mapsto> [] @ d)" "same_tree f f'"
    using fs_append_ok [of f "resolve fs p" "[]" d] f same_treeD(5) [OF f(3)] by (metis fun_upd_same)
  then show thesis using f same_tree_trans [OF f(3)]
    by (intro that [of f']) (simp_all add: os_WriteFile_def fun_upd_def fun_eq_iff)
qed

text \<open>A write that reports success is read back, whatever else failed.\<close>

lemma os_WriteFile_read:
  assumes "os_WriteFile fs p d = (fs', True)"
  shows "os_ReadFile fs' p = Some d"
  using assms
  by (auto simp: os_WriteFile_def os_Create_def fs_append_def os_ReadFile_def resolve_def update_conv' Let_def
      split: if_splits)

lemma os_Remove_file:
  assumes "file_name p" and "fs_allow fs (resolve fs p)" and "file_at fs (resolve fs p) \<noteq> None" and "fs_io fs = []"
  obtains fs' where "os_Remove fs p = (fs', True)"
    and "file_at fs' = (file_at fs)(resolve fs p := None)" and "same_tree fs fs'"
  using assms that by (auto simp: os_Remove_def file_name_def delete_conv' Let_def)

lemma os_Rename_ok:
  assumes "file_name p" and "fs_allow fs (resolve fs p)" and "file_at fs (resolve fs p) = Some d"
    and "file_name p'" and "writable fs (resolve fs p')" and "fs_io fs = []"
  obtains fs' where "os_Rename fs p p' = (fs', True)"
    and "file_at fs' = (file_at fs)(resolve fs p := None, resolve fs p' \<mapsto> d)" and "same_tree fs fs'"
  using assms that
  by (auto simp: os_Rename_def os_ReadFile_at writable_def update_conv' delete_conv' Let_def)

end
