(* ===== verification/ContentSpec.thy ===== *)
theory ContentSpec
  imports Prelude
begin

text \<open>
  What a source of content promises to a client that assembles a file from parts: whoever holds
  the content of a name gives a description for it, and every part the description lists, in
  order.  The local storage and a remote peer behind the transfer protocol are two such
  sources.
\<close>

locale content_source =
  fixes get_meta :: "'h \<Rightarrow> 'm option"
    and parts :: "'m \<Rightarrow> 'k list"
    and get_part :: "'k \<Rightarrow> bytes option"
    and holds :: "'h \<Rightarrow> bytes \<Rightarrow> bool"
  assumes holds_parts: "holds h d \<Longrightarrow>
      \<exists>m bs. get_meta h = Some m \<and> map get_part (parts m) = map Some bs \<and> concat bs = d"
begin

fun fetch :: "'k list \<Rightarrow> bytes option" where
  "fetch [] = Some []"
| "fetch (k # ks) = (case get_part k of None \<Rightarrow> None | Some b \<Rightarrow> map_option ((@) b) (fetch ks))"

lemma fetch_parts: "map get_part ks = map Some bs \<Longrightarrow> fetch ks = Some (concat bs)"
proof (induction ks arbitrary: bs)
  case (Cons k ks)
  then obtain b bs' where "bs = b # bs'" "get_part k = Some b" "map get_part ks = map Some bs'" by (cases bs) auto
  then show ?case using Cons.IH by simp
qed simp

lemma holds_fetch: "holds h d \<Longrightarrow> \<exists>m. get_meta h = Some m \<and> fetch (parts m) = Some d"
  using holds_parts fetch_parts by metis

lemma fetch_SomeD:
  "fetch ks = Some d \<Longrightarrow> (\<forall>k\<in>set ks. get_part k = Some (the (get_part k))) \<and> d = concat (map (\<lambda>k. the (get_part k)) ks)"
  by (induction ks arbitrary: d) (auto split: option.splits)

lemma fetch_missing: "k \<in> set ks \<Longrightarrow> get_part k = None \<Longrightarrow> fetch ks = None"
  by (induction ks) (auto split: option.splits)

text \<open>A client that writes the parts it gets one after the other, with \<open>out\<close> as the writing.\<close>

fun copy_parts :: "('s \<Rightarrow> bytes \<Rightarrow> 's) \<Rightarrow> 's \<Rightarrow> 'k list \<Rightarrow> 's \<times> 'k option" where
  "copy_parts out s [] = (s, None)"
| "copy_parts out s (k # ks) =
     (case get_part k of None \<Rightarrow> (s, Some k) | Some b \<Rightarrow> copy_parts out (out s b) ks)"

lemma copy_fetch:
  assumes "fetch ks = Some d" and "\<And>s a b. out (out s a) b = out s (a @ b)" and "\<And>s. out s [] = s"
  shows "copy_parts out s ks = (out s d, None)"
  using assms(1)
proof (induction ks arbitrary: s d)
  case Nil
  then show ?case using assms(3) by simp
next
  case (Cons k ks)
  then show ?case using assms(2) by (auto split: option.splits)
qed

end

end
