(* ===== verification/FileStorage.thy ===== *)
theory FileStorage
  imports JsonDecode Sha256 FileSys ContentSpec
begin

text \<open>
  The content-addressed storage of \<open>internal/cloud/storage.go\<close>: files cut into chunks of
  256 KiB, stored under the hash of their content, beside one metadata file for each file.
  The content of a source file is what it was when it was opened, and a read of a regular file
  fills the buffer while the file lasts.  A nil slice and an empty one are both the empty list,
  written as \<open>null\<close>: the program writes no other empty slice.
\<close>

section \<open>Data\<close>

definition ChunkSize :: nat where
  "ChunkSize = 256 * 1024"

record storage =
  st_baseDir :: string
  st_chunksDir :: string
  st_metaDir :: string

record chunk =
  ck_Index :: int
  ck_Hash :: string
  ck_Size :: int

record file_metadata =
  fm_Hash :: string
  fm_Name :: string
  fm_Size :: int
  fm_ChunkCount :: int
  fm_Chunks :: "chunk list"

record file_info =
  fi_Hash :: string
  fi_Name :: string
  fi_Size :: int
  fi_ChunkCount :: int
  fi_LocalPath :: string

definition chunk_json :: "chunk \<Rightarrow> json" where
  "chunk_json c = JObj [(''index'', JNum (show_int (ck_Index c))), (''hash'', JStr (ck_Hash c)),
     (''size'', JNum (show_int (ck_Size c)))]"

definition meta_json :: "file_metadata \<Rightarrow> json" where
  "meta_json m = JObj [(''hash'', JStr (fm_Hash m)), (''name'', JStr (fm_Name m)),
     (''size'', JNum (show_int (fm_Size m))), (''chunk_count'', JNum (show_int (fm_ChunkCount m))),
     (''chunks'', if fm_Chunks m = [] then JNull else JArr (map chunk_json (fm_Chunks m)))]"

definition zero_chunk :: chunk where
  "zero_chunk = \<lparr>ck_Index = 0, ck_Hash = [], ck_Size = 0\<rparr>"

definition zero_meta :: file_metadata where
  "zero_meta = \<lparr>fm_Hash = [], fm_Name = [], fm_Size = 0, fm_ChunkCount = 0, fm_Chunks = []\<rparr>"

definition chunk_field :: "string \<Rightarrow> json \<Rightarrow> chunk \<Rightarrow> chunk option" where
  "chunk_field n j c =
     (if n = ''index'' then map_option (\<lambda>i. c\<lparr>ck_Index := i\<rparr>) (as_int64 j (ck_Index c))
      else if n = ''hash'' then map_option (\<lambda>s. c\<lparr>ck_Hash := s\<rparr>) (as_string j (ck_Hash c))
      else if n = ''size'' then map_option (\<lambda>i. c\<lparr>ck_Size := i\<rparr>) (as_int64 j (ck_Size c))
      else Some c)"

definition meta_field :: "string \<Rightarrow> json \<Rightarrow> file_metadata \<Rightarrow> file_metadata option" where
  "meta_field n j m =
     (if n = ''hash'' then map_option (\<lambda>s. m\<lparr>fm_Hash := s\<rparr>) (as_string j (fm_Hash m))
      else if n = ''name'' then map_option (\<lambda>s. m\<lparr>fm_Name := s\<rparr>) (as_string j (fm_Name m))
      else if n = ''size'' then map_option (\<lambda>i. m\<lparr>fm_Size := i\<rparr>) (as_int64 j (fm_Size m))
      else if n = ''chunk_count'' then map_option (\<lambda>i. m\<lparr>fm_ChunkCount := i\<rparr>) (as_int64 j (fm_ChunkCount m))
      else if n = ''chunks'' then
        map_option (\<lambda>cs. m\<lparr>fm_Chunks := cs\<rparr>)
          (as_list (\<lambda>c j. decode_struct chunk_field j c) zero_chunk j (fm_Chunks m))
      else Some m)"

definition decode_meta :: "bytes \<Rightarrow> file_metadata option" where
  "decode_meta data = Option.bind (json_parse data) (\<lambda>j. decode_struct meta_field j zero_meta)"

section \<open>Operations\<close>

definition NewFileStorage :: "fs \<Rightarrow> string \<Rightarrow> fs \<times> storage" where
  "NewFileStorage fs baseDir =
     (let chunksDir = Join [baseDir, ''chunks'']; metaDir = Join [baseDir, ''meta''];
          fs1 = fst (os_MkdirAll fs chunksDir);
          fs2 = fst (os_MkdirAll fs1 metaDir)
      in (fs2, \<lparr>st_baseDir = baseDir, st_chunksDir = chunksDir, st_metaDir = metaDir\<rparr>))"

definition chunk_path :: "storage \<Rightarrow> string \<Rightarrow> string" where
  "chunk_path st h = Join [st_chunksDir st, h]"

definition meta_path :: "storage \<Rightarrow> string \<Rightarrow> string" where
  "meta_path st h = Join [st_metaDir st, h @ ''.json'']"

definition content_hash :: "bytes \<Rightarrow> string" where
  "content_hash d = hex_encode (sha256 d)"

datatype storage_error =
    OpenFailed | HashFailed | ChunkWriteFailed | MetaWriteFailed
  | MetadataFailed | CreateFailed | ReadChunkFailed int | WriteChunkFailed int

text \<open>The chunk loop of \<open>Store\<close> on what is left of the file.\<close>

function store_chunks :: "storage \<Rightarrow> fs \<Rightarrow> int \<Rightarrow> bytes \<Rightarrow> fs \<times> chunk list option" where
  "store_chunks st fs index d =
     (if d = [] then (fs, Some [])
      else (let chunkData = take ChunkSize d; chunkHashStr = content_hash chunkData
            in case os_WriteFile fs (chunk_path st chunkHashStr) chunkData of
                 (fs', False) \<Rightarrow> (fs', None)
               | (fs', True) \<Rightarrow>
                   (case store_chunks st fs' (index + 1) (drop ChunkSize d) of
                      (fs'', cs) \<Rightarrow> (fs'', map_option ((#) \<lparr>ck_Index = index, ck_Hash = chunkHashStr,
                         ck_Size = int (length chunkData)\<rparr>) cs))))"
  by pat_completeness auto
termination
  by (relation "measure (\<lambda>(st, fs, index, d). length d)") (auto simp: ChunkSize_def)

declare store_chunks.simps [simp del]

definition Store :: "storage \<Rightarrow> fs \<Rightarrow> string \<Rightarrow> fs \<times> (storage_error + file_info)" where
  "Store st fs filePath =
     (case os_ReadFile fs filePath of
        None \<Rightarrow> (fs, Inl (if os_Stat fs filePath \<and> fs_allow fs (resolve fs filePath)
                         then HashFailed else OpenFailed))
      | Some d \<Rightarrow>
          (case store_chunks st fs 0 d of
             (fs1, None) \<Rightarrow> (fs1, Inl ChunkWriteFailed)
           | (fs1, Some cs) \<Rightarrow>
               (let fileHash = content_hash d;
                    meta = \<lparr>fm_Hash = fileHash, fm_Name = Base filePath, fm_Size = int (length d),
                      fm_ChunkCount = int (length cs), fm_Chunks = cs\<rparr>
                in case os_WriteFile fs1 (meta_path st fileHash) (json_indent (meta_json meta)) of
                     (fs2, False) \<Rightarrow> (fs2, Inl MetaWriteFailed)
                   | (fs2, True) \<Rightarrow>
                       (fs2, Inr \<lparr>fi_Hash = fileHash, fi_Name = fm_Name meta, fi_Size = fm_Size meta,
                          fi_ChunkCount = fm_ChunkCount meta, fi_LocalPath = filePath\<rparr>))))"

definition loadMetadata :: "storage \<Rightarrow> fs \<Rightarrow> string \<Rightarrow> file_metadata option" where
  "loadMetadata st fs hash = Option.bind (os_ReadFile fs (meta_path st hash)) decode_meta"

definition GetMetadata :: "storage \<Rightarrow> fs \<Rightarrow> string \<Rightarrow> file_metadata option" where
  "GetMetadata st fs hash = loadMetadata st fs hash"

definition GetChunk :: "storage \<Rightarrow> fs \<Rightarrow> string \<Rightarrow> bytes option" where
  "GetChunk st fs chunkHash = os_ReadFile fs (chunk_path st chunkHash)"

text \<open>The loop of \<open>Retrieve\<close> writes to the file that the handle stands for.\<close>

fun retrieve_chunks :: "storage \<Rightarrow> fs \<Rightarrow> path \<Rightarrow> chunk list \<Rightarrow> fs \<times> storage_error option" where
  "retrieve_chunks st fs out [] = (fs, None)"
| "retrieve_chunks st fs out (c # cs) =
     (case os_ReadFile fs (chunk_path st (ck_Hash c)) of
        None \<Rightarrow> (fs, Some (ReadChunkFailed (ck_Index c)))
      | Some chunkData \<Rightarrow>
          (case fs_append fs out chunkData of
             (fs', False) \<Rightarrow> (fs', Some (WriteChunkFailed (ck_Index c)))
           | (fs', True) \<Rightarrow> retrieve_chunks st fs' out cs))"

definition Retrieve :: "storage \<Rightarrow> fs \<Rightarrow> string \<Rightarrow> string \<Rightarrow> fs \<times> storage_error option" where
  "Retrieve st fs hash destPath =
     (case loadMetadata st fs hash of
        None \<Rightarrow> (fs, Some MetadataFailed)
      | Some meta \<Rightarrow>
          (case os_Create fs destPath of
             None \<Rightarrow> (fs, Some CreateFailed)
           | Some (fs', out) \<Rightarrow> retrieve_chunks st fs' out (fm_Chunks meta)))"

definition Exists :: "storage \<Rightarrow> fs \<Rightarrow> string \<Rightarrow> bool" where
  "Exists st fs hash = os_Stat fs (meta_path st hash)"

definition GetInfo :: "storage \<Rightarrow> fs \<Rightarrow> string \<Rightarrow> file_info option" where
  "GetInfo st fs hash =
     map_option (\<lambda>m. \<lparr>fi_Hash = fm_Hash m, fi_Name = fm_Name m, fi_Size = fm_Size m,
         fi_ChunkCount = fm_ChunkCount m, fi_LocalPath = []\<rparr>) (loadMetadata st fs hash)"

definition Storage_List :: "storage \<Rightarrow> fs \<Rightarrow> file_info list option" where
  "Storage_List st fs =
     map_option (\<lambda>names. List.map_filter
         (\<lambda>name. if path_ext name \<noteq> ''.json'' then None
                 else GetInfo st fs (take (length name - 5) name)) names)
       (os_ReadDir fs (st_metaDir st))"

definition Storage_Delete :: "storage \<Rightarrow> fs \<Rightarrow> string \<Rightarrow> fs \<times> bool" where
  "Storage_Delete st fs hash =
     (case loadMetadata st fs hash of
        None \<Rightarrow> (fs, False)
      | Some meta \<Rightarrow>
          os_Remove (foldl (\<lambda>f c. fst (os_Remove f (chunk_path st (ck_Hash c)))) fs (fm_Chunks meta))
            (meta_path st hash))"

section \<open>Metadata read back\<close>

definition chunk_ok :: "chunk \<Rightarrow> bool" where
  "chunk_ok c \<longleftrightarrow> in64 (ck_Index c) \<and> utf8_ok (ck_Hash c) \<and> in64 (ck_Size c)"

definition meta_ok :: "file_metadata \<Rightarrow> bool" where
  "meta_ok m \<longleftrightarrow> utf8_ok (fm_Hash m) \<and> utf8_ok (fm_Name m) \<and> in64 (fm_Size m)
     \<and> in64 (fm_ChunkCount m) \<and> list_all chunk_ok (fm_Chunks m)"

lemma storage_names [simp]: "fold_name ''index'' = ''index''" "fold_name ''hash'' = ''hash''" "fold_name ''size'' = ''size''"
  "fold_name ''name'' = ''name''" "fold_name ''chunk_count'' = ''chunk_count''" "fold_name ''chunks'' = ''chunks''"
  by (rule fold_name_plain, simp add: code_def)+

lemma storage_names_utf8 [simp]: "utf8_ok ''index''" "utf8_ok ''hash''" "utf8_ok ''size''"
  "utf8_ok ''name''" "utf8_ok ''chunk_count''" "utf8_ok ''chunks''"
  by (rule ascii_utf8, simp add: code_def)+

lemma decode_chunk_json: "chunk_ok c \<Longrightarrow> decode_struct chunk_field (chunk_json c) zero_chunk = Some c"
  by (cases c) (simp add: chunk_json_def decode_struct_def chunk_field_def chunk_ok_def zero_chunk_def decode_simps)

lemma decode_meta_json: "meta_ok m \<Longrightarrow> decode_struct meta_field (meta_json m) zero_meta = Some m"
proof -
  assume m: "meta_ok m"
  have cs: "merge_elems (\<lambda>c j. decode_struct chunk_field j c) zero_chunk [] (map chunk_json (fm_Chunks m)) = Some (fm_Chunks m)"
    using m by (intro merge_elems_fresh decode_chunk_json) (simp add: meta_ok_def list_all_iff)
  show ?thesis
    using m cs
    by (cases m) (simp add: meta_json_def decode_struct_def meta_field_def meta_ok_def zero_meta_def as_list_def decode_simps)
qed

lemma json_ok_meta: "meta_ok m \<Longrightarrow> json_ok (meta_json m)"
  by (auto simp: meta_json_def meta_ok_def chunk_json_def chunk_ok_def list_all_iff)

lemma decode_meta_indent [simp]: "meta_ok m \<Longrightarrow> decode_meta (json_indent (meta_json m)) = Some m"
  by (simp add: decode_meta_def json_parse_indent json_ok_meta decode_meta_json)

lemma decode_meta_text [simp]: "meta_ok m \<Longrightarrow> decode_meta (json_text (meta_json m)) = Some m"
  by (simp add: decode_meta_def json_parse_text json_ok_meta decode_meta_json)

section \<open>The storage as a source of content\<close>

function split_chunks :: "bytes \<Rightarrow> bytes list" where
  "split_chunks d = (if d = [] then [] else take ChunkSize d # split_chunks (drop ChunkSize d))"
  by pat_completeness auto
termination
  by (relation "measure length") (auto simp: ChunkSize_def)

declare split_chunks.simps [simp del]

lemma split_chunks_Nil [simp]: "split_chunks [] = []"
  by (simp add: split_chunks.simps)

lemma split_chunks_step: "d \<noteq> [] \<Longrightarrow> split_chunks d = take ChunkSize d # split_chunks (drop ChunkSize d)"
  by (simp add: split_chunks.simps)

lemma concat_split_chunks [simp]: "concat (split_chunks d) = d"
proof (induction d rule: split_chunks.induct)
  case (1 d)
  then show ?case by (cases "d = []") (simp_all add: split_chunks_step)
qed

lemma length_split_chunks: "length (split_chunks d) \<le> length d"
proof (induction d rule: split_chunks.induct)
  case (1 d)
  then show ?case by (cases d) (fastforce simp: split_chunks_step ChunkSize_def)+
qed

lemma split_chunks_single: "d \<noteq> [] \<Longrightarrow> length d \<le> ChunkSize \<Longrightarrow> split_chunks d = [d]"
  by (simp add: split_chunks_step)

lemma set_split_chunks_le: "c \<in> set (split_chunks d) \<Longrightarrow> length c \<le> ChunkSize \<and> length c \<le> length d"
proof (induction d rule: split_chunks.induct)
  case (1 d)
  then show ?case by (cases "d = []") (force simp: split_chunks_step)+
qed

fun chunk_list :: "int \<Rightarrow> bytes list \<Rightarrow> chunk list" where
  "chunk_list i [] = []"
| "chunk_list i (c # cs) = \<lparr>ck_Index = i, ck_Hash = content_hash c, ck_Size = int (length c)\<rparr> # chunk_list (i + 1) cs"

lemma chunk_list_hashes [simp]: "map ck_Hash (chunk_list i cs) = map content_hash cs"
  by (induction cs arbitrary: i) simp_all

lemma chunk_list_set: "ck_Hash ` set (chunk_list i cs) = content_hash ` set cs"
  using chunk_list_hashes [of i cs] by (metis set_map)

lemma length_chunk_list [simp]: "length (chunk_list i cs) = length cs"
  by (induction cs arbitrary: i) simp_all

lemma ascii_hash [simp]: "ascii (content_hash d)"
proof -
  have "\<forall>c\<in>set ''0123456789abcdef''. code c < 128" by (simp add: code_def)
  then show ?thesis using set_hex_encode [of "sha256 d"] by (auto simp: ascii_def list_all_iff content_hash_def)
qed

lemma hash_chars: "c \<in> set (content_hash d) \<Longrightarrow> c \<noteq> CHR ''/'' \<and> c \<noteq> CHR ''.'' \<and> c \<noteq> CHR 0x00"
  using set_hex_encode [of "sha256 d"] by (auto simp: content_hash_def)

lemma length_hash [simp]: "length (content_hash d) = 64"
  by (simp add: content_hash_def)

lemma name_ok_hash [simp]: "name_ok (content_hash d)" "name_ok (content_hash d @ ''.json'')"
  using hash_chars [of _ d] length_hash [of d] by (auto simp: name_ok_def simp del: length_hash)

lemma no_NUL_hash [simp]: "CHR 0x00 \<notin> set (content_hash d)"
  using hash_chars by blast

definition hash_name :: "string \<Rightarrow> bool" where
  \<comment> \<open>a string that names one file of the storage\<close>
  "hash_name h \<longleftrightarrow> name_ok h \<and> CHR 0x00 \<notin> set h"

lemma hash_name_json: "hash_name h \<Longrightarrow> name_ok (h @ ''.json'') \<and> CHR 0x00 \<notin> set (h @ ''.json'')"
  by (auto simp: hash_name_def name_ok_def)

lemma hash_name_hash [simp]: "hash_name (content_hash d)"
  by (simp add: hash_name_def)

lemma content_hash_eq: "content_hash c = content_hash d \<longleftrightarrow> sha256 c = sha256 d"
  by (simp add: content_hash_def)

lemma chunk_list_ok: "in64 (i + int (length cs)) \<Longrightarrow> 0 \<le> i \<Longrightarrow> \<forall>c\<in>set cs. int (length c) < 2 ^ 63 \<Longrightarrow>
    list_all chunk_ok (chunk_list i cs)"
proof (induction cs arbitrary: i)
  case (Cons c cs)
  have "list_all chunk_ok (chunk_list (i + 1) cs)" using Cons.prems by (intro Cons.IH) (auto simp: algebra_simps)
  moreover have "chunk_ok \<lparr>ck_Index = i, ck_Hash = content_hash c, ck_Size = int (length c)\<rparr>"
    using Cons.prems by (auto simp: chunk_ok_def in64_def)
  ultimately show ?case by simp
qed simp

definition metadata_of :: "string \<Rightarrow> bytes \<Rightarrow> file_metadata" where
  "metadata_of name d = \<lparr>fm_Hash = content_hash d, fm_Name = name, fm_Size = int (length d),
     fm_ChunkCount = int (length (split_chunks d)), fm_Chunks = chunk_list 0 (split_chunks d)\<rparr>"

lemma metadata_ok:
  assumes "utf8_ok name" and "int (length d) < 2 ^ 63"
  shows "meta_ok (metadata_of name d)"
proof -
  have n: "in64 (int (length (split_chunks d)))" using length_split_chunks [of d] assms(2) by (simp add: in64_def)
  have "int (length c) < 2 ^ 63" if "c \<in> set (split_chunks d)" for c
    using set_split_chunks_le [OF that] by (simp add: ChunkSize_def)
  then have "list_all chunk_ok (chunk_list 0 (split_chunks d))" using n by (intro chunk_list_ok) simp_all
  then show ?thesis using assms n by (simp add: meta_ok_def metadata_of_def in64_def)
qed

text \<open>
  A storage that can be used: its two directories are there and differ, hold files only, and
  may be touched.
\<close>

definition storage_ready :: "storage \<Rightarrow> fs \<Rightarrow> bool" where
  "storage_ready st fs \<longleftrightarrow> fs_io fs = []
     \<and> CHR 0x00 \<notin> set (st_chunksDir st) \<and> CHR 0x00 \<notin> set (st_metaDir st)
     \<and> resolve fs (st_chunksDir st) \<noteq> resolve fs (st_metaDir st)
     \<and> (\<forall>D\<in>{resolve fs (st_chunksDir st), resolve fs (st_metaDir st)}.
          D \<in> set (fs_dirs fs) \<and> (\<forall>n. D @ [n] \<notin> set (fs_dirs fs) \<and> fs_allow fs (D @ [n])))"

lemma storage_ready_tree: "same_tree fs fs' \<Longrightarrow> storage_ready st fs' = storage_ready st fs"
  by (simp add: storage_ready_def same_treeD)

definition chunk_at :: "storage \<Rightarrow> fs \<Rightarrow> string \<Rightarrow> path" where
  "chunk_at st fs h = resolve fs (st_chunksDir st) @ [h]"

definition meta_at :: "storage \<Rightarrow> fs \<Rightarrow> string \<Rightarrow> path" where
  "meta_at st fs h = resolve fs (st_metaDir st) @ [h @ ''.json'']"

lemma store_paths [simp]:
  assumes "hash_name h"
  shows "resolve fs (chunk_path st h) = chunk_at st fs h" "resolve fs (meta_path st h) = meta_at st fs h"
  using assms hash_name_json [OF assms] by (simp_all add: chunk_path_def meta_path_def chunk_at_def meta_at_def hash_name_def)

lemma store_names:
  assumes "storage_ready st fs" and "hash_name h"
  shows "file_name (chunk_path st h)" "file_name (meta_path st h)"
  using assms hash_name_json [OF assms(2)]
  by (simp_all add: storage_ready_def chunk_path_def meta_path_def hash_name_def)

lemma store_writable:
  assumes "storage_ready st fs"
  shows "writable fs (chunk_at st fs h)" "writable fs (meta_at st fs h)"
    "fs_allow fs (chunk_at st fs h)" "fs_allow fs (meta_at st fs h)"
  using assms by (simp_all add: storage_ready_def writable_def chunk_at_def meta_at_def)

lemma chunk_meta_differ: "storage_ready st fs \<Longrightarrow> chunk_at st fs h \<noteq> meta_at st fs h'"
  by (auto simp: storage_ready_def chunk_at_def meta_at_def)

lemma at_inject [simp]: "chunk_at st fs h = chunk_at st fs h' \<longleftrightarrow> h = h'" "meta_at st fs h = meta_at st fs h' \<longleftrightarrow> h = h'"
  by (simp_all add: chunk_at_def meta_at_def)

lemma at_tree:
  assumes "same_tree fs fs'"
  shows "chunk_at st fs' h = chunk_at st fs h" "meta_at st fs' h = meta_at st fs h"
  by (simp_all add: chunk_at_def meta_at_def same_treeD(6) [OF assms])

lemma store_reads:
  assumes "storage_ready st fs" and "hash_name h"
  shows "os_ReadFile fs (chunk_path st h) = file_at fs (chunk_at st fs h)"
    "os_ReadFile fs (meta_path st h) = file_at fs (meta_at st fs h)"
  using store_names [OF assms] store_writable(3,4) [OF assms(1)] assms(2) by (simp_all add: os_ReadFile_def)

text \<open>The storage holds a content: its metadata under its hash and each of its chunks.\<close>

definition holds :: "storage \<Rightarrow> fs \<Rightarrow> string \<Rightarrow> bytes \<Rightarrow> bool" where
  "holds st fs name d \<longleftrightarrow> storage_ready st fs \<and> utf8_ok name \<and> int (length d) < 2 ^ 63
     \<and> file_at fs (meta_at st fs (content_hash d)) = Some (json_indent (meta_json (metadata_of name d)))
     \<and> (\<forall>c\<in>set (split_chunks d). file_at fs (chunk_at st fs (content_hash c)) = Some c)"

lemma holds_loads: "holds st fs name d \<Longrightarrow> loadMetadata st fs (content_hash d) = Some (metadata_of name d)"
  by (auto simp: holds_def loadMetadata_def store_reads metadata_ok)

lemma holds_chunks:
  "holds st fs name d \<Longrightarrow> map (GetChunk st fs) (map content_hash (split_chunks d)) = map Some (split_chunks d)"
  by (auto simp: holds_def GetChunk_def store_reads)

interpretation local_files: content_source "GetMetadata st fs" "\<lambda>m. map ck_Hash (fm_Chunks m)" "GetChunk st fs"
    "\<lambda>h d. h = content_hash d \<and> (\<exists>name. holds st fs name d)" for st fs
proof unfold_locales
  fix h d assume "h = content_hash d \<and> (\<exists>name. holds st fs name d)"
  then obtain name where h: "h = content_hash d" "holds st fs name d" by blast
  have "map (GetChunk st fs) (map ck_Hash (fm_Chunks (metadata_of name d))) = map Some (split_chunks d)"
    using holds_chunks [OF h(2)] by (simp only: metadata_of_def file_metadata.simps chunk_list_hashes)
  then show "\<exists>m bs. GetMetadata st fs h = Some m
      \<and> map (GetChunk st fs) (map ck_Hash (fm_Chunks m)) = map Some bs \<and> concat bs = d"
    using holds_loads [OF h(2)] concat_split_chunks [of d] unfolding h(1) GetMetadata_def by blast
qed

section \<open>Storing\<close>

lemma store_chunks_ok:
  assumes "storage_ready st fs"
  obtains fs' where "store_chunks st fs i d = (fs', Some (chunk_list i (split_chunks d)))"
    and "same_tree fs fs'"
    and "\<And>q. q \<notin> (\<lambda>c. chunk_at st fs (content_hash c)) ` set (split_chunks d) \<Longrightarrow> file_at fs' q = file_at fs q"
    and "\<And>h. h \<in> content_hash ` set (split_chunks d) \<Longrightarrow>
      \<exists>c\<in>set (split_chunks d). content_hash c = h \<and> file_at fs' (chunk_at st fs h) = Some c"
  using assms
proof (induction d arbitrary: fs i thesis rule: split_chunks.induct)
  case (1 d)
  show ?case
  proof (cases "d = []")
    case True
    then show ?thesis using 1(2,3) by (auto simp: store_chunks.simps storage_ready_def)
  next
    case False
    let ?c = "take ChunkSize d"
    obtain f where f: "os_WriteFile fs (chunk_path st (content_hash ?c)) ?c = (f, True)"
        "file_at f = (file_at fs)(chunk_at st fs (content_hash ?c) \<mapsto> ?c)" "same_tree fs f"
      using os_WriteFile_ok [of "chunk_path st (content_hash ?c)" fs ?c] store_names [OF 1(3) hash_name_hash] store_writable [OF 1(3)] 1(3)
      by (auto simp: storage_ready_def)
    have at: "chunk_at st f h = chunk_at st fs h" for h by (rule at_tree(1) [OF f(3)])
    obtain f' where f': "store_chunks st f (i + 1) (drop ChunkSize d) = (f', Some (chunk_list (i + 1) (split_chunks (drop ChunkSize d))))"
        "same_tree f f'"
        "\<And>q. q \<notin> (\<lambda>c. chunk_at st f (content_hash c)) ` set (split_chunks (drop ChunkSize d)) \<Longrightarrow> file_at f' q = file_at f q"
        "\<And>h. h \<in> content_hash ` set (split_chunks (drop ChunkSize d)) \<Longrightarrow>
          \<exists>c\<in>set (split_chunks (drop ChunkSize d)). content_hash c = h \<and> file_at f' (chunk_at st f h) = Some c"
      using 1(1) [OF False, of f "i + 1"] 1(3) storage_ready_tree [OF f(3)] by metis
    show ?thesis
    proof (rule 1(2))
      show "store_chunks st fs i d = (f', Some (chunk_list i (split_chunks d)))"
        using False f(1) f'(1) by (subst store_chunks.simps) (simp add: split_chunks_step)
      show "same_tree fs f'" using f(3) f'(2) by (rule same_tree_trans)
      show "file_at f' q = file_at fs q" if "q \<notin> (\<lambda>c. chunk_at st fs (content_hash c)) ` set (split_chunks d)" for q
        using that f'(3) [of q] False by (simp add: split_chunks_step f(2) at)
      show "\<exists>c\<in>set (split_chunks d). content_hash c = h \<and> file_at f' (chunk_at st fs h) = Some c"
        if "h \<in> content_hash ` set (split_chunks d)" for h
      proof (cases "h \<in> content_hash ` set (split_chunks (drop ChunkSize d))")
        case True
        then show ?thesis using f'(4) [OF True] False by (auto simp: at split_chunks_step)
      next
        case no: False
        then have "h = content_hash ?c" using that False by (auto simp: split_chunks_step)
        moreover have "file_at f' (chunk_at st fs h) = file_at f (chunk_at st fs h)" using no by (intro f'(3)) (auto simp: at)
        ultimately show ?thesis using False by (auto simp: split_chunks_step f(2))
      qed
    qed
  qed
qed

definition collision_free :: "bytes set \<Rightarrow> bool" where
  "collision_free X \<longleftrightarrow> inj_on sha256 X"

definition blocks :: "bytes \<Rightarrow> bytes set" where
  \<comment> \<open>a content and its chunks: what is hashed when it is stored\<close>
  "blocks d = insert d (set (split_chunks d))"

lemma blocks_single: "length d \<le> ChunkSize \<Longrightarrow> blocks d = {d}"
  by (cases "d = []") (simp_all add: blocks_def split_chunks_single)

text \<open>
  Storing a content succeeds, makes the storage hold it, and leaves every file but its
  metadata and its chunks alone.
\<close>

lemma Store_ok:
  assumes "storage_ready st fs" and "os_ReadFile fs p = Some d" and "utf8_ok (Base p)" and "int (length d) < 2 ^ 63"
    and "collision_free (blocks d)"
  obtains fs' where "Store st fs p = (fs', Inr \<lparr>fi_Hash = content_hash d, fi_Name = Base p, fi_Size = int (length d),
        fi_ChunkCount = int (length (split_chunks d)), fi_LocalPath = p\<rparr>)"
    and "same_tree fs fs'" and "holds st fs' (Base p) d"
    and "\<And>q. q \<noteq> meta_at st fs (content_hash d) \<Longrightarrow> q \<notin> (\<lambda>c. chunk_at st fs (content_hash c)) ` set (split_chunks d) \<Longrightarrow>
      file_at fs' q = file_at fs q"
proof -
  let ?m = "metadata_of (Base p) d"
  obtain f where f: "store_chunks st fs 0 d = (f, Some (chunk_list 0 (split_chunks d)))" "same_tree fs f"
      "\<And>q. q \<notin> (\<lambda>c. chunk_at st fs (content_hash c)) ` set (split_chunks d) \<Longrightarrow> file_at f q = file_at fs q"
      "\<And>h. h \<in> content_hash ` set (split_chunks d) \<Longrightarrow>
        \<exists>c\<in>set (split_chunks d). content_hash c = h \<and> file_at f (chunk_at st fs h) = Some c"
    using store_chunks_ok [OF assms(1)] by metis
  have ready: "storage_ready st f" using assms(1) storage_ready_tree [OF f(2)] by simp
  note at = at_tree [OF f(2)]
  obtain f' where f': "os_WriteFile f (meta_path st (content_hash d)) (json_indent (meta_json ?m)) = (f', True)"
      "file_at f' = (file_at f)(meta_at st fs (content_hash d) \<mapsto> json_indent (meta_json ?m))" "same_tree f f'"
    using os_WriteFile_ok [of "meta_path st (content_hash d)" f "json_indent (meta_json ?m)"]
      store_names [OF ready hash_name_hash] store_writable [OF ready] ready
    by (auto simp: storage_ready_def at)
  have tree: "same_tree fs f'" using f(2) f'(3) by (rule same_tree_trans)
  have eq: "content_hash c = content_hash c' \<longleftrightarrow> c = c'" if "c \<in> blocks d" "c' \<in> blocks d" for c c'
    using assms(5) that by (auto simp: collision_free_def content_hash_eq inj_on_def)
  have chunks: "file_at f' (chunk_at st fs (content_hash c)) = Some c" if "c \<in> set (split_chunks d)" for c
    using f(4) [of "content_hash c"] that eq chunk_meta_differ [OF assms(1)] by (auto simp: f'(2) blocks_def)
  show thesis
  proof (rule that [OF _ tree])
    show "Store st fs p = (f', Inr \<lparr>fi_Hash = content_hash d, fi_Name = Base p, fi_Size = int (length d),
        fi_ChunkCount = int (length (split_chunks d)), fi_LocalPath = p\<rparr>)"
      using f'(1) by (simp add: Store_def assms(2) f(1) metadata_of_def Let_def)
    show "holds st f' (Base p) d"
      using chunks assms(1,3,4) storage_ready_tree [OF tree] by (simp add: holds_def at_tree [OF tree] f'(2))
    show "file_at f' q = file_at fs q" if "q \<noteq> meta_at st fs (content_hash d)"
      "q \<notin> (\<lambda>c. chunk_at st fs (content_hash c)) ` set (split_chunks d)" for q
      using that f(3) by (simp add: f'(2))
  qed
qed

lemma Store_keeps:
  assumes "holds st fs name e" and "os_ReadFile fs p = Some d" and "utf8_ok (Base p)" and "int (length d) < 2 ^ 63"
    and "collision_free (blocks d \<union> blocks e)"
  shows "\<exists>name. holds st (fst (Store st fs p)) name e"
proof -
  have ready: "storage_ready st fs" using assms(1) by (simp add: holds_def)
  have inj: "content_hash c = content_hash c' \<longleftrightarrow> c = c'" if "c \<in> blocks d \<union> blocks e" "c' \<in> blocks d \<union> blocks e" for c c'
    using assms(5) that by (auto simp: collision_free_def content_hash_eq inj_on_def)
  have "collision_free (blocks d)" using assms(5) by (auto simp: collision_free_def intro: inj_on_subset)
  then obtain fs' where s: "fst (Store st fs p) = fs'" "same_tree fs fs'" "holds st fs' (Base p) d"
      "\<And>q. q \<noteq> meta_at st fs (content_hash d) \<Longrightarrow> q \<notin> (\<lambda>c. chunk_at st fs (content_hash c)) ` set (split_chunks d) \<Longrightarrow>
        file_at fs' q = file_at fs q"
    using Store_ok [OF ready assms(2-4)] by (metis fst_conv)
  note at = at_tree [OF s(2)]
  show ?thesis
  proof (cases "d = e")
    case True
    then show ?thesis using s by auto
  next
    case False
    have "file_at fs' (meta_at st fs (content_hash e)) = file_at fs (meta_at st fs (content_hash e))"
      using False inj [of d e] chunk_meta_differ [OF ready, THEN not_sym] by (intro s(4)) (auto simp: blocks_def)
    moreover have "file_at fs' (chunk_at st fs (content_hash c)) = Some c" if c: "c \<in> set (split_chunks e)" for c
    proof (cases "c \<in> set (split_chunks d)")
      case True
      then show ?thesis using s(3) by (simp add: holds_def at)
    next
      case False
      then have "file_at fs' (chunk_at st fs (content_hash c)) = file_at fs (chunk_at st fs (content_hash c))"
        using inj [of c] c chunk_meta_differ [OF ready] by (intro s(4)) (auto simp: blocks_def)
      then show ?thesis using assms(1) c by (simp add: holds_def)
    qed
    ultimately have "holds st fs' name e"
      using assms(1) storage_ready_tree [OF s(2)] by (simp add: holds_def at)
    then show ?thesis using s(1) by blast
  qed
qed

text \<open>A path outside the two directories of the storage.\<close>

definition outside :: "storage \<Rightarrow> fs \<Rightarrow> string \<Rightarrow> bool" where
  "outside st fs p \<longleftrightarrow> butlast (resolve fs p) \<noteq> resolve fs (st_chunksDir st)
     \<and> butlast (resolve fs p) \<noteq> resolve fs (st_metaDir st)"

lemma outside_at: "outside st fs p \<Longrightarrow> resolve fs p \<noteq> chunk_at st fs h \<and> resolve fs p \<noteq> meta_at st fs h"
  by (auto simp: outside_def chunk_at_def meta_at_def)

lemma read_frame:
  assumes "same_tree fs fs'" and "file_at fs' (resolve fs p) = file_at fs (resolve fs p)"
  shows "os_ReadFile fs' p = os_ReadFile fs p"
  using assms(2) by (simp add: os_ReadFile_def same_treeD [OF assms(1)])

definition store_all :: "storage \<Rightarrow> fs \<Rightarrow> string list \<Rightarrow> fs" where
  "store_all st fs ps = foldl (\<lambda>f p. fst (Store st f p)) fs ps"

definition source_ok :: "storage \<Rightarrow> fs \<Rightarrow> string \<times> bytes \<Rightarrow> bool" where
  "source_ok st fs x \<longleftrightarrow> os_ReadFile fs (fst x) = Some (snd x) \<and> utf8_ok (Base (fst x))
     \<and> int (length (snd x)) < 2 ^ 63 \<and> outside st fs (fst x)"

lemma collision_free_subset: "collision_free Y \<Longrightarrow> X \<subseteq> Y \<Longrightarrow> collision_free X"
  by (auto simp: collision_free_def intro: inj_on_subset)

lemma store_all_holds:
  assumes "storage_ready st fs" and "list_all (source_ok st fs) xs" and "collision_free (\<Union>x\<in>set xs. blocks (snd x))"
  shows "same_tree fs (store_all st fs (map fst xs))
    \<and> (\<forall>p. outside st fs p \<longrightarrow> os_ReadFile (store_all st fs (map fst xs)) p = os_ReadFile fs p)
    \<and> (\<forall>x\<in>set xs. \<exists>name. holds st (store_all st fs (map fst xs)) name (snd x))"
  using assms(2,3)
proof (induction xs rule: rev_induct)
  case Nil
  then show ?case using assms(1) by (simp add: store_all_def storage_ready_def)
next
  case (snoc x xs)
  let ?f = "store_all st fs (map fst xs)"
  have run: "store_all st fs (map fst (xs @ [x])) = fst (Store st ?f (fst x))" by (simp add: store_all_def)
  have IH: "same_tree fs ?f" "\<And>p. outside st fs p \<Longrightarrow> os_ReadFile ?f p = os_ReadFile fs p"
      "\<And>y. y \<in> set xs \<Longrightarrow> \<exists>name. holds st ?f name (snd y)"
    using snoc.IH snoc.prems collision_free_subset [OF snoc.prems(2), of "\<Union>x\<in>set xs. blocks (snd x)"] by auto
  have ready: "storage_ready st ?f" using storage_ready_tree [OF IH(1)] assms(1) by simp
  have x: "os_ReadFile ?f (fst x) = Some (snd x)" "utf8_ok (Base (fst x))" "int (length (snd x)) < 2 ^ 63"
    using snoc.prems(1) IH(2) by (simp_all add: source_ok_def)
  have cf: "collision_free (blocks (snd x))" using snoc.prems(2) by (rule collision_free_subset) auto
  obtain g where g: "fst (Store st ?f (fst x)) = g" "same_tree ?f g" "holds st g (Base (fst x)) (snd x)"
      "\<And>q. q \<noteq> meta_at st ?f (content_hash (snd x)) \<Longrightarrow>
        q \<notin> (\<lambda>c. chunk_at st ?f (content_hash c)) ` set (split_chunks (snd x)) \<Longrightarrow> file_at g q = file_at ?f q"
    using Store_ok [OF ready x cf] by (metis fst_conv)
  have "os_ReadFile g p = os_ReadFile fs p" if p: "outside st fs p" for p
  proof -
    have "resolve ?f p \<noteq> chunk_at st ?f h \<and> resolve ?f p \<noteq> meta_at st ?f h" for h
      using outside_at [OF p] by (simp add: at_tree [OF IH(1)] same_treeD(6) [OF IH(1)])
    then have "os_ReadFile g p = os_ReadFile ?f p" using g(4) by (intro read_frame [OF g(2)]) auto
    then show ?thesis using IH(2) [OF p] by simp
  qed
  moreover have "\<exists>name. holds st g name (snd y)" if y: "y \<in> set (xs @ [x])" for y
  proof (cases "y \<in> set xs")
    case True
    then obtain name where "holds st ?f name (snd y)" using IH(3) by blast
    moreover have "collision_free (blocks (snd x) \<union> blocks (snd y))"
      using snoc.prems(2) by (rule collision_free_subset) (use True in auto)
    ultimately show ?thesis using Store_keeps x g(1) by metis
  next
    case False
    then show ?thesis using y g(3) by auto
  qed
  ultimately show ?case unfolding run g(1) using same_tree_trans [OF IH(1) g(2)] by blast
qed

section \<open>Retrieving\<close>

lemma fetch_cong:
  "\<forall>h\<in>set hs. GetChunk st fs' h = GetChunk st fs h \<Longrightarrow> local_files.fetch st fs' hs = local_files.fetch st fs hs"
  by (induction hs) (simp_all split: option.split)

lemma retrieve_chunks_fetch:
  assumes "\<forall>c\<in>set cs. resolve fs (chunk_path st (ck_Hash c)) \<noteq> q" and "fs_io fs = []" and "file_at fs q = Some b"
    and "local_files.fetch st fs (map ck_Hash cs) = Some d"
  obtains fs' where "retrieve_chunks st fs q cs = (fs', None)" and "file_at fs' = (file_at fs)(q \<mapsto> b @ d)" and "same_tree fs fs'"
  using assms
proof (induction cs arbitrary: fs b d thesis)
  case Nil
  then have same: "(file_at fs)(q \<mapsto> b @ d) = file_at fs" by (simp add: fun_upd_idem)
  have t: "same_tree fs fs" using Nil(3) by (rule same_tree_refl)
  show ?case by (rule Nil(1) [OF _ same [symmetric] t]) simp
next
  case (Cons c cs)
  obtain x d' where x: "GetChunk st fs (ck_Hash c) = Some x" "local_files.fetch st fs (map ck_Hash cs) = Some d'" "d = x @ d'"
    using Cons.prems(5) by (auto split: option.splits)
  obtain f where f: "fs_append fs q x = (f, True)" "file_at f = (file_at fs)(q \<mapsto> b @ x)" "same_tree fs f"
    using fs_append_ok [OF Cons.prems(3,4)] by metis
  have same: "GetChunk st f h = GetChunk st fs h" if "resolve fs (chunk_path st h) \<noteq> q" for h
    using that unfolding GetChunk_def by (intro read_frame [OF f(3)]) (simp add: f(2))
  then have "local_files.fetch st f (map ck_Hash cs) = Some d'"
    using x(2) Cons.prems(2) fetch_cong [of "map ck_Hash cs" st f fs] by simp
  moreover have "\<forall>c\<in>set cs. resolve f (chunk_path st (ck_Hash c)) \<noteq> q"
    using Cons.prems(2) by (simp add: same_treeD(6) [OF f(3)])
  ultimately obtain f' where f': "retrieve_chunks st f q cs = (f', None)" "file_at f' = (file_at f)(q \<mapsto> (b @ x) @ d')" "same_tree f f'"
    using Cons.IH [of f "b @ x" d'] f(2) same_treeD(5) [OF f(3)] by (metis fun_upd_same)
  show ?case
  proof (rule Cons.prems(1))
    show "retrieve_chunks st fs q (c # cs) = (f', None)" using x(1) f(1) f'(1) by (simp add: GetChunk_def)
    show "file_at f' = (file_at fs)(q \<mapsto> b @ d)" using f'(2) by (simp add: f(2) x(3) fun_upd_def fun_eq_iff)
    show "same_tree fs f'" using f(3) f'(3) by (rule same_tree_trans)
  qed
qed

lemma retrieve_chunks_missing:
  assumes "\<forall>c\<in>set cs. resolve fs (chunk_path st (ck_Hash c)) \<noteq> q" and "fs_io fs = []" and "file_at fs q = Some b"
    and "\<exists>c\<in>set cs. GetChunk st fs (ck_Hash c) = None"
  shows "\<exists>fs' i. retrieve_chunks st fs q cs = (fs', Some (ReadChunkFailed i))"
  using assms
proof (induction cs arbitrary: fs b)
  case (Cons c cs)
  show ?case
  proof (cases "GetChunk st fs (ck_Hash c)")
    case None
    then show ?thesis by (simp add: GetChunk_def)
  next
    case (Some x)
    obtain f where f: "fs_append fs q x = (f, True)" "file_at f = (file_at fs)(q \<mapsto> b @ x)" "same_tree fs f"
      using fs_append_ok [OF Cons.prems(2,3)] by metis
    have same: "GetChunk st f h = GetChunk st fs h" if "resolve fs (chunk_path st h) \<noteq> q" for h
      using that unfolding GetChunk_def by (intro read_frame [OF f(3)]) (simp add: f(2))
    have "\<exists>c\<in>set cs. GetChunk st fs (ck_Hash c) = None" using Cons.prems(4) Some by auto
    then have "\<exists>c\<in>set cs. GetChunk st f (ck_Hash c) = None" using same Cons.prems(1) by fastforce
    moreover have "\<forall>c\<in>set cs. resolve f (chunk_path st (ck_Hash c)) \<noteq> q"
      using Cons.prems(1) by (simp add: same_treeD(6) [OF f(3)])
    ultimately obtain fs' i where "retrieve_chunks st f q cs = (fs', Some (ReadChunkFailed i))"
      using Cons.IH [of f "b @ x"] f(2) same_treeD(5) [OF f(3)] by (metis fun_upd_same)
    then show ?thesis using Some f(1) by (simp add: GetChunk_def)
  qed
qed simp

lemma outside_chunk: "outside st fs p \<Longrightarrow> hash_name h \<Longrightarrow> resolve fs (chunk_path st h) \<noteq> resolve fs p"
  using outside_at [of st fs p h] by (metis store_paths(1))

lemma metadata_hashes: "\<forall>c\<in>set (fm_Chunks (metadata_of name d)). hash_name (ck_Hash c)"
proof -
  have "\<forall>h\<in>ck_Hash ` set (chunk_list 0 (split_chunks d)). hash_name h" unfolding chunk_list_set by auto
  then show ?thesis by (simp add: metadata_of_def)
qed

lemma Retrieve_holds:
  assumes "holds st fs name d" and "file_name dest" and "writable fs (resolve fs dest)" and "outside st fs dest"
  obtains fs' where "Retrieve st fs (content_hash d) dest = (fs', None)"
    and "file_at fs' = (file_at fs)(resolve fs dest \<mapsto> d)" and "same_tree fs fs'"
proof -
  let ?q = "resolve fs dest"
  let ?cs = "fm_Chunks (metadata_of name d)"
  have ready: "storage_ready st fs" using assms(1) by (simp add: holds_def)
  obtain f where f: "os_Create fs dest = Some (f, ?q)" "file_at f = (file_at fs)(?q \<mapsto> [])" "same_tree fs f"
    using os_Create_ok [OF assms(2,3)] ready by (metis storage_ready_def)
  have paths: "\<forall>c\<in>set ?cs. resolve fs (chunk_path st (ck_Hash c)) \<noteq> ?q"
    using metadata_hashes outside_chunk [OF assms(4)] by blast
  have "local_files.fetch st fs (map ck_Hash ?cs) = Some d"
    using local_files.fetch_parts [OF holds_chunks [OF assms(1)]] by (simp add: metadata_of_def)
  moreover have "GetChunk st f h = GetChunk st fs h" if "resolve fs (chunk_path st h) \<noteq> ?q" for h
    using that unfolding GetChunk_def by (intro read_frame [OF f(3)]) (simp add: f(2))
  ultimately have "local_files.fetch st f (map ck_Hash ?cs) = Some d"
    using paths fetch_cong [of "map ck_Hash ?cs" st f fs] by simp
  then obtain f' where f': "retrieve_chunks st f ?q ?cs = (f', None)" "file_at f' = (file_at f)(?q \<mapsto> [] @ d)" "same_tree f f'"
    using retrieve_chunks_fetch [of ?cs f st ?q "[]" d] paths f(2) same_treeD(5,6) [OF f(3)] by (metis fun_upd_same)
  show thesis
  proof (rule that)
    show "Retrieve st fs (content_hash d) dest = (f', None)"
      using f'(1) by (simp add: Retrieve_def holds_loads [OF assms(1)] f(1))
    show "file_at f' = (file_at fs)(?q \<mapsto> d)" using f'(2) by (simp add: f(2) fun_upd_def fun_eq_iff)
    show "same_tree fs f'" using f(3) f'(3) by (rule same_tree_trans)
  qed
qed

lemma holds_exists: "holds st fs name d \<Longrightarrow> Exists st fs (content_hash d)"
proof -
  assume h: "holds st fs name d"
  have "file_name (meta_path st (content_hash d))" using store_names(2) h by (auto simp: holds_def)
  then show ?thesis using h by (simp add: Exists_def os_Stat_def file_name_def holds_def)
qed

section \<open>Deleting\<close>

definition remove_chunk :: "storage \<Rightarrow> fs \<Rightarrow> string \<Rightarrow> fs" where
  "remove_chunk st f h = fst (os_Remove f (chunk_path st h))"

lemma remove_chunk_effect:
  assumes "storage_ready st f" and "hash_name h"
  shows "same_tree f (remove_chunk st f h) \<and> file_at (remove_chunk st f h) = (file_at f)(chunk_at st f h := None)"
proof (cases "file_at f (chunk_at st f h) = None")
  case True
  have "chunk_at st f h \<notin> set (fs_dirs f)"
    using store_writable(1) [OF assms(1)] by (simp add: writable_def)
  then have "remove_chunk st f h = f" using True assms(2) by (simp add: remove_chunk_def os_Remove_def Let_def)
  then show ?thesis using True assms(1) by (simp add: fun_upd_idem storage_ready_def)
next
  case False
  obtain f' where "os_Remove f (chunk_path st h) = (f', True)"
      "file_at f' = (file_at f)(chunk_at st f h := None)" "same_tree f f'"
    using os_Remove_file [of "chunk_path st h" f] store_names(1) [OF assms] store_writable(3) [OF assms(1)]
      False assms by (auto simp: storage_ready_def)
  then show ?thesis by (simp add: remove_chunk_def)
qed

lemma remove_chunks_effect:
  assumes "storage_ready st fs" and "\<forall>h\<in>set hs. hash_name h"
  shows "same_tree fs (foldl (remove_chunk st) fs hs)
    \<and> (\<forall>q. file_at (foldl (remove_chunk st) fs hs) q = (if q \<in> chunk_at st fs ` set hs then None else file_at fs q))"
  using assms(2)
proof (induction hs rule: rev_induct)
  case Nil
  then show ?case using assms(1) by (simp add: storage_ready_def)
next
  case (snoc h hs)
  let ?f = "foldl (remove_chunk st) fs hs"
  have t: "same_tree fs ?f" using snoc by simp
  have "storage_ready st ?f" using assms(1) storage_ready_tree [OF t] by simp
  from remove_chunk_effect [OF this, of h] show ?case
    using snoc same_tree_trans [OF t] by (simp add: at_tree [OF t])
qed

text \<open>
  Deleting a file whose metadata names only chunks of the storage removes the metadata and
  these chunks, and nothing else.
\<close>

lemma Delete_effect:
  assumes "storage_ready st fs" and "hash_name h" and "loadMetadata st fs h = Some m"
    and "\<forall>c\<in>set (fm_Chunks m). hash_name (ck_Hash c)"
  obtains fs' where "Storage_Delete st fs h = (fs', True)" and "same_tree fs fs'"
    and "\<And>q. file_at fs' q = (if q = meta_at st fs h \<or> q \<in> chunk_at st fs ` ck_Hash ` set (fm_Chunks m) then None else file_at fs q)"
proof -
  let ?g = "foldl (remove_chunk st) fs (map ck_Hash (fm_Chunks m))"
  have del: "Storage_Delete st fs h = os_Remove ?g (meta_path st h)"
    using assms(3) by (simp add: Storage_Delete_def foldl_map remove_chunk_def [abs_def])
  have "\<forall>h\<in>set (map ck_Hash (fm_Chunks m)). hash_name h" using assms(4) by simp
  then have g: "same_tree fs ?g"
      "\<And>q. file_at ?g q = (if q \<in> chunk_at st fs ` ck_Hash ` set (fm_Chunks m) then None else file_at fs q)"
    using remove_chunks_effect [OF assms(1), of "map ck_Hash (fm_Chunks m)"] by simp_all
  have gready: "storage_ready st ?g" using assms(1) storage_ready_tree [OF g(1)] by simp
  have "file_at fs (meta_at st fs h) \<noteq> None"
    using assms(3) by (auto simp: loadMetadata_def store_reads [OF assms(1,2)] bind_eq_Some_conv)
  then have "file_at ?g (meta_at st fs h) \<noteq> None"
    using chunk_meta_differ [OF assms(1), THEN not_sym] by (auto simp: g(2))
  then obtain fs' where fs': "os_Remove ?g (meta_path st h) = (fs', True)"
      "file_at fs' = (file_at ?g)(meta_at st fs h := None)" "same_tree ?g fs'"
    using os_Remove_file [of "meta_path st h" ?g] store_names(2) [OF gready assms(2)] store_writable(4) [OF gready]
      assms(2) same_treeD(5) [OF g(1)] by (auto simp: at_tree [OF g(1)])
  show thesis
    using fs'(1) del same_tree_trans [OF g(1) fs'(3)] by (intro that [of fs']) (simp_all add: fs'(2) g(2))
qed

section \<open>Properties\<close>

text \<open>
  C10. After any sequence of uploads, every stored file comes back: \<open>Retrieve\<close> under its hash
  succeeds and writes exactly its content, and \<open>Exists\<close> and \<open>GetInfo\<close> know it.  The sources
  and the destination lie outside the storage, no write fails, and SHA-256 separates the
  files and chunks at hand.
\<close>

theorem stored_files_come_back:
  assumes "storage_ready st fs" and "list_all (source_ok st fs) xs" and "collision_free (\<Union>x\<in>set xs. blocks (snd x))"
    and "(p, d) \<in> set xs" and "fs' = store_all st fs (map fst xs)"
    and "file_name dest" and "writable fs (resolve fs dest)" and "outside st fs dest"
  shows "(\<exists>g. Retrieve st fs' (content_hash d) dest = (g, None) \<and> file_at g = (file_at fs')(resolve fs dest \<mapsto> d))
    \<and> Exists st fs' (content_hash d)
    \<and> map_option fi_Size (GetInfo st fs' (content_hash d)) = Some (int (length d))"
proof -
  have s: "same_tree fs fs'" "\<exists>name. holds st fs' name d"
    using store_all_holds [OF assms(1-3)] assms(4,5) by force+
  then obtain name where h: "holds st fs' name d" by blast
  have "writable fs' (resolve fs' dest)" "outside st fs' dest"
    using assms(7,8) by (simp_all add: same_treeD [OF s(1)] outside_def)
  then obtain g where "Retrieve st fs' (content_hash d) dest = (g, None)" "file_at g = (file_at fs')(resolve fs dest \<mapsto> d)"
    using Retrieve_holds [OF h assms(6)] by (metis same_treeD(6) [OF s(1)])
  then show ?thesis using holds_exists [OF h] by (auto simp: GetInfo_def holds_loads [OF h] metadata_of_def)
qed

text \<open>A storage under \<open>/data\<close>, used by a process that works in \<open>/tmp\<close>.\<close>

definition demo_fs :: "(path \<times> bytes) list \<Rightarrow> fs" where
  "demo_fs files = \<lparr>fs_files = files,
     fs_dirs = [[''data'', ''meta''], [''data'', ''chunks''], [''data''], [''tmp''], []],
     fs_cwd = [''tmp''], fs_allow = (\<lambda>q. True), fs_io = []\<rparr>"

definition demo_storage :: storage where
  "demo_storage = \<lparr>st_baseDir = ''/data'', st_chunksDir = ''/data/chunks'', st_metaDir = ''/data/meta''\<rparr>"

lemma demo_new: "NewFileStorage \<lparr>fs_files = files, fs_dirs = [[''tmp''], []], fs_cwd = [''tmp''], fs_allow = (\<lambda>q. True), fs_io = []\<rparr> ''/data''
    = (demo_fs files, demo_storage)" if "list_all (\<lambda>x. hd (fst x) = ''tmp'') files"
proof -
  have "map_of files (''data'' # q) = None" for q
    using that by (auto simp: map_of_eq_None_iff list_all_iff dest!: bspec)
  then show ?thesis
    by (simp add: NewFileStorage_def demo_fs_def demo_storage_def os_MkdirAll_def mkdir_step_def resolve_def
        Join_def Clean_def rooted_def clean_step_def walk_def)
qed

lemma demo_resolve [simp]: "resolve (demo_fs files) ''/data/chunks'' = [''data'', ''chunks'']"
  "resolve (demo_fs files) ''/data/meta'' = [''data'', ''meta'']"
  "resolve (demo_fs files) ''in.txt'' = [''tmp'', ''in.txt'']" "resolve (demo_fs files) ''out.txt'' = [''tmp'', ''out.txt'']"
  by (simp_all add: resolve_def demo_fs_def rooted_def walk_def)

lemma demo_ready [simp]: "storage_ready demo_storage (demo_fs files)"
proof -
  have r: "resolve (demo_fs files) (st_chunksDir demo_storage) = [''data'', ''chunks'']"
    "resolve (demo_fs files) (st_metaDir demo_storage) = [''data'', ''meta'']"
    by (simp_all add: demo_storage_def)
  show ?thesis unfolding storage_ready_def r by (simp add: demo_storage_def demo_fs_def)
qed

lemma demo_paths [simp]:
  "outside demo_storage (demo_fs files) ''in.txt''" "outside demo_storage (demo_fs files) ''out.txt''"
  "writable (demo_fs files) [''tmp'', ''out.txt'']" "file_name ''in.txt''" "file_name ''out.txt''"
  "utf8_ok (Base ''in.txt'')"
  by (simp_all add: outside_def demo_storage_def writable_def file_name_def Base_def)
    (simp_all add: demo_fs_def code_def)

lemma collision_free_single: "length d \<le> ChunkSize \<Longrightarrow> collision_free (blocks d)"
  by (simp add: blocks_single collision_free_def)

lemma stored_files_come_back_witness:
  "\<exists>g. Retrieve demo_storage (store_all demo_storage (demo_fs [([''tmp'', ''in.txt''], ''hello'')]) [''in.txt''])
      (content_hash ''hello'') ''out.txt'' = (g, None) \<and> file_at g [''tmp'', ''out.txt''] = Some ''hello''"
proof -
  let ?fs = "demo_fs [([''tmp'', ''in.txt''], ''hello'')]"
  have "source_ok demo_storage ?fs (''in.txt'', ''hello'')"
    by (simp add: source_ok_def os_ReadFile_def) (simp add: demo_fs_def)
  then show ?thesis
    using stored_files_come_back [of demo_storage ?fs "[(''in.txt'', ''hello'')]" "''in.txt''" "''hello''" _ "''out.txt''"]
      collision_free_single [of "''hello''"] by (auto simp: ChunkSize_def)
qed

text \<open>
  C30. \<open>Delete\<close> removes the chunks of a file without asking whether another file has them too: if
  two stored files share a chunk, deleting one leaves the other listed but no longer
  retrievable.
\<close>

theorem delete_breaks_shared_chunks:
  assumes "storage_ready st fs" and "hash_name h" and "hash_name k" and "h \<noteq> k"
    and "loadMetadata st fs h = Some m" and "loadMetadata st fs k = Some n"
    and "\<forall>c\<in>set (fm_Chunks m) \<union> set (fm_Chunks n). hash_name (ck_Hash c)"
    and "ck_Hash ` set (fm_Chunks m) \<inter> ck_Hash ` set (fm_Chunks n) \<noteq> {}"
    and "file_name dest" and "writable fs (resolve fs dest)" and "outside st fs dest"
  shows "\<exists>fs'. Storage_Delete st fs h = (fs', True)
    \<and> Exists st fs' k \<and> GetInfo st fs' k = GetInfo st fs k
    \<and> (\<exists>g i. Retrieve st fs' k dest = (g, Some (ReadChunkFailed i)))"
proof -
  obtain fs' where del: "Storage_Delete st fs h = (fs', True)" and tree: "same_tree fs fs'"
    and at: "\<And>q. file_at fs' q = (if q = meta_at st fs h \<or> q \<in> chunk_at st fs ` ck_Hash ` set (fm_Chunks m) then None else file_at fs q)"
    using Delete_effect [OF assms(1,2,5)] assms(7) by blast
  have ready: "storage_ready st fs'" using assms(1) storage_ready_tree [OF tree] by simp
  have meta: "file_at fs' (meta_at st fs k) = file_at fs (meta_at st fs k)"
    using assms(4) chunk_meta_differ [OF assms(1), THEN not_sym] by (auto simp: at)
  then have load: "loadMetadata st fs' k = loadMetadata st fs k"
    by (simp add: loadMetadata_def store_reads [OF assms(1,3)] store_reads [OF ready assms(3)] at_tree [OF tree])
  have dest: "writable fs' (resolve fs' dest)" "resolve fs' dest = resolve fs dest"
    using assms(10) by (simp_all add: same_treeD [OF tree])
  obtain f where f: "os_Create fs' dest = Some (f, resolve fs dest)" "file_at f = (file_at fs')(resolve fs dest \<mapsto> [])" "same_tree fs' f"
    using os_Create_ok [OF assms(9) dest(1)] dest(2) same_treeD(5) [OF tree] by metis
  have paths: "\<forall>c\<in>set (fm_Chunks n). resolve f (chunk_path st (ck_Hash c)) \<noteq> resolve fs dest"
    using outside_chunk [OF assms(11)] assms(7) by (simp add: same_treeD(6) [OF tree] same_treeD(6) [OF f(3)])
  obtain x where x: "x \<in> ck_Hash ` set (fm_Chunks m)" "x \<in> ck_Hash ` set (fm_Chunks n)"
    using assms(8) by (meson disjoint_iff)
  from x(2) obtain c where "x = ck_Hash c" and cn: "c \<in> set (fm_Chunks n)" by (rule imageE)
  with x(1) have c: "c \<in> set (fm_Chunks n)" "ck_Hash c \<in> ck_Hash ` set (fm_Chunks m)" by simp_all
  have fready: "storage_ready st f" using ready storage_ready_tree [OF f(3)] by simp
  have "file_at f (chunk_at st fs (ck_Hash c)) = None"
    using c(2) outside_at [OF assms(11), of "ck_Hash c"] by (auto simp: f(2) at)
  then have "GetChunk st f (ck_Hash c) = None"
    using assms(7) c(1) by (simp add: GetChunk_def store_reads [OF fready] at_tree [OF f(3)] at_tree [OF tree])
  then obtain g i where "retrieve_chunks st f (resolve fs dest) (fm_Chunks n) = (g, Some (ReadChunkFailed i))"
    using retrieve_chunks_missing [OF paths, of "[]"] c(1) f(2) same_treeD(5) [OF f(3)] by auto
  then have ret: "Retrieve st fs' k dest = (g, Some (ReadChunkFailed i))"
    by (simp add: Retrieve_def load assms(6) f(1))
  have "file_at fs (meta_at st fs k) \<noteq> None"
    using assms(6) by (auto simp: loadMetadata_def store_reads [OF assms(1,3)] bind_eq_Some_conv)
  then have "Exists st fs' k"
    using store_names(2) [OF ready assms(3)] assms(3) meta
    by (simp add: Exists_def os_Stat_def file_name_def at_tree [OF tree])
  then show ?thesis using del load ret by (simp add: GetInfo_def)
qed


definition demo_meta :: "string \<Rightarrow> file_metadata" where
  "demo_meta h = \<lparr>fm_Hash = h, fm_Name = ''f'', fm_Size = 1, fm_ChunkCount = 1,
     fm_Chunks = [\<lparr>ck_Index = 0, ck_Hash = ''cc'', ck_Size = 1\<rparr>]\<rparr>"

lemma delete_breaks_shared_chunks_witness:
  "\<exists>fs' g i. Storage_Delete demo_storage
        (demo_fs [([''data'', ''chunks'', ''cc''], ''x''),
           ([''data'', ''meta'', ''aa.json''], json_indent (meta_json (demo_meta ''aa''))),
           ([''data'', ''meta'', ''bb.json''], json_indent (meta_json (demo_meta ''bb'')))]) ''aa'' = (fs', True)
     \<and> Exists demo_storage fs' ''bb'' \<and> Retrieve demo_storage fs' ''bb'' ''out.txt'' = (g, Some (ReadChunkFailed i))"
proof -
  let ?fs = "demo_fs [([''data'', ''chunks'', ''cc''], ''x''),
     ([''data'', ''meta'', ''aa.json''], json_indent (meta_json (demo_meta ''aa''))),
     ([''data'', ''meta'', ''bb.json''], json_indent (meta_json (demo_meta ''bb'')))]"
  have ok: "meta_ok (demo_meta ''aa'')" "meta_ok (demo_meta ''bb'')"
    by (simp_all add: meta_ok_def demo_meta_def chunk_ok_def in64_def code_def)
  have names: "hash_name ''aa''" "hash_name ''bb''" "hash_name ''cc''"
    by (simp_all add: hash_name_def name_ok_def)
  have "meta_at demo_storage ?fs h = [''data'', ''meta'', h @ ''.json'']" for h
    by (simp add: meta_at_def) (simp add: demo_storage_def)
  then have "loadMetadata demo_storage ?fs ''aa'' = Some (demo_meta ''aa'')"
      "loadMetadata demo_storage ?fs ''bb'' = Some (demo_meta ''bb'')"
    using ok names by (simp_all add: loadMetadata_def store_reads, simp_all add: demo_fs_def)
  then show ?thesis
    using delete_breaks_shared_chunks [of demo_storage ?fs "''aa''" "''bb''" "demo_meta ''aa''" "demo_meta ''bb''" "''out.txt''"] names
    by (simp add: demo_meta_def) blast
qed

end
