(* ===== verification/FileTransfer.thy ===== *)
theory FileTransfer
  imports FileStorage MessageQueue
begin

text \<open>
  The transfer protocol of \<open>internal/cloud/transfer.go\<close>: what a peer answers to a request on a
  stream, byte for byte, and how a client downloads a file with these answers.  The network
  is a function that takes the bytes of a request to a peer and gives the bytes that come back,
  or the error of opening or using the stream; \<open>'n\<close> is whatever state the network and the
  other peers keep.  The messages that are only printed are not modelled, the panics of
  printing are.
\<close>

section \<open>Messages\<close>

definition TransferProtocol :: string where
  "TransferProtocol = ''/p2papp/transfer/1.0.0''"

definition NotifyProtocol :: string where
  "NotifyProtocol = ''/p2papp/notify/1.0.0''"

record transfer_request =
  tq_Type :: string
  tq_FileHash :: string
  tq_ChunkHash :: string

record transfer_response =
  ts_Success :: bool
  ts_Error :: string
  ts_Data :: bytes

record file_notification =
  fn_FileHash :: string
  fn_FileName :: string
  fn_FileSize :: int
  fn_From :: peer

definition request_json :: "transfer_request \<Rightarrow> json" where
  "request_json q = JObj ([(''type'', JStr (tq_Type q))]
     @ (if tq_FileHash q = [] then [] else [(''file_hash'', JStr (tq_FileHash q))])
     @ (if tq_ChunkHash q = [] then [] else [(''chunk_hash'', JStr (tq_ChunkHash q))]))"

definition response_json :: "transfer_response \<Rightarrow> json" where
  "response_json r = JObj ([(''success'', JBool (ts_Success r))]
     @ (if ts_Error r = [] then [] else [(''error'', JStr (ts_Error r))])
     @ (if ts_Data r = [] then [] else [(''data'', JStr (base64 (ts_Data r)))]))"

definition notification_json :: "env \<Rightarrow> file_notification \<Rightarrow> json" where
  "notification_json en f = JObj [(''file_hash'', JStr (fn_FileHash f)), (''file_name'', JStr (fn_FileName f)),
     (''file_size'', JNum (show_int (fn_FileSize f))), (''from'', JStr (pid_String en (fn_From f)))]"

definition request_field :: "string \<Rightarrow> json \<Rightarrow> transfer_request \<Rightarrow> transfer_request option" where
  "request_field n j q =
     (if n = ''type'' then map_option (\<lambda>s. q\<lparr>tq_Type := s\<rparr>) (as_string j (tq_Type q))
      else if n = ''file_hash'' then map_option (\<lambda>s. q\<lparr>tq_FileHash := s\<rparr>) (as_string j (tq_FileHash q))
      else if n = ''chunk_hash'' then map_option (\<lambda>s. q\<lparr>tq_ChunkHash := s\<rparr>) (as_string j (tq_ChunkHash q))
      else Some q)"

definition response_field :: "string \<Rightarrow> json \<Rightarrow> transfer_response \<Rightarrow> transfer_response option" where
  "response_field n j r =
     (if n = ''success'' then map_option (\<lambda>b. r\<lparr>ts_Success := b\<rparr>) (as_bool j (ts_Success r))
      else if n = ''error'' then map_option (\<lambda>s. r\<lparr>ts_Error := s\<rparr>) (as_string j (ts_Error r))
      else if n = ''data'' then map_option (\<lambda>b. r\<lparr>ts_Data := b\<rparr>) (as_bytes j (ts_Data r))
      else Some r)"

definition notification_field :: "env \<Rightarrow> string \<Rightarrow> json \<Rightarrow> file_notification \<Rightarrow> file_notification option" where
  "notification_field en n j f =
     (if n = ''file_hash'' then map_option (\<lambda>s. f\<lparr>fn_FileHash := s\<rparr>) (as_string j (fn_FileHash f))
      else if n = ''file_name'' then map_option (\<lambda>s. f\<lparr>fn_FileName := s\<rparr>) (as_string j (fn_FileName f))
      else if n = ''file_size'' then map_option (\<lambda>i. f\<lparr>fn_FileSize := i\<rparr>) (as_int64 j (fn_FileSize f))
      else if n = ''from'' then map_option (\<lambda>p. f\<lparr>fn_From := p\<rparr>) (as_peer en j)
      else Some f)"

definition zero_request :: transfer_request where
  "zero_request = \<lparr>tq_Type = [], tq_FileHash = [], tq_ChunkHash = []\<rparr>"

definition zero_response :: transfer_response where
  "zero_response = \<lparr>ts_Success = False, ts_Error = [], ts_Data = []\<rparr>"

definition zero_notification :: file_notification where
  "zero_notification = \<lparr>fn_FileHash = [], fn_FileName = [], fn_FileSize = 0, fn_From = []\<rparr>"

section \<open>The serving side\<close>

text \<open>What is written to the stream.\<close>

definition sendResponse :: "transfer_response \<Rightarrow> bytes" where
  "sendResponse resp = json_text (response_json resp) @ [newline]"

definition refuse :: "string \<Rightarrow> bytes" where
  "refuse e = sendResponse (zero_response\<lparr>ts_Error := e\<rparr>)"

definition serve :: "bytes \<Rightarrow> bytes" where
  "serve d = sendResponse (zero_response\<lparr>ts_Success := True, ts_Data := d\<rparr>)"

definition handleTransfer :: "storage \<Rightarrow> fs \<Rightarrow> bytes \<Rightarrow> bytes" where
  "handleTransfer st fs stream =
     (case read_line stream of
        (data, False) \<Rightarrow> []
      | (data, True) \<Rightarrow>
          (case Option.bind (json_parse data) (\<lambda>j. decode_struct request_field j zero_request) of
             None \<Rightarrow> refuse ''invalid request''
           | Some req \<Rightarrow>
               if tq_Type req = ''metadata'' then
                 (case GetMetadata st fs (tq_FileHash req) of
                    None \<Rightarrow> refuse ''file not found''
                  | Some meta \<Rightarrow> serve (json_text (meta_json meta)))
               else if tq_Type req = ''chunk'' then
                 (case GetChunk st fs (tq_ChunkHash req) of
                    None \<Rightarrow> refuse ''chunk not found''
                  | Some d \<Rightarrow> serve d)
               else refuse ''unknown request type''))"

text \<open>
  A notification from \<open>remote\<close>: the line printed with the first eight characters of the sender's ID,
  which panics when the ID has fewer.
\<close>

datatype notice = Ignored | Printed string string int | PrintPanic

definition handleNotify :: "env \<Rightarrow> peer \<Rightarrow> bytes \<Rightarrow> notice" where
  "handleNotify en remote stream =
     (case read_line stream of
        (data, False) \<Rightarrow> Ignored
      | (data, True) \<Rightarrow>
          (case Option.bind (json_parse data) (\<lambda>j. decode_struct (notification_field en) j zero_notification) of
             None \<Rightarrow> Ignored
           | Some f \<Rightarrow>
               if length (pid_String en remote) < 8 then PrintPanic
               else Printed (take 8 (pid_String en remote)) (fn_FileName f) (fn_FileSize f)))"

definition RegisterHandler :: "string set \<Rightarrow> string set" where
  "RegisterHandler hs = insert NotifyProtocol (insert TransferProtocol hs)"

definition Transfer_Close :: "string set \<Rightarrow> string set" where
  "Transfer_Close hs = hs - {TransferProtocol} - {NotifyProtocol}"

section \<open>The asking side\<close>

datatype transfer_error =
    OpenStreamFailed | SendFailed | ReadFailed | ParseFailed | Refused string | MetaParseFailed
  | TempCreateFailed | ChunkFailed int transfer_error | ChunkNotWritten int | FinalizeFailed
  | InfoFailed

text \<open>The network answers with the error of a stream, or with what the peer sent before it ended the stream.\<close>

type_synonym 'n network = "'n \<Rightarrow> peer \<Rightarrow> bytes \<Rightarrow> 'n \<times> (transfer_error + bytes)"

definition parse_response :: "transfer_error + bytes \<Rightarrow> transfer_error + bytes" where
  "parse_response r =
     (case r of
        Inl e \<Rightarrow> Inl e
      | Inr bs \<Rightarrow>
          (case Option.bind (json_parse (fst (read_line bs))) (\<lambda>j. decode_struct response_field j zero_response) of
             None \<Rightarrow> Inl ParseFailed
           | Some resp \<Rightarrow> if ts_Success resp then Inr (ts_Data resp) else Inl (Refused (ts_Error resp))))"

definition requestMetadata :: "'n network \<Rightarrow> 'n \<Rightarrow> peer \<Rightarrow> string \<Rightarrow> 'n \<times> (transfer_error + file_metadata)" where
  "requestMetadata ask n p hash =
     (case ask n p (json_text (request_json (zero_request\<lparr>tq_Type := ''metadata'', tq_FileHash := hash\<rparr>)) @ [newline]) of
        (n', r) \<Rightarrow> (n',
          case parse_response r of
            Inl e \<Rightarrow> Inl e
          | Inr d \<Rightarrow> (case decode_meta d of None \<Rightarrow> Inl MetaParseFailed | Some m \<Rightarrow> Inr m)))"

definition requestChunk :: "'n network \<Rightarrow> 'n \<Rightarrow> peer \<Rightarrow> string \<Rightarrow> 'n \<times> (transfer_error + bytes)" where
  "requestChunk ask n p chunkHash =
     (case ask n p (json_text (request_json (zero_request\<lparr>tq_Type := ''chunk'', tq_ChunkHash := chunkHash\<rparr>)) @ [newline]) of
        (n', r) \<Rightarrow> (n', parse_response r))"

text \<open>The chunk loop of \<open>Download\<close>: \<open>out\<close> is the open temporary file, \<open>tmp\<close> its path.\<close>

fun download_chunks ::
    "'n network \<Rightarrow> peer \<Rightarrow> string \<Rightarrow> path \<Rightarrow> 'n \<Rightarrow> fs \<Rightarrow> chunk list \<Rightarrow> 'n \<times> fs \<times> transfer_error option" where
  "download_chunks ask p tmp out n fs [] = (n, fs, None)"
| "download_chunks ask p tmp out n fs (c # cs) =
     (case requestChunk ask n p (ck_Hash c) of
        (n', Inl e) \<Rightarrow> (n', fst (os_Remove fs tmp), Some (ChunkFailed (ck_Index c) e))
      | (n', Inr data) \<Rightarrow>
          (case fs_append fs out data of
             (fs', False) \<Rightarrow> (n', fst (os_Remove fs' tmp), Some (ChunkNotWritten (ck_Index c)))
           | (fs', True) \<Rightarrow> download_chunks ask p tmp out n' fs' cs))"

definition Download ::
    "'n network \<Rightarrow> 'n \<Rightarrow> fs \<Rightarrow> peer \<Rightarrow> string \<Rightarrow> string \<Rightarrow> 'n \<times> fs \<times> transfer_error option" where
  "Download ask n fs p hash destPath =
     (case requestMetadata ask n p hash of
        (n1, Inl e) \<Rightarrow> (n1, fs, Some e)
      | (n1, Inr meta) \<Rightarrow>
          (case os_Create fs (destPath @ ''.tmp'') of
             None \<Rightarrow> (n1, fs, Some TempCreateFailed)
           | Some (fs1, out) \<Rightarrow>
               (case download_chunks ask p (destPath @ ''.tmp'') out n1 fs1 (fm_Chunks meta) of
                  (n2, fs2, Some e) \<Rightarrow> (n2, fs2, Some e)
                | (n2, fs2, None) \<Rightarrow>
                    (case os_Rename fs2 (destPath @ ''.tmp'') destPath of
                       (fs3, False) \<Rightarrow> (n2, fs3, Some FinalizeFailed)
                     | (fs3, True) \<Rightarrow> (n2, fs3, None)))))"

definition NotifyPeer ::
    "env \<Rightarrow> ('n \<Rightarrow> peer \<Rightarrow> bytes \<Rightarrow> 'n \<times> transfer_error option) \<Rightarrow> storage \<Rightarrow> fs \<Rightarrow> peer \<Rightarrow> 'n \<Rightarrow> peer \<Rightarrow> string
      \<Rightarrow> 'n \<times> transfer_error option" where
  "NotifyPeer en send st fs self n p hash =
     (case GetInfo st fs hash of
        None \<Rightarrow> (n, Some InfoFailed)
      | Some info \<Rightarrow>
          send n p (json_text (notification_json en \<lparr>fn_FileHash = hash, fn_FileName = fi_Name info,
            fn_FileSize = fi_Size info, fn_From = self\<rparr>) @ [newline]))"

section \<open>One exchange\<close>

lemma transfer_names [simp]: "fold_name ''type'' = ''type''" "fold_name ''file_hash'' = ''file_hash''"
  "fold_name ''chunk_hash'' = ''chunk_hash''" "fold_name ''success'' = ''success''" "fold_name ''error'' = ''error''"
  "fold_name ''data'' = ''data''" "fold_name ''file_name'' = ''file_name''" "fold_name ''file_size'' = ''file_size''"
  "fold_name ''from'' = ''from''"
  by (rule fold_name_plain, simp add: code_def)+

lemma transfer_names_utf8 [simp]: "utf8_ok ''type''" "utf8_ok ''file_hash''" "utf8_ok ''chunk_hash''"
  "utf8_ok ''success''" "utf8_ok ''error''" "utf8_ok ''data''" "utf8_ok ''metadata''" "utf8_ok ''chunk''" "utf8_ok []"
  by (rule ascii_utf8, simp add: code_def)+

lemma zero_messages [simp]: "tq_FileHash zero_request = []" "tq_ChunkHash zero_request = []" "ts_Error zero_response = []"
  "ts_Success zero_response = False" "ts_Data zero_response = []"
  by (simp_all add: zero_request_def zero_response_def)

lemma decode_request: "decode_struct request_field (request_json q) zero_request = Some q"
  by (cases q) (simp add: request_json_def decode_struct_def request_field_def zero_request_def decode_simps)

lemma decode_response: "decode_struct response_field (response_json r) zero_response = Some r"
  by (cases r) (simp add: response_json_def decode_struct_def response_field_def zero_response_def decode_simps)

lemma request_ok: "utf8_ok (tq_Type q) \<Longrightarrow> utf8_ok (tq_FileHash q) \<Longrightarrow> utf8_ok (tq_ChunkHash q) \<Longrightarrow> json_ok (request_json q)"
  by (simp add: request_json_def)

lemma response_ok: "utf8_ok (ts_Error r) \<Longrightarrow> json_ok (response_json r)"
  by (simp add: response_json_def)

lemma parse_sendResponse [simp]:
  "utf8_ok (ts_Error r) \<Longrightarrow> parse_response (Inr (sendResponse r))
    = (if ts_Success r then Inr (ts_Data r) else Inl (Refused (ts_Error r)))"
  by (simp add: parse_response_def sendResponse_def read_line_text response_ok decode_response)

text \<open>The network between a client and one peer that runs \<open>handleTransfer\<close> on its storage.\<close>

definition serving :: "storage \<Rightarrow> fs \<Rightarrow> unit network" where
  "serving st fs n p bs = ((), Inr (handleTransfer st fs bs))"

lemma serving_chunk:
  assumes "utf8_ok k"
  shows "requestChunk (serving st fs) u p k
    = ((), case GetChunk st fs k of None \<Rightarrow> Inl (Refused ''chunk not found'') | Some d \<Rightarrow> Inr d)"
proof -
  have "utf8_ok ''chunk not found''" by (rule ascii_utf8) (simp add: code_def)
  then show ?thesis
    using assms
    by (simp add: requestChunk_def serving_def handleTransfer_def read_line_text request_ok decode_request
        refuse_def serve_def split: option.split)
qed

lemma serving_metadata:
  assumes "utf8_ok h"
  shows "requestMetadata (serving st fs) u p h
    = ((), case GetMetadata st fs h of None \<Rightarrow> Inl (Refused ''file not found'')
           | Some m \<Rightarrow> (case decode_meta (json_text (meta_json m)) of None \<Rightarrow> Inl MetaParseFailed | Some m' \<Rightarrow> Inr m'))"
proof -
  have "utf8_ok ''file not found''" by (rule ascii_utf8) (simp add: code_def)
  then show ?thesis
    using assms
    by (simp add: requestMetadata_def serving_def handleTransfer_def read_line_text request_ok decode_request
        refuse_def serve_def split: option.split)
qed

section \<open>Downloading\<close>

text \<open>A peer behind the protocol, seen as a source of content.\<close>

definition remote_meta :: "storage \<Rightarrow> fs \<Rightarrow> peer \<Rightarrow> string \<Rightarrow> file_metadata option" where
  "remote_meta st fs p h =
     (case requestMetadata (serving st fs) () p h of (u, Inl e) \<Rightarrow> None | (u, Inr m) \<Rightarrow> Some m)"

definition remote_part :: "storage \<Rightarrow> fs \<Rightarrow> peer \<Rightarrow> string \<Rightarrow> bytes option" where
  "remote_part st fs p k =
     (case requestChunk (serving st fs) () p k of (u, Inl e) \<Rightarrow> None | (u, Inr d) \<Rightarrow> Some d)"

lemma remote_part_eq: "utf8_ok k \<Longrightarrow> remote_part st fs p k = GetChunk st fs k"
  by (simp add: remote_part_def serving_chunk split: option.split)

lemma remote_SomeD:
  "remote_meta st fs p h = Some m \<Longrightarrow> requestMetadata (serving st fs) u p h = ((), Inr m)"
  "remote_part st fs p k = Some d \<Longrightarrow> requestChunk (serving st fs) u p k = ((), Inr d)"
  by (auto simp: remote_meta_def remote_part_def split: prod.splits sum.splits)

interpretation remote_files: content_source "remote_meta st fs p" "\<lambda>m. map ck_Hash (fm_Chunks m)"
    "remote_part st fs p" "\<lambda>h d. h = content_hash d \<and> (\<exists>name. holds st fs name d)" for st fs p
proof unfold_locales
  fix h d assume "h = content_hash d \<and> (\<exists>name. holds st fs name d)"
  then obtain name where h: "h = content_hash d" "holds st fs name d" by blast
  have ok: "meta_ok (metadata_of name d)" using h(2) by (simp add: holds_def metadata_ok)
  have "map (remote_part st fs p) (map content_hash (split_chunks d)) = map (GetChunk st fs) (map content_hash (split_chunks d))"
    by (simp add: remote_part_eq)
  then have "map (remote_part st fs p) (map ck_Hash (fm_Chunks (metadata_of name d))) = map Some (split_chunks d)"
    using holds_chunks [OF h(2)] by (simp only: metadata_of_def file_metadata.simps chunk_list_hashes)
  moreover have "remote_meta st fs p h = Some (metadata_of name d)"
    using ok by (simp add: remote_meta_def h(1) serving_metadata GetMetadata_def holds_loads [OF h(2)])
  ultimately show "\<exists>m bs. remote_meta st fs p h = Some m
      \<and> map (remote_part st fs p) (map ck_Hash (fm_Chunks m)) = map Some bs \<and> concat bs = d"
    using concat_split_chunks [of d] by blast
qed

text \<open>A network that keeps no state and answers the requests for chunks as \<open>get\<close> says.\<close>

lemma download_chunks_ok:
  assumes "\<And>c u. c \<in> set cs \<Longrightarrow> requestChunk ask u p (ck_Hash c) = ((), Inr (get (ck_Hash c)))"
    and "fs_io fs = []" and "file_at fs out = Some b"
  obtains fs' where "download_chunks ask p tmp out () fs cs = ((), fs', None)"
    and "file_at fs' = (file_at fs)(out \<mapsto> b @ concat (map (\<lambda>c. get (ck_Hash c)) cs))" and "same_tree fs fs'"
  using assms
proof (induction cs arbitrary: fs b thesis)
  case Nil
  then have same: "(file_at fs)(out \<mapsto> b @ concat (map (\<lambda>c. get (ck_Hash c)) [])) = file_at fs" by (simp add: fun_upd_idem)
  show ?case by (rule Nil(1) [OF _ same [symmetric] same_tree_refl [OF Nil(3)]]) simp
next
  case (Cons c cs)
  obtain f where f: "fs_append fs out (get (ck_Hash c)) = (f, True)" "file_at f = (file_at fs)(out \<mapsto> b @ get (ck_Hash c))" "same_tree fs f"
    using fs_append_ok [OF Cons.prems(3,4)] by metis
  have ask: "\<And>c u. c \<in> set cs \<Longrightarrow> requestChunk ask u p (ck_Hash c) = ((), Inr (get (ck_Hash c)))"
    using Cons.prems(2) by simp
  have "file_at f out = Some (b @ get (ck_Hash c))" by (simp add: f(2))
  with Cons.IH [OF _ ask same_treeD(5) [OF f(3)]] obtain f' where f': "download_chunks ask p tmp out () f cs = ((), f', None)"
      "file_at f' = (file_at f)(out \<mapsto> (b @ get (ck_Hash c)) @ concat (map (\<lambda>c. get (ck_Hash c)) cs))" "same_tree f f'"
    by metis
  show ?case
  proof (rule Cons.prems(1))
    show "download_chunks ask p tmp out () fs (c # cs) = ((), f', None)"
      using Cons.prems(2) [of c] f(1) f'(1) by simp
    show "file_at f' = (file_at fs)(out \<mapsto> b @ concat (map (\<lambda>c. get (ck_Hash c)) (c # cs)))"
      using f'(2) by (simp add: f(2) fun_upd_def fun_eq_iff)
    show "same_tree fs f'" using f(3) f'(3) by (rule same_tree_trans)
  qed
qed

text \<open>A place where a download can be put.\<close>

definition download_place :: "fs \<Rightarrow> string \<Rightarrow> bool" where
  "download_place fs dest \<longleftrightarrow> fs_io fs = [] \<and> file_name dest \<and> file_name (dest @ ''.tmp'')
     \<and> writable fs (resolve fs dest) \<and> writable fs (resolve fs (dest @ ''.tmp''))
     \<and> resolve fs dest \<noteq> resolve fs (dest @ ''.tmp'')"

lemma Download_ok:
  assumes "requestMetadata ask () p h = ((), Inr m)"
    and "\<And>c u. c \<in> set (fm_Chunks m) \<Longrightarrow> requestChunk ask u p (ck_Hash c) = ((), Inr (get (ck_Hash c)))"
    and "download_place fs dest"
  obtains fs' where "Download ask () fs p h dest = ((), fs', None)"
    and "file_at fs' = (file_at fs)(resolve fs (dest @ ''.tmp'') := None, resolve fs dest \<mapsto> concat (map (\<lambda>c. get (ck_Hash c)) (fm_Chunks m)))"
    and "same_tree fs fs'"
proof -
  let ?tmp = "resolve fs (dest @ ''.tmp'')"
  let ?d = "concat (map (\<lambda>c. get (ck_Hash c)) (fm_Chunks m))"
  have place: "fs_io fs = []" "file_name dest" "file_name (dest @ ''.tmp'')" "writable fs (resolve fs dest)" "writable fs ?tmp"
    using assms(3) by (simp_all add: download_place_def)
  obtain f1 where f1: "os_Create fs (dest @ ''.tmp'') = Some (f1, ?tmp)" "file_at f1 = (file_at fs)(?tmp \<mapsto> [])" "same_tree fs f1"
    using os_Create_ok [OF place(3,5)] place(1) by metis
  have "file_at f1 ?tmp = Some []" by (simp add: f1(2))
  then obtain f2 where f2: "download_chunks ask p (dest @ ''.tmp'') ?tmp () f1 (fm_Chunks m) = ((), f2, None)"
      "file_at f2 = (file_at f1)(?tmp \<mapsto> ?d)" "same_tree f1 f2"
    using download_chunks_ok [of "fm_Chunks m" ask p get f1 ?tmp "[]"] assms(2) same_treeD(5) [OF f1(3)]
    by (metis append_Nil)
  have t: "same_tree fs f2" using f1(3) f2(3) by (rule same_tree_trans)
  obtain f3 where f3: "os_Rename f2 (dest @ ''.tmp'') dest = (f3, True)"
      "file_at f3 = (file_at f2)(?tmp := None, resolve fs dest \<mapsto> ?d)" "same_tree f2 f3"
    using os_Rename_ok [of "dest @ ''.tmp''" f2 ?d dest] place same_treeD [OF t] f2(2)
    by (auto simp: writable_def)
  show thesis
  proof (rule that [of f3])
    show "Download ask () fs p h dest = ((), f3, None)" by (simp add: Download_def assms(1) f1(1) f2(1) f3(1))
    show "file_at f3 = (file_at fs)(?tmp := None, resolve fs dest \<mapsto> ?d)"
      by (simp add: f3(2) f2(2) f1(2) fun_upd_def fun_eq_iff)
    show "same_tree fs f3" using t f3(3) by (rule same_tree_trans)
  qed
qed

lemma Download_from_holder:
  assumes "holds st rfs name d" and "download_place fs dest"
  shows "\<exists>fs'. Download (serving st rfs) () fs p (content_hash d) dest = ((), fs', None)
    \<and> file_at fs' = (file_at fs)(resolve fs (dest @ ''.tmp'') := None, resolve fs dest \<mapsto> d)"
proof -
  obtain m where m: "remote_meta st rfs p (content_hash d) = Some m"
      "remote_files.fetch st rfs p (map ck_Hash (fm_Chunks m)) = Some d"
    using remote_files.holds_fetch assms(1) by blast
  let ?get = "\<lambda>k. the (remote_part st rfs p k)"
  have one: "requestChunk (serving st rfs) u p (ck_Hash c) = ((), Inr (?get (ck_Hash c)))" if "c \<in> set (fm_Chunks m)" for c u
    using remote_files.fetch_SomeD [OF m(2)] that by (intro remote_SomeD(2)) simp
  have d: "concat (map (\<lambda>c. ?get (ck_Hash c)) (fm_Chunks m)) = d"
    using remote_files.fetch_SomeD [OF m(2)] by (simp add: comp_def)
  obtain fs' where "Download (serving st rfs) () fs p (content_hash d) dest = ((), fs', None)"
      "file_at fs' = (file_at fs)(resolve fs (dest @ ''.tmp'') := None, resolve fs dest \<mapsto> concat (map (\<lambda>c. ?get (ck_Hash c)) (fm_Chunks m)))"
    by (rule Download_ok [where get = ?get, OF remote_SomeD(1) [OF m(1)] one assms(2)])
  then show ?thesis unfolding d by blast
qed

text \<open>
  C15. A peer that runs the protocol on a storage that holds a file delivers it: \<open>Download\<close> under
  the hash of the content succeeds, leaves exactly that content at the destination and no
  temporary file, and touches nothing else.
\<close>

theorem download_from_holder:
  assumes "holds st rfs name d" and "download_place fs dest"
  shows "\<exists>fs'. Download (serving st rfs) () fs p (content_hash d) dest = ((), fs', None)
    \<and> file_at fs' = (file_at fs)(resolve fs (dest @ ''.tmp'') := None, resolve fs dest \<mapsto> d)"
  by (rule Download_from_holder [OF assms])

lemma demo_place [simp]: "download_place (demo_fs files) ''out.txt''"
proof -
  have "resolve (demo_fs files) ''out.txt.tmp'' = [''tmp'', ''out.txt.tmp'']"
    by (simp add: resolve_def demo_fs_def rooted_def walk_def)
  moreover have "writable (demo_fs files) [''tmp'', ''out.txt.tmp'']" by (simp add: writable_def demo_fs_def)
  ultimately show ?thesis
    by (simp add: download_place_def) (simp add: demo_fs_def file_name_def)
qed

lemma demo_holds: "holds demo_storage (fst (Store demo_storage (demo_fs [([''tmp'', ''in.txt''], ''hello'')]) ''in.txt'')) ''in.txt'' ''hello''"
proof -
  let ?fs = "demo_fs [([''tmp'', ''in.txt''], ''hello'')]"
  have r: "os_ReadFile ?fs ''in.txt'' = Some ''hello''" by (simp add: os_ReadFile_def) (simp add: demo_fs_def)
  have b: "Base ''in.txt'' = ''in.txt''" by (simp add: Base_def)
  have u: "utf8_ok (Base ''in.txt'')" "int (length ''hello'') < 2 ^ 63" "length ''hello'' \<le> ChunkSize"
    using demo_paths(6) by (simp_all add: ChunkSize_def)
  obtain f where f: "Store demo_storage ?fs ''in.txt'' = (f, Inr \<lparr>fi_Hash = content_hash ''hello'', fi_Name = Base ''in.txt'',
        fi_Size = int (length ''hello''), fi_ChunkCount = int (length (split_chunks ''hello'')), fi_LocalPath = ''in.txt''\<rparr>)"
      "holds demo_storage f (Base ''in.txt'') ''hello''"
    by (rule Store_ok [OF demo_ready r u(1,2) collision_free_single [OF u(3)]])
  from f(2) show ?thesis unfolding f(1) b fst_conv .
qed

lemma download_from_holder_witness:
  "\<exists>fs'. Download (serving demo_storage (fst (Store demo_storage (demo_fs [([''tmp'', ''in.txt''], ''hello'')]) ''in.txt'')))
      () (demo_fs []) ''peer'' (content_hash ''hello'') ''out.txt'' = ((), fs', None)
    \<and> file_at fs' [''tmp'', ''out.txt''] = Some ''hello''"
  using download_from_holder [OF demo_holds demo_place [of "[]"], of "''peer''"] by auto

section \<open>What the protocol does not check\<close>

lemma climbing_name:
  assumes "q \<noteq> []" and "\<forall>c\<in>set q. name_ok c \<and> CHR 0x00 \<notin> set c \<and> ascii c" and "0 < n"
    and "k = join_with ''/'' (replicate n ''..'' @ q)"
  shows "split_path k = replicate n ''..'' @ q" and "k \<noteq> []" and "\<not> rooted k" and "CHR 0x00 \<notin> set k" and "ascii k"
proof -
  have cs: "c = ''..'' \<or> c \<in> set q" if "c \<in> set (replicate n ''..'' @ q)" for c
    using that by (simp split: if_splits) blast
  have "\<forall>c\<in>set (replicate n ''..'' @ q). CHR ''/'' \<notin> set c"
    using cs assms(2) by (fastforce simp: name_ok_def)
  then show "split_path k = replicate n ''..'' @ q"
    unfolding assms(4) using assms(1) by (intro split_path_join) simp_all
  obtain n' where n: "n = Suc n'"
    using assms(3) by (cases n) simp_all
  have "k = ''../'' @ join_with ''/'' (replicate n' ''..'' @ q)"
    using assms(1) by (cases "replicate n' ''..'' @ q") (simp_all add: assms(4) n)
  then show "k \<noteq> []" "\<not> rooted k"
    by (simp_all add: rooted_def)
  have chars: "x = CHR ''/'' \<or> x = CHR ''.'' \<or> (\<exists>c\<in>set q. x \<in> set c)" if "x \<in> set k" for x
    using set_join_with [of "replicate n ''..'' @ q"] that cs unfolding assms(4) by fastforce
  show "CHR 0x00 \<notin> set k"
    using chars [of "CHR 0x00"] assms(2) by auto
  have "code (CHR ''/'') < 128" "code (CHR ''.'') < 128"
    by (simp_all add: code_def)
  then have "code x < 128" if "x \<in> set k" for x
    using chars [OF that] assms(2) by (auto simp: ascii_def list_all_iff)
  then show "ascii k"
    by (simp add: ascii_def list_all_iff)
qed

text \<open>
  C31. A chunk request is a file name that the serving side does not check: for every file on its
  disk that the process may read there is a "chunk hash" that climbs out of the storage, and
  a peer that asks for it gets the content of the file.
\<close>

theorem chunk_request_reads_any_file:
  assumes "CHR 0x00 \<notin> set (st_chunksDir st)" and "q \<noteq> []" and "list_all name_ok q"
    and "list_all (\<lambda>c. CHR 0x00 \<notin> set c \<and> ascii c) q"
    and "fs_allow fs q" and "file_at fs q = Some d"
    and "length (resolve fs (st_chunksDir st)) \<le> n" and "0 < n"
    and "k = join_with ''/'' (replicate n ''..'' @ q)"
  shows "requestChunk (serving st fs) () p k = ((), Inr d)"
proof -
  have names: "\<forall>c\<in>set q. name_ok c \<and> CHR 0x00 \<notin> set c \<and> ascii c"
    using assms(3,4) by (simp add: list_all_iff)
  note k = climbing_name [OF assms(2) names assms(8,9)]
  have "resolve fs (chunk_path st k) = foldl walk (foldl walk (resolve fs (st_chunksDir st)) (replicate n ''..'')) q"
    using k(1-3) by (simp add: chunk_path_def resolve_Join)
  also have "\<dots> = q" using assms(3,7) by (simp add: walk_dotdots walk_names)
  finally have r: "resolve fs (chunk_path st k) = q" .
  have "name_ok (last (split_path k))" using assms(2,3) by (simp add: k(1) list_all_iff)
  then have "file_name (chunk_path st k)"
    unfolding chunk_path_def using k(2,4) assms(1) by (intro file_name_Join_path)
  then have "GetChunk st fs k = Some d" using assms(5,6) by (simp add: GetChunk_def os_ReadFile_def r)
  then show ?thesis using k(5) by (simp add: serving_chunk)
qed

lemma chunk_request_reads_any_file_witness:
  "requestChunk (serving demo_storage (demo_fs [([''home'', ''key''], ''secret'')])) () ''peer'' ''../../home/key''
    = ((), Inr ''secret'')"
proof -
  let ?fs = "demo_fs [([''home'', ''key''], ''secret'')]"
  have "resolve ?fs (st_chunksDir demo_storage) = [''data'', ''chunks'']" by (simp add: demo_storage_def)
  moreover have "CHR 0x00 \<notin> set (st_chunksDir demo_storage)" by (simp add: demo_storage_def)
  moreover have "fs_allow ?fs [''home'', ''key'']" "file_at ?fs [''home'', ''key''] = Some ''secret''" by (simp_all add: demo_fs_def)
  ultimately show ?thesis
    by (intro chunk_request_reads_any_file [where q = "[''home'', ''key'']" and n = 2])
      (simp_all add: name_ok_def code_def numeral_eq_Suc)
qed

text \<open>A peer that answers every request with one file of its choice, in one chunk named \<open>c\<close>.\<close>

definition forger :: "bytes \<Rightarrow> unit network" where
  "forger x u p bs = ((), Inr (case Option.bind (json_parse (fst (read_line bs))) (\<lambda>j. decode_struct request_field j zero_request) of
       None \<Rightarrow> []
     | Some req \<Rightarrow>
         if tq_Type req = ''metadata'' then serve (json_text (meta_json \<lparr>fm_Hash = tq_FileHash req, fm_Name = ''f'',
             fm_Size = 0, fm_ChunkCount = 1, fm_Chunks = [\<lparr>ck_Index = 0, ck_Hash = ''c'', ck_Size = 0\<rparr>]\<rparr>))
         else serve x))"

text \<open>
  \<open>Download\<close> checks neither the hashes nor the sizes it is given: for every hash asked for
  and every content there is a peer from which the download succeeds and leaves that content.
\<close>

theorem download_takes_any_content:
  assumes "download_place fs dest" and "utf8_ok h"
  shows "\<exists>fs'. Download (forger x) () fs p h dest = ((), fs', None)
    \<and> file_at fs' = (file_at fs)(resolve fs (dest @ ''.tmp'') := None, resolve fs dest \<mapsto> x)"
proof -
  let ?m = "\<lparr>fm_Hash = h, fm_Name = ''f'', fm_Size = 0, fm_ChunkCount = 1, fm_Chunks = [\<lparr>ck_Index = 0, ck_Hash = ''c'', ck_Size = 0\<rparr>]\<rparr>"
  have u: "utf8_ok ''c''" "utf8_ok ''f''" by (simp_all add: code_def)
  have ok: "meta_ok ?m" using assms(2) u by (simp add: meta_ok_def chunk_ok_def in64_def)
  have m: "requestMetadata (forger x) () p h = ((), Inr ?m)"
    using ok assms(2) by (simp add: requestMetadata_def forger_def read_line_text request_ok decode_request serve_def)
  have c: "requestChunk (forger x) v p (ck_Hash c) = ((), Inr x)" if "c \<in> set (fm_Chunks ?m)" for c v
    using that u by (simp add: requestChunk_def forger_def read_line_text request_ok decode_request serve_def)
  obtain fs' where "Download (forger x) () fs p h dest = ((), fs', None)"
      "file_at fs' = (file_at fs)(resolve fs (dest @ ''.tmp'') := None, resolve fs dest \<mapsto> concat (map (\<lambda>c. x) (fm_Chunks ?m)))"
    by (rule Download_ok [where get = "\<lambda>k. x", OF m c assms(1)])
  then show ?thesis by auto
qed

lemma download_takes_any_content_witness:
  "\<exists>fs'. Download (forger ''evil'') () (demo_fs []) ''peer'' (content_hash ''good'') ''out.txt'' = ((), fs', None)
    \<and> file_at fs' [''tmp'', ''out.txt''] = Some ''evil''"
  using download_takes_any_content [OF demo_place [of "[]"], of "content_hash ''good''" "''evil''" "''peer''"] by auto

end
