(* ===== verification/CloudService.thy ===== *)
theory CloudService
  imports FileTransfer
begin

text \<open>
  The cloud service of \<open>internal/cloud/service.go\<close> on top of the storage, the transfer protocol
  and the index of \<open>internal/cloud/index.go\<close>.  The discovery of libp2p is a pair of functions
  on the state \<open>'n\<close> of the network: one announces a name and answers whether that succeeded, one
  opens the channel of found peers.  What the select loop of \<open>FindProviders\<close> receives is a list
  of events; an iteration over the map of announced hashes takes its order as an argument.
\<close>

section \<open>The index\<close>

definition ProviderPrefix :: string where
  "ProviderPrefix = ''/p2papp/file/''"

definition AdvertiseInterval :: duration where
  "AdvertiseInterval = 10 * minute"

record file_index =
  ix_dht :: bool
  advertisedHash :: "string set"

datatype index_error = DhtDisabled | AdvertiseFailed | FindFailed | ContextDone

definition NewFileIndex :: "bool \<Rightarrow> file_index" where
  "NewFileIndex dht = \<lparr>ix_dht = dht, advertisedHash = {}\<rparr>"

type_synonym 'n announcer = "'n \<Rightarrow> string \<Rightarrow> 'n \<times> bool"

definition Advertise :: "'n announcer \<Rightarrow> 'n \<Rightarrow> file_index \<Rightarrow> string \<Rightarrow> 'n \<times> file_index \<times> index_error option" where
  "Advertise adv n ix hash =
     (if \<not> ix_dht ix then (n, ix, Some DhtDisabled)
      else (case adv n (ProviderPrefix @ hash) of
              (n', False) \<Rightarrow> (n', ix, Some AdvertiseFailed)
            | (n', True) \<Rightarrow> (n', ix\<lparr>advertisedHash := insert hash (advertisedHash ix)\<rparr>, None)))"

text \<open>\<open>dutil.Advertise\<close> announces in the background, whatever the outcome.\<close>

definition ProvideFile :: "'n announcer \<Rightarrow> 'n \<Rightarrow> file_index \<Rightarrow> string \<Rightarrow> 'n \<times> file_index \<times> index_error option" where
  "ProvideFile adv n ix hash =
     (if \<not> ix_dht ix then (n, ix, Some DhtDisabled)
      else (fst (adv n (ProviderPrefix @ hash)), ix\<lparr>advertisedHash := insert hash (advertisedHash ix)\<rparr>, None))"

definition StopProviding :: "file_index \<Rightarrow> string \<Rightarrow> file_index" where
  "StopProviding ix hash = ix\<lparr>advertisedHash := advertisedHash ix - {hash}\<rparr>"

datatype find_event = PeerFound peer | ChannelClosed | FindTimeout | FindCancelled

text \<open>\<open>None\<close>: the loop still waits after the events; the flag is false for the error of the context.\<close>

fun find_loop :: "peer \<Rightarrow> peer list \<Rightarrow> find_event list \<Rightarrow> (peer list \<times> bool) option" where
  "find_loop self providers [] = None"
| "find_loop self providers (PeerFound p # es) =
     (if p = [] \<or> p = self then find_loop self providers es else find_loop self (providers @ [p]) es)"
| "find_loop self providers (ChannelClosed # es) = Some (providers, True)"
| "find_loop self providers (FindTimeout # es) = Some (providers, True)"
| "find_loop self providers (FindCancelled # es) = Some (providers, False)"

text \<open>\<open>found\<close> are the events after \<open>FindPeers\<close> opened the channel, or \<open>None\<close> when it failed.\<close>

definition FindProviders ::
    "file_index \<Rightarrow> peer \<Rightarrow> find_event list option \<Rightarrow> (peer list \<times> index_error option) option" where
  "FindProviders ix self found =
     (if \<not> ix_dht ix then Some ([], Some DhtDisabled)
      else (case found of
              None \<Rightarrow> Some ([], Some FindFailed)
            | Some es \<Rightarrow> map_option (\<lambda>(ps, ok). (ps, if ok then None else Some ContextDone)) (find_loop self [] es)))"

datatype advertise_event = AdvertiseTick "string list" | AdvertiseDone

definition advertise_tick :: "'n announcer \<Rightarrow> 'n \<times> file_index \<Rightarrow> string list \<Rightarrow> 'n \<times> file_index" where
  "advertise_tick adv s order =
     foldl (\<lambda>(n, ix) hash. case Advertise adv n ix hash of (n', ix', e) \<Rightarrow> (n', ix')) s order"

fun AdvertiseLoop :: "'n announcer \<Rightarrow> 'n \<times> file_index \<Rightarrow> advertise_event list \<Rightarrow> 'n \<times> file_index" where
  "AdvertiseLoop adv s [] = s"
| "AdvertiseLoop adv s (AdvertiseTick order # es) = AdvertiseLoop adv (advertise_tick adv s order) es"
| "AdvertiseLoop adv s (AdvertiseDone # es) = s"

section \<open>The service\<close>

record cloud_service =
  cl_self :: peer
  cl_storage :: storage
  cl_index :: file_index
  cl_dir :: string
  cl_handlers :: "string set"
  cl_cancelled :: bool

datatype cloud_error =
    StoreFailed storage_error | RetrieveFailed storage_error | FindProvidersFailed index_error
  | NoProviders | AllProvidersFailed | ShareNotFound | ShareFailed transfer_error | DeleteFailed

definition GetCloudDir :: "string \<Rightarrow> string" where
  "GetCloudDir dataDir = Join [dataDir, ''cloud'']"

definition NewCloudService :: "fs \<Rightarrow> peer \<Rightarrow> bool \<Rightarrow> string \<Rightarrow> fs \<times> cloud_service option" where
  "NewCloudService fs self dht cloudDir =
     (case os_MkdirAll fs cloudDir of
        (fs1, False) \<Rightarrow> (fs1, None)
      | (fs1, True) \<Rightarrow>
          (case NewFileStorage fs1 cloudDir of
             (fs2, st) \<Rightarrow> (fs2, Some \<lparr>cl_self = self, cl_storage = st, cl_index = NewFileIndex dht,
               cl_dir = cloudDir, cl_handlers = RegisterHandler {}, cl_cancelled = False\<rparr>)))"

definition Cloud_Upload ::
    "'n announcer \<Rightarrow> 'n \<Rightarrow> fs \<Rightarrow> cloud_service \<Rightarrow> string \<Rightarrow> 'n \<times> fs \<times> cloud_service \<times> (cloud_error + file_info)" where
  "Cloud_Upload adv n fs s filePath =
     (case Store (cl_storage s) fs filePath of
        (fs', Inl e) \<Rightarrow> (n, fs', s, Inl (StoreFailed e))
      | (fs', Inr info) \<Rightarrow>
          (case Advertise adv n (cl_index s) (fi_Hash info) of
             (n', ix, warning) \<Rightarrow> (n', fs', s\<lparr>cl_index := ix\<rparr>, Inr info)))"

text \<open>
  The loop over the providers.  A failed download is reported with the first eight characters of
  the provider's ID: \<open>None\<close> is the panic when it has fewer.
\<close>

fun try_providers ::
    "env \<Rightarrow> 'n network \<Rightarrow> peer \<Rightarrow> string \<Rightarrow> string \<Rightarrow> 'n \<Rightarrow> fs \<Rightarrow> peer list \<Rightarrow> ('n \<times> fs \<times> cloud_error option) option" where
  "try_providers en ask self hash dest n fs [] = Some (n, fs, Some AllProvidersFailed)"
| "try_providers en ask self hash dest n fs (p # ps) =
     (if p = self then try_providers en ask self hash dest n fs ps
      else (case Download ask n fs p hash dest of
              (n', fs', None) \<Rightarrow> Some (n', fs', None)
            | (n', fs', Some e) \<Rightarrow>
                if length (pid_String en p) < 8 then None
                else try_providers en ask self hash dest n' fs' ps))"

text \<open>
  \<open>Download\<close>: the outer \<open>None\<close> is a call that does not return, because it panics or because the search
  for providers goes on after the given events.
\<close>

definition Cloud_Download ::
    "env \<Rightarrow> 'n network \<Rightarrow> find_event list option \<Rightarrow> 'n \<Rightarrow> fs \<Rightarrow> cloud_service \<Rightarrow> string \<Rightarrow> string
      \<Rightarrow> ('n \<times> fs \<times> cloud_error option) option" where
  "Cloud_Download en ask found n fs s hash destPath =
     (if Exists (cl_storage s) fs hash
      then (case Retrieve (cl_storage s) fs hash destPath of
              (fs', e) \<Rightarrow> Some (n, fs', map_option RetrieveFailed e))
      else (case FindProviders (cl_index s) (cl_self s) found of
              None \<Rightarrow> None
            | Some (ps, Some e) \<Rightarrow> Some (n, fs, Some (FindProvidersFailed e))
            | Some (ps, None) \<Rightarrow>
                if ps = [] then Some (n, fs, Some NoProviders)
                else try_providers en ask (cl_self s) hash destPath n fs ps))"

definition Cloud_List :: "fs \<Rightarrow> cloud_service \<Rightarrow> file_info list option" where
  "Cloud_List fs s = Storage_List (cl_storage s) fs"

definition Cloud_Share ::
    "env \<Rightarrow> ('n \<Rightarrow> peer \<Rightarrow> bytes \<Rightarrow> 'n \<times> transfer_error option) \<Rightarrow> 'n \<Rightarrow> fs \<Rightarrow> cloud_service \<Rightarrow> string \<Rightarrow> peer
      \<Rightarrow> 'n \<times> cloud_error option" where
  "Cloud_Share en send n fs s hash p =
     (if \<not> Exists (cl_storage s) fs hash then (n, Some ShareNotFound)
      else (case NotifyPeer en send (cl_storage s) fs (cl_self s) n p hash of
              (n', e) \<Rightarrow> (n', map_option ShareFailed e)))"

definition Cloud_Delete :: "fs \<Rightarrow> cloud_service \<Rightarrow> string \<Rightarrow> fs \<times> cloud_error option" where
  "Cloud_Delete fs s hash =
     (case Storage_Delete (cl_storage s) fs hash of
        (fs', True) \<Rightarrow> (fs', None)
      | (fs', False) \<Rightarrow> (fs', Some DeleteFailed))"

definition Cloud_GetInfo :: "fs \<Rightarrow> cloud_service \<Rightarrow> string \<Rightarrow> file_info option" where
  "Cloud_GetInfo fs s hash = GetInfo (cl_storage s) fs hash"

definition Cloud_Close :: "cloud_service \<Rightarrow> cloud_service" where
  "Cloud_Close s = s\<lparr>cl_cancelled := True, cl_handlers := Transfer_Close (cl_handlers s)\<rparr>"

section \<open>Finding providers\<close>

fun ends_search :: "find_event \<Rightarrow> bool" where
  "ends_search (PeerFound p) = False"
| "ends_search e = True"

fun found_peer :: "find_event \<Rightarrow> peer list" where
  "found_peer (PeerFound p) = [p]"
| "found_peer e = []"

lemma find_loop_result:
  assumes "list_all (\<lambda>e. \<not> ends_search e) es" and "ends_search e"
  shows "find_loop self ps (es @ e # rest)
    = Some (ps @ filter (\<lambda>p. p \<noteq> [] \<and> p \<noteq> self) (concat (map found_peer es)), e \<noteq> FindCancelled)"
  using assms(1)
proof (induction es arbitrary: ps)
  case Nil
  then show ?case using assms(2) by (cases e) simp_all
next
  case (Cons x es)
  then show ?case by (cases x) simp_all
qed

lemma find_loop_waits: "list_all (\<lambda>e. \<not> ends_search e) es \<Longrightarrow> find_loop self ps es = None"
proof (induction es arbitrary: ps)
  case (Cons x es)
  then show ?case by (cases x) simp_all
qed simp

text \<open>
  C32. \<open>FindProviders\<close> returns at the first of three events, the end of the channel, the timeout or
  the end of the context, and not before; it then gives the peers found so far in their order,
  without the node itself and without empty IDs.
\<close>

theorem find_providers_ends:
  assumes "ix_dht ix" and "list_all (\<lambda>e. \<not> ends_search e) es"
  shows "FindProviders ix self (Some es) = None
    \<and> (ends_search e \<longrightarrow> FindProviders ix self (Some (es @ e # rest))
        = Some (filter (\<lambda>p. p \<noteq> [] \<and> p \<noteq> self) (concat (map found_peer es)),
            if e = FindCancelled then Some ContextDone else None))"
  using assms by (simp add: FindProviders_def find_loop_waits find_loop_result)

lemma find_providers_ends_witness:
  "FindProviders (NewFileIndex True) ''me'' (Some [PeerFound ''a'', PeerFound ''me'', PeerFound [], PeerFound ''b'', FindTimeout, PeerFound ''c''])
    = Some ([''a'', ''b''], None)"
  using find_providers_ends [of "NewFileIndex True" "[PeerFound ''a'', PeerFound ''me'', PeerFound [], PeerFound ''b'']" "''me''" FindTimeout "[PeerFound ''c'']"]
  by (simp add: NewFileIndex_def)

section \<open>Downloading from a provider\<close>

text \<open>A network in which one peer serves its storage and no other can be reached.\<close>

definition only_up :: "peer \<Rightarrow> storage \<Rightarrow> fs \<Rightarrow> unit network" where
  "only_up a st fs u p bs = (if p = a then serving st fs u p bs else ((), Inl OpenStreamFailed))"

lemma only_up_request:
  "requestMetadata (only_up a st fs) u p h
    = (if p = a then requestMetadata (serving st fs) u p h else ((), Inl OpenStreamFailed))"
  "requestChunk (only_up a st fs) u p k
    = (if p = a then requestChunk (serving st fs) u p k else ((), Inl OpenStreamFailed))"
  by (simp_all add: requestMetadata_def requestChunk_def only_up_def parse_response_def)

lemma only_up_chunks:
  "download_chunks (only_up a st fs) a tmp out u f cs = download_chunks (serving st fs) a tmp out u f cs"
proof (induction cs arbitrary: u f)
  case (Cons c cs)
  then show ?case by (simp add: only_up_request cong: sum.case_cong prod.case_cong bool.case_cong)
qed simp

lemma only_up_download:
  "Download (only_up a st fs) u f p h dest
    = (if p = a then Download (serving st fs) u f p h dest else ((), f, Some OpenStreamFailed))"
proof (cases "p = a")
  case True
  then show ?thesis unfolding Download_def True only_up_chunks by (simp add: only_up_request)
next
  case False
  then show ?thesis by (simp add: Download_def only_up_request)
qed

lemma try_providers_finds:
  assumes "a \<in> set ps" and "a \<noteq> self" and "\<forall>p\<in>set ps. 8 \<le> length (pid_String en p)"
    and "Download (serving st rfs) () fs a h dest = ((), fs', None)"
  shows "try_providers en (only_up a st rfs) self h dest () fs ps = Some ((), fs', None)"
  using assms(1,3)
proof (induction ps)
  case (Cons p ps)
  then show ?case using assms(2,4) by (cases "p = a") (auto simp: only_up_download)
qed simp

text \<open>
  C1. What one node uploads another can download: after \<open>Upload\<close> on node A, a \<open>Download\<close> of the hash
  it returned on node B, whose search finds A, perhaps among providers that cannot be reached,
  succeeds and leaves exactly the uploaded content at the destination.
\<close>

theorem uploaded_file_downloads:
  assumes "storage_ready (cl_storage sa) fa" and "os_ReadFile fa path = Some d" and "utf8_ok (Base path)"
    and "int (length d) < 2 ^ 63" and "collision_free (blocks d)"
    and "Cloud_Upload adv n fa sa path = (n', fa', sa', Inr info)"
    and "ix_dht (cl_index sb)" and "cl_self sb \<noteq> a" and "a \<noteq> []"
    and "list_all (\<lambda>e. \<not> ends_search e) es" and "PeerFound a \<in> set es"
    and "\<forall>p. PeerFound p \<in> set es \<longrightarrow> 8 \<le> length (pid_String en p)"
    and "\<not> Exists (cl_storage sb) fb (fi_Hash info)" and "download_place fb dest"
  shows "\<exists>fb'. Cloud_Download en (only_up a (cl_storage sa') fa') (Some (es @ [ChannelClosed])) () fb sb (fi_Hash info) dest
      = Some ((), fb', None) \<and> file_at fb' (resolve fb dest) = Some d"
proof -
  obtain f where f: "Store (cl_storage sa) fa path = (f, Inr \<lparr>fi_Hash = content_hash d, fi_Name = Base path,
        fi_Size = int (length d), fi_ChunkCount = int (length (split_chunks d)), fi_LocalPath = path\<rparr>)"
      "holds (cl_storage sa) f (Base path) d"
    by (rule Store_ok [OF assms(1-5)])
  have up: "fa' = f" "fi_Hash info = content_hash d" "cl_storage sa' = cl_storage sa"
    using assms(6) by (auto simp: Cloud_Upload_def f(1) split: prod.splits)
  obtain fb' where fb': "Download (serving (cl_storage sa') fa') () fb a (content_hash d) dest = ((), fb', None)"
      "file_at fb' = (file_at fb)(resolve fb (dest @ ''.tmp'') := None, resolve fb dest \<mapsto> d)"
    using Download_from_holder [OF f(2) assms(14)] up by metis
  let ?ps = "filter (\<lambda>p. p \<noteq> [] \<and> p \<noteq> cl_self sb) (concat (map found_peer es))"
  have fp: "p \<in> set (concat (map found_peer es)) \<longleftrightarrow> PeerFound p \<in> set es" for p
  proof -
    have "p \<in> set (found_peer e) \<longleftrightarrow> e = PeerFound p" for e by (cases e) auto
    then show ?thesis by auto
  qed
  have find: "FindProviders (cl_index sb) (cl_self sb) (Some (es @ [ChannelClosed])) = Some (?ps, None)"
    using find_loop_result [OF assms(10), of ChannelClosed "cl_self sb" "[]" "[]"] assms(7) by (simp add: FindProviders_def)
  have a: "a \<in> set ?ps" using fp [of a] assms(8,9,11) by simp
  have "\<forall>p\<in>set ?ps. 8 \<le> length (pid_String en p)" using fp assms(12) by simp
  then have "try_providers en (only_up a (cl_storage sa') fa') (cl_self sb) (content_hash d) dest () fb ?ps = Some ((), fb', None)"
    using a assms(8) fb'(1) by (intro try_providers_finds) simp_all
  moreover have "?ps \<noteq> []" using a by (metis empty_iff list.set(1))
  ultimately have "Cloud_Download en (only_up a (cl_storage sa') fa') (Some (es @ [ChannelClosed])) () fb sb (fi_Hash info) dest
      = Some ((), fb', None)"
    using assms(13) by (simp add: Cloud_Download_def find up(2))
  then show ?thesis by (simp add: fb'(2))
qed

definition demo_service :: "peer \<Rightarrow> cloud_service" where
  "demo_service p = \<lparr>cl_self = p, cl_storage = demo_storage, cl_index = NewFileIndex True, cl_dir = ''/data'',
     cl_handlers = RegisterHandler {}, cl_cancelled = False\<rparr>"

lemma demo_service_simps [simp]: "cl_storage (demo_service p) = demo_storage" "ix_dht (cl_index (demo_service p))"
  "cl_self (demo_service p) = p" "cl_index (demo_service p) = NewFileIndex True"
  by (simp_all add: demo_service_def NewFileIndex_def)

lemma new_index [simp]: "ix_dht (NewFileIndex dht) = dht"
  by (simp add: NewFileIndex_def)

definition demo_disk :: fs where
  "demo_disk = demo_fs [([''tmp'', ''in.txt''], ''hello'')]"

lemma demo_disk_ready [simp]: "storage_ready demo_storage demo_disk"
  by (simp add: demo_disk_def)

lemma demo_source: "os_ReadFile demo_disk ''in.txt'' = Some ''hello''"
  by (simp add: os_ReadFile_def demo_disk_def) (simp add: demo_fs_def)

lemma demo_upload:
  obtains f where "Cloud_Upload (\<lambda>n x. (n, True)) () demo_disk (demo_service p) ''in.txt''
      = ((), f, (demo_service p)\<lparr>cl_index := \<lparr>ix_dht = True, advertisedHash = {content_hash ''hello''}\<rparr>\<rparr>,
         Inr \<lparr>fi_Hash = content_hash ''hello'', fi_Name = Base ''in.txt'', fi_Size = int (length ''hello''),
           fi_ChunkCount = int (length (split_chunks ''hello'')), fi_LocalPath = ''in.txt''\<rparr>)"
    and "holds demo_storage f (Base ''in.txt'') ''hello''" and "storage_ready demo_storage f"
proof -
  have u: "int (length ''hello'') < 2 ^ 63" "length ''hello'' \<le> ChunkSize" by (simp_all add: ChunkSize_def)
  obtain f where f: "Store demo_storage demo_disk ''in.txt'' = (f, Inr \<lparr>fi_Hash = content_hash ''hello'', fi_Name = Base ''in.txt'',
        fi_Size = int (length ''hello''), fi_ChunkCount = int (length (split_chunks ''hello'')), fi_LocalPath = ''in.txt''\<rparr>)"
      "holds demo_storage f (Base ''in.txt'') ''hello''"
    by (rule Store_ok [OF demo_disk_ready demo_source demo_paths(6) u(1) collision_free_single [OF u(2)]])
  show thesis
  proof (rule that [of f])
    show "Cloud_Upload (\<lambda>n x. (n, True)) () demo_disk (demo_service p) ''in.txt''
      = ((), f, (demo_service p)\<lparr>cl_index := \<lparr>ix_dht = True, advertisedHash = {content_hash ''hello''}\<rparr>\<rparr>,
         Inr \<lparr>fi_Hash = content_hash ''hello'', fi_Name = Base ''in.txt'', fi_Size = int (length ''hello''),
           fi_ChunkCount = int (length (split_chunks ''hello'')), fi_LocalPath = ''in.txt''\<rparr>)"
      unfolding Cloud_Upload_def demo_service_simps f(1) by (simp add: Advertise_def NewFileIndex_def)
  qed (use f(2) in \<open>simp_all add: holds_def\<close>)
qed

lemma demo_absent: "\<not> Exists demo_storage (demo_fs []) (content_hash d)"
proof -
  have "meta_at demo_storage (demo_fs []) h = [''data'', ''meta'', h @ ''.json'']" for h
    by (simp add: meta_at_def) (simp add: demo_storage_def)
  then show ?thesis by (simp add: Exists_def os_Stat_def) (simp add: demo_fs_def)
qed

lemma uploaded_file_downloads_witness:
  "\<exists>f s fb'. Cloud_Upload (\<lambda>n x. (n, True)) () demo_disk (demo_service ''peer-alice'') ''in.txt''
      = ((), f, s, Inr \<lparr>fi_Hash = content_hash ''hello'', fi_Name = Base ''in.txt'', fi_Size = int (length ''hello''),
           fi_ChunkCount = int (length (split_chunks ''hello'')), fi_LocalPath = ''in.txt''\<rparr>)
    \<and> Cloud_Download plain_env (only_up ''peer-alice'' (cl_storage s) f)
        (Some ([PeerFound ''peer-carol'', PeerFound ''peer-alice''] @ [ChannelClosed])) () (demo_fs []) (demo_service ''peer-bob'')
        (content_hash ''hello'') ''out.txt'' = Some ((), fb', None)
    \<and> file_at fb' [''tmp'', ''out.txt''] = Some ''hello''"
proof -
  obtain f where f: "Cloud_Upload (\<lambda>n x. (n, True)) () demo_disk (demo_service ''peer-alice'') ''in.txt''
      = ((), f, (demo_service ''peer-alice'')\<lparr>cl_index := \<lparr>ix_dht = True, advertisedHash = {content_hash ''hello''}\<rparr>\<rparr>,
         Inr \<lparr>fi_Hash = content_hash ''hello'', fi_Name = Base ''in.txt'', fi_Size = int (length ''hello''),
           fi_ChunkCount = int (length (split_chunks ''hello'')), fi_LocalPath = ''in.txt''\<rparr>)"
    by (rule demo_upload)
  have ids: "\<forall>p. PeerFound p \<in> set [PeerFound ''peer-carol'', PeerFound ''peer-alice''] \<longrightarrow> 8 \<le> length (pid_String plain_env p)"
    by (simp add: plain_env_def)
  have small: "int (length ''hello'') < 2 ^ 63" "collision_free (blocks ''hello'')"
    by (simp, rule collision_free_single, simp add: ChunkSize_def)
  show ?thesis
    using uploaded_file_downloads [where sb = "demo_service ''peer-bob''" and fb = "demo_fs []" and dest = "''out.txt''"
        and a = "''peer-alice''", OF _ _ demo_paths(6) small f _ _ _ _ _ ids]
      demo_source demo_absent f by simp
qed

text \<open>
  \<open>Delete\<close> removes a file from the disk but not from the index: after an upload and a delete, each
  round of the advertising loop announces the hash again, while every request for it is
  refused.
\<close>

theorem deleted_file_still_advertised:
  assumes "Cloud_Upload adv n fs s path = (n1, fs1, s1, Inr info)" and "ix_dht (cl_index s)"
    and "\<And>n x. snd (adv n x)" and "storage_ready (cl_storage s) fs1"
    and "holds (cl_storage s) fs1 name d" and "fi_Hash info = content_hash d"
    and "AdvertiseLoop adv (n1, cl_index s1) [AdvertiseTick order] = (n2, ix)" and "set order = advertisedHash (cl_index s1)"
  shows "\<exists>fs2. Cloud_Delete fs1 s1 (fi_Hash info) = (fs2, None) \<and> fi_Hash info \<in> set order \<and> fi_Hash info \<in> advertisedHash ix
    \<and> requestMetadata (serving (cl_storage s1) fs2) () p (fi_Hash info) = ((), Inl (Refused ''file not found''))"
proof -
  have s1: "cl_storage s1 = cl_storage s" "fi_Hash info \<in> advertisedHash (cl_index s1)" "ix_dht (cl_index s1)"
    using assms(1,2,3) by (auto simp: Cloud_Upload_def Advertise_def split: prod.splits sum.splits bool.splits if_splits) (metis snd_conv)+
  obtain fs2 where del: "Storage_Delete (cl_storage s) fs1 (content_hash d) = (fs2, True)" "same_tree fs1 fs2"
      "\<And>q. file_at fs2 q = (if q = meta_at (cl_storage s) fs1 (content_hash d)
        \<or> q \<in> chunk_at (cl_storage s) fs1 ` ck_Hash ` set (fm_Chunks (metadata_of name d)) then None else file_at fs1 q)"
    using Delete_effect [OF assms(4) hash_name_hash holds_loads [OF assms(5)] metadata_hashes] by blast
  have ready: "storage_ready (cl_storage s) fs2" using assms(4) storage_ready_tree [OF del(2)] by simp
  have "loadMetadata (cl_storage s) fs2 (content_hash d) = None"
    by (simp add: loadMetadata_def store_reads [OF ready] del(3) at_tree [OF del(2)])
  then have "requestMetadata (serving (cl_storage s1) fs2) () p (fi_Hash info) = ((), Inl (Refused ''file not found''))"
    by (simp add: serving_metadata assms(6) GetMetadata_def s1(1))
  moreover have keep: "fi_Hash info \<in> advertisedHash (snd (advertise_tick adv (m, ix) xs))" if "fi_Hash info \<in> advertisedHash ix" for m ix xs
    using that
  proof (induction xs arbitrary: m ix)
    case Nil
    then show ?case by (simp add: advertise_tick_def)
  next
    case (Cons x xs)
    obtain m' ix' e where a: "Advertise adv m ix x = (m', ix', e)" by (cases "Advertise adv m ix x")
    then have "fi_Hash info \<in> advertisedHash ix'"
      using Cons.prems by (auto simp: Advertise_def split: if_splits prod.splits bool.splits)
    with Cons.IH [of ix' m'] show ?case by (simp add: advertise_tick_def a)
  qed
  ultimately show ?thesis
    using keep [OF s1(2), of n1 order] s1 assms(7,8) del(1) by (simp add: Cloud_Delete_def assms(6))
qed

lemma deleted_file_still_advertised_witness:
  "\<exists>f1 f2. Cloud_Delete f1 (demo_service ''peer-alice'') (content_hash ''hello'') = (f2, None)
    \<and> requestMetadata (serving demo_storage f2) () ''peer-alice'' (content_hash ''hello'') = ((), Inl (Refused ''file not found''))"
proof -
  let ?s = "(demo_service ''peer-alice'')\<lparr>cl_index := \<lparr>ix_dht = True, advertisedHash = {content_hash ''hello''}\<rparr>\<rparr>"
  let ?adv = "\<lambda>n x. (n, True) :: unit \<times> bool"
  obtain f where f: "Cloud_Upload ?adv () demo_disk (demo_service ''peer-alice'') ''in.txt''
      = ((), f, ?s, Inr \<lparr>fi_Hash = content_hash ''hello'', fi_Name = Base ''in.txt'', fi_Size = int (length ''hello''),
           fi_ChunkCount = int (length (split_chunks ''hello'')), fi_LocalPath = ''in.txt''\<rparr>)"
      "holds demo_storage f (Base ''in.txt'') ''hello''" "storage_ready demo_storage f"
    by (rule demo_upload)
  have loop: "AdvertiseLoop ?adv ((), cl_index ?s) [AdvertiseTick [content_hash ''hello'']] = ((), cl_index ?s)"
    by (simp add: advertise_tick_def Advertise_def)
  have "\<exists>f2. Cloud_Delete f ?s (content_hash ''hello'') = (f2, None)
      \<and> requestMetadata (serving (cl_storage ?s) f2) () ''peer-alice'' (content_hash ''hello'') = ((), Inl (Refused ''file not found''))"
    using deleted_file_still_advertised [OF f(1) _ _ _ _ _ loop, of "Base ''in.txt''" "''hello''" "''peer-alice''"] f(2,3) by simp
  moreover have "Cloud_Delete f ?s h = Cloud_Delete f (demo_service ''peer-alice'') h" for h by (simp add: Cloud_Delete_def)
  ultimately show ?thesis by auto
qed

end
