(* ===== verification/StorageList.thy ===== *)
theory StorageList
  imports FileStorage
begin

text \<open>
  What a storage of \<open>internal/cloud/storage.go\<close> lists: the files of its metadata directory refine a
  map from hashes to names and contents, which \<open>Store\<close> and \<open>Delete\<close> update and \<open>List\<close> enumerates.
\<close>

section \<open>The catalog\<close>

type_synonym catalog = "string \<rightharpoonup> string \<times> bytes"

definition listed :: "string \<times> bytes \<Rightarrow> file_info" where
  "listed x = \<lparr>fi_Hash = content_hash (snd x), fi_Name = fst x, fi_Size = int (length (snd x)),
     fi_ChunkCount = int (length (split_chunks (snd x))), fi_LocalPath = []\<rparr>"

definition meta_dir :: "storage \<Rightarrow> fs \<Rightarrow> path" where
  "meta_dir st fs = resolve fs (st_metaDir st)"

text \<open>The directory may be read.\<close>

definition readable :: "storage \<Rightarrow> fs \<Rightarrow> bool" where
  "readable st fs \<longleftrightarrow> st_metaDir st \<noteq> [] \<and> fs_allow fs (meta_dir st fs)"

definition shows_file :: "storage \<Rightarrow> fs \<Rightarrow> string \<Rightarrow> string \<times> bytes \<Rightarrow> bool" where
  "shows_file st fs h x \<longleftrightarrow> h = content_hash (snd x) \<and> utf8_ok (fst x) \<and> int (length (snd x)) < 2 ^ 63 \<and>
     file_at fs (meta_at st fs h) = Some (json_indent (meta_json (metadata_of (fst x) (snd x))))"

definition catalog_at :: "storage \<Rightarrow> fs \<Rightarrow> catalog \<Rightarrow> bool" where
  "catalog_at st fs M \<longleftrightarrow> storage_ready st fs \<and> readable st fs \<and> (\<forall>h x. M h = Some x \<longrightarrow> shows_file st fs h x) \<and>
     (\<forall>n. file_at fs (meta_dir st fs @ [n]) \<noteq> None \<longrightarrow> (\<exists>h. n = h @ ''.json'' \<and> M h \<noteq> None))"

lemma catalog_shows: "catalog_at st fs M \<Longrightarrow> M h = Some x \<Longrightarrow> shows_file st fs h x"
  by (cases x) (simp add: catalog_at_def)

lemma catalog_names: "catalog_at st fs M \<Longrightarrow> file_at fs (meta_dir st fs @ [n]) \<noteq> None \<Longrightarrow> \<exists>h. n = h @ ''.json'' \<and> M h \<noteq> None"
  unfolding catalog_at_def by blast

lemma meta_at_dir: "meta_at st fs h = meta_dir st fs @ [h @ ''.json'']"
  by (simp add: meta_at_def meta_dir_def)

lemma readable_tree: "same_tree fs fs' \<Longrightarrow> readable st fs' = readable st fs"
  by (simp add: readable_def meta_dir_def same_treeD)

lemma meta_dir_tree: "same_tree fs fs' \<Longrightarrow> meta_dir st fs' = meta_dir st fs"
  by (simp add: meta_dir_def same_treeD)

lemma json_ext [simp]: "path_ext (h @ ''.json'') = ''.json''"
  by (simp add: path_ext_def)

lemma ready_dir: "storage_ready st fs \<Longrightarrow> meta_dir st fs \<in> set (fs_dirs fs)"
    "storage_ready st fs \<Longrightarrow> meta_dir st fs @ [n] \<notin> set (fs_dirs fs)" "storage_ready st fs \<Longrightarrow> CHR 0x00 \<notin> set (st_metaDir st)"
  by (simp_all add: storage_ready_def meta_dir_def)

lemma chunk_not_meta: "storage_ready st fs \<Longrightarrow> chunk_at st fs h \<noteq> meta_dir st fs @ [n]"
  by (auto simp: storage_ready_def chunk_at_def meta_dir_def)

text \<open>The names in the directory are those of the files.\<close>

lemma meta_names:
  assumes "storage_ready st fs" "readable st fs"
  obtains names where "os_ReadDir fs (st_metaDir st) = Some names" "distinct names"
    "\<And>n. n \<in> set names \<longleftrightarrow> file_at fs (meta_dir st fs @ [n]) \<noteq> None"
proof -
  let ?rs = "filter (\<lambda>r. r \<noteq> [] \<and> butlast r = meta_dir st fs) (map fst (fs_files fs) @ fs_dirs fs)"
  let ?names = "sort (remdups (map last ?rs))"
  have "os_ReadDir fs (st_metaDir st) = Some ?names"
    using assms ready_dir [OF assms(1)] by (simp add: os_ReadDir_def readable_def meta_dir_def Let_def)
  moreover have "n \<in> set ?names \<longleftrightarrow> file_at fs (meta_dir st fs @ [n]) \<noteq> None" for n
  proof -
    have "n \<in> set ?names \<longleftrightarrow> (\<exists>r. r \<in> set (map fst (fs_files fs) @ fs_dirs fs) \<and> r \<noteq> [] \<and> butlast r = meta_dir st fs \<and> last r = n)"
      by auto
    also have "\<dots> \<longleftrightarrow> meta_dir st fs @ [n] \<in> set (map fst (fs_files fs) @ fs_dirs fs)"
      by (metis append_butlast_last_id butlast_snoc last_snoc snoc_eq_iff_butlast)
    also have "\<dots> \<longleftrightarrow> file_at fs (meta_dir st fs @ [n]) \<noteq> None"
      using ready_dir(2) [OF assms(1)] by (auto simp: map_of_eq_None_iff)
    finally show ?thesis .
  qed
  ultimately show thesis
    using that [of ?names] by simp
qed

lemma shows_info:
  assumes "storage_ready st fs" "shows_file st fs h x"
  shows "GetInfo st fs h = Some (listed x)"
proof -
  have "loadMetadata st fs h = Some (metadata_of (fst x) (snd x))"
    using assms by (auto simp: shows_file_def loadMetadata_def store_reads metadata_ok)
  then show ?thesis
    using assms(2) by (simp add: GetInfo_def listed_def metadata_of_def)
qed

lemma listed_hash [simp]: "fi_Hash (listed x) = content_hash (snd x)"
  by (simp add: listed_def)

lemma catalog_list:
  assumes "catalog_at st fs M"
  obtains infos where "Storage_List st fs = Some infos" "set infos = listed ` ran M" "distinct (map fi_Hash infos)"
proof -
  have st: "storage_ready st fs" "readable st fs"
    using assms by (simp_all add: catalog_at_def)
  obtain names where n: "os_ReadDir fs (st_metaDir st) = Some names" "distinct names"
      "\<And>n. n \<in> set names \<longleftrightarrow> file_at fs (meta_dir st fs @ [n]) \<noteq> None"
    using meta_names [OF st] by blast
  have in_dom: "\<exists>h x. n = h @ ''.json'' \<and> M h = Some x \<and> shows_file st fs h x" if n_in: "n \<in> set names" for n
    using n_in catalog_names [OF assms, of n] catalog_shows [OF assms] unfolding n(3) by blast
  let ?f = "\<lambda>n. if path_ext n \<noteq> ''.json'' then None else GetInfo st fs (take (length n - 5) n)"
  have f: "?f (h @ ''.json'') = Some (listed x)" if "M h = Some x" for h x
    using catalog_shows [OF assms that] shows_info [OF st(1)] by simp
  have "set (List.map_filter ?f ns) = {listed x |h x. M h = Some x \<and> h @ ''.json'' \<in> set ns} \<and>
      distinct (map fi_Hash (List.map_filter ?f ns))" if "distinct ns" "set ns \<subseteq> set names" for ns
    using that
  proof (induction ns)
    case (Cons n ns)
    obtain h x where h: "n = h @ ''.json''" "M h = Some x" "shows_file st fs h x"
      using in_dom [of n] Cons.prems(2) by (metis list.set_intros(1) subset_iff)
    have "h' = h" if "M h' = Some x'" "content_hash (snd x') = content_hash (snd x)" for h' x'
      using catalog_shows [OF assms that(1)] that(2) h(3) by (simp add: shows_file_def)
    then have "fi_Hash (listed x) \<notin> fi_Hash ` {listed x |h x. M h = Some x \<and> h @ ''.json'' \<in> set ns}"
      using Cons.prems(1) h(1) by fastforce
    moreover have "{listed x |h x. M h = Some x \<and> h @ ''.json'' \<in> set (n # ns)}
        = insert (listed x) {listed x |h x. M h = Some x \<and> h @ ''.json'' \<in> set ns}"
      using h(1,2) by (auto simp del: split_paired_Ex)
    ultimately show ?case
      using Cons f [OF h(2)] h(1) by (simp add: map_filter_simps)
  qed (simp add: map_filter_simps)
  from this [of names] n(2) have infos: "set (List.map_filter ?f names) = {listed x |h x. M h = Some x \<and> h @ ''.json'' \<in> set names}"
      "distinct (map fi_Hash (List.map_filter ?f names))"
    by auto
  have "h @ ''.json'' \<in> set names" if "M h = Some x" for h x
    using catalog_shows [OF assms that] unfolding n(3) shows_file_def meta_at_dir by (metis option.distinct(1))
  then have "set (List.map_filter ?f names) = listed ` ran M"
    unfolding infos(1) ran_def by blast
  then show thesis
    using that infos(2) n(1) by (simp add: Storage_List_def)
qed

section \<open>Operations\<close>

datatype storage_op = UploadOp string | DeleteOp string

fun storage_op_run :: "storage \<Rightarrow> fs \<Rightarrow> storage_op \<Rightarrow> fs" where
  "storage_op_run st fs (UploadOp p) = fst (Store st fs p)"
| "storage_op_run st fs (DeleteOp h) = fst (Storage_Delete st fs h)"

text \<open>\<open>src\<close> are the contents of the uploaded files.\<close>

fun catalog_op :: "(string \<Rightarrow> bytes) \<Rightarrow> catalog \<Rightarrow> storage_op \<Rightarrow> catalog" where
  "catalog_op src M (UploadOp p) = M(content_hash (src p) \<mapsto> (Base p, src p))"
| "catalog_op src M (DeleteOp h) = M(h := None)"

fun storage_op_ok :: "storage \<Rightarrow> fs \<Rightarrow> (string \<Rightarrow> bytes) \<Rightarrow> storage_op \<Rightarrow> bool" where
  "storage_op_ok st fs src (UploadOp p) = (source_ok st fs (p, src p) \<and> collision_free (blocks (src p)))"
| "storage_op_ok st fs src (DeleteOp h) = hash_name h"

lemma shows_keeps:
  assumes "same_tree fs fs'" "shows_file st fs h x" "file_at fs' (meta_at st fs h) = file_at fs (meta_at st fs h)"
  shows "shows_file st fs' h x"
  using assms(2) unfolding shows_file_def at_tree(2) [OF assms(1)] assms(3) .

lemma catalog_Store:
  assumes "catalog_at st fs M" "os_ReadFile fs p = Some d" "utf8_ok (Base p)" "int (length d) < 2 ^ 63" "collision_free (blocks d)"
  obtains fs' where "fst (Store st fs p) = fs'" "same_tree fs fs'" "catalog_at st fs' (M(content_hash d \<mapsto> (Base p, d)))"
    "\<And>q. q \<noteq> meta_at st fs (content_hash d) \<Longrightarrow> q \<notin> (\<lambda>c. chunk_at st fs (content_hash c)) ` set (split_chunks d) \<Longrightarrow>
      file_at fs' q = file_at fs q"
proof -
  have st: "storage_ready st fs" "readable st fs"
    using assms(1) by (simp_all add: catalog_at_def)
  obtain fs' where s: "fst (Store st fs p) = fs'" "same_tree fs fs'" "holds st fs' (Base p) d"
      "\<And>q. q \<noteq> meta_at st fs (content_hash d) \<Longrightarrow> q \<notin> (\<lambda>c. chunk_at st fs (content_hash c)) ` set (split_chunks d) \<Longrightarrow>
        file_at fs' q = file_at fs q"
    using Store_ok [OF st(1) assms(2-5)] by (metis fst_conv)
  have frame: "file_at fs' (meta_dir st fs @ [n]) = file_at fs (meta_dir st fs @ [n])" if "n \<noteq> content_hash d @ ''.json''" for n
    using that chunk_not_meta [OF st(1), THEN not_sym] by (intro s(4)) (auto simp: meta_at_dir)
  have "shows_file st fs' (content_hash d) (Base p, d)"
    using s(3) by (simp add: holds_def shows_file_def)
  moreover have "shows_file st fs' h x" if "M h = Some x" "h \<noteq> content_hash d" for h x
    using that catalog_shows [OF assms(1)] frame [of "h @ ''.json''"] by (intro shows_keeps [OF s(2)]) (simp_all add: meta_at_dir)
  moreover have "\<exists>h. n = h @ ''.json'' \<and> (M(content_hash d \<mapsto> (Base p, d))) h \<noteq> None"
    if n_in: "file_at fs' (meta_dir st fs' @ [n]) \<noteq> None" for n
  proof (cases "n = content_hash d @ ''.json''")
    case False
    then obtain h where "n = h @ ''.json''" "M h \<noteq> None"
      using n_in catalog_names [OF assms(1), of n] frame [of n] unfolding meta_dir_tree [OF s(2)] by metis
    then show ?thesis
      by (intro exI [of _ h]) simp
  qed simp
  ultimately have "catalog_at st fs' (M(content_hash d \<mapsto> (Base p, d)))"
    using st by (auto simp: catalog_at_def storage_ready_tree [OF s(2)] readable_tree [OF s(2)])
  with s that show thesis
    by blast
qed

lemma catalog_Delete:
  assumes "catalog_at st fs M" "hash_name h"
  obtains fs' where "fst (Storage_Delete st fs h) = fs'" "same_tree fs fs'" "catalog_at st fs' (M(h := None))"
    "\<And>q. file_at fs' q = file_at fs q \<or> q = meta_at st fs h \<or> (\<exists>k. q = chunk_at st fs k)"
proof (cases "M h")
  case None
  have st: "storage_ready st fs"
    using assms(1) by (simp add: catalog_at_def)
  have "file_at fs (meta_at st fs h) = None"
    using assms(1) None by (auto simp: catalog_at_def meta_at_dir)
  then have "Storage_Delete st fs h = (fs, False)"
    by (simp add: Storage_Delete_def loadMetadata_def store_reads [OF st assms(2)])
  then show thesis
    using that [of fs] assms(1) None st by (simp add: fun_upd_idem storage_ready_def)
next
  case (Some x)
  have st: "storage_ready st fs" "readable st fs" "shows_file st fs h x"
    using assms(1) catalog_shows [OF assms(1) Some] by (simp_all add: catalog_at_def)
  let ?m = "metadata_of (fst x) (snd x)"
  have "loadMetadata st fs h = Some ?m"
    using st by (auto simp: shows_file_def loadMetadata_def store_reads metadata_ok)
  then obtain fs' where d: "Storage_Delete st fs h = (fs', True)" "same_tree fs fs'"
      "\<And>q. file_at fs' q = (if q = meta_at st fs h \<or> q \<in> chunk_at st fs ` ck_Hash ` set (fm_Chunks ?m) then None else file_at fs q)"
    using Delete_effect [OF st(1) assms(2) _ metadata_hashes] by metis
  have frame: "file_at fs' (meta_dir st fs @ [n]) = (if n = h @ ''.json'' then None else file_at fs (meta_dir st fs @ [n]))" for n
    using chunk_not_meta [OF st(1), THEN not_sym] by (auto simp: d(3) meta_at_dir)
  have "shows_file st fs' k y" if "M k = Some y" "k \<noteq> h" for k y
    using that catalog_shows [OF assms(1)] frame [of "k @ ''.json''"] by (intro shows_keeps [OF d(2)]) (simp_all add: meta_at_dir)
  moreover have "\<exists>k. n = k @ ''.json'' \<and> (M(h := None)) k \<noteq> None"
    if n_in: "file_at fs' (meta_dir st fs' @ [n]) \<noteq> None" for n
  proof -
    have "n \<noteq> h @ ''.json''" "file_at fs (meta_dir st fs @ [n]) \<noteq> None"
      using n_in by (auto simp: frame meta_dir_tree [OF d(2)] split: if_splits)
    then obtain k where "n = k @ ''.json''" "M k \<noteq> None" "k \<noteq> h"
      using catalog_names [OF assms(1)] by blast
    then show ?thesis
      by (intro exI [of _ k]) simp
  qed
  ultimately have "catalog_at st fs' (M(h := None))"
    using st by (auto simp: catalog_at_def storage_ready_tree [OF d(2)] readable_tree [OF d(2)] split: if_splits)
  moreover have "file_at fs' q = file_at fs q \<or> q = meta_at st fs h \<or> (\<exists>k. q = chunk_at st fs k)" for q
    unfolding d(3) by auto
  ultimately show thesis
    using that [of fs'] d(1,2) by simp
qed

lemma catalog_run:
  assumes "catalog_at st fs M" "list_all (storage_op_ok st fs src) ops"
  shows "same_tree fs (foldl (storage_op_run st) fs ops)
    \<and> (\<forall>p. outside st fs p \<longrightarrow> os_ReadFile (foldl (storage_op_run st) fs ops) p = os_ReadFile fs p)
    \<and> catalog_at st (foldl (storage_op_run st) fs ops) (foldl (catalog_op src) M ops)"
  using assms(2)
proof (induction ops rule: rev_induct)
  case Nil
  then show ?case
    using assms(1) by (simp add: catalog_at_def storage_ready_def)
next
  case (snoc x ops)
  let ?f = "foldl (storage_op_run st) fs ops" and ?M = "foldl (catalog_op src) M ops"
  have IH: "same_tree fs ?f" "\<And>p. outside st fs p \<Longrightarrow> os_ReadFile ?f p = os_ReadFile fs p" "catalog_at st ?f ?M"
    using snoc by simp_all
  have at: "resolve ?f p \<noteq> chunk_at st ?f h \<and> resolve ?f p \<noteq> meta_at st ?f h" if "outside st fs p" for p h
    using outside_at [OF that] by (simp add: at_tree [OF IH(1)] same_treeD(6) [OF IH(1)])
  obtain g where g: "storage_op_run st ?f x = g" "same_tree ?f g" "catalog_at st g (catalog_op src ?M x)"
      "\<And>p. outside st fs p \<Longrightarrow> file_at g (resolve ?f p) = file_at ?f (resolve ?f p)"
  proof (cases x)
    case (UploadOp p)
    have p: "os_ReadFile ?f p = Some (src p)" "utf8_ok (Base p)" "int (length (src p)) < 2 ^ 63" "collision_free (blocks (src p))"
      using snoc.prems IH(2) UploadOp by (auto simp: source_ok_def)
    obtain g where g: "fst (Store st ?f p) = g" "same_tree ?f g" "catalog_at st g (?M(content_hash (src p) \<mapsto> (Base p, src p)))"
        "\<And>q. q \<noteq> meta_at st ?f (content_hash (src p)) \<Longrightarrow>
          q \<notin> (\<lambda>c. chunk_at st ?f (content_hash c)) ` set (split_chunks (src p)) \<Longrightarrow> file_at g q = file_at ?f q"
      using catalog_Store [OF IH(3) p] by metis
    have "file_at g (resolve ?f q) = file_at ?f (resolve ?f q)" if "outside st fs q" for q
      using at [OF that] by (intro g(4)) auto
    with g(1-3) UploadOp show thesis
      by (intro that [of g]) simp_all
  next
    case (DeleteOp h)
    obtain g where "fst (Storage_Delete st ?f h) = g" "same_tree ?f g" "catalog_at st g (?M(h := None))"
        "\<And>q. file_at g q = file_at ?f q \<or> q = meta_at st ?f h \<or> (\<exists>k. q = chunk_at st ?f k)"
      using catalog_Delete [OF IH(3), of h] snoc.prems DeleteOp by auto
    with DeleteOp at show thesis
      by (intro that [of g]) (simp_all, metis)
  qed
  have "os_ReadFile g p = os_ReadFile fs p" if "outside st fs p" for p
    using read_frame [OF g(2) g(4) [OF that]] IH(2) [OF that] by simp
  then show ?case
    using g(1,3) same_tree_trans [OF IH(1) g(2)] by simp
qed

text \<open>
  C7. \<open>List\<close> shows what was uploaded and not deleted since: after any sequence of \<open>Store\<close> and
  \<open>Delete\<close> on a new storage it lists each stored content once, under the name of its last
  upload and with its size and number of chunks, and nothing else; a file deleted twice, or
  one that shares chunks with a deleted file, does not disturb it.
\<close>

theorem list_follows_history:
  assumes "storage_ready st fs" "readable st fs" "\<forall>n. file_at fs (meta_dir st fs @ [n]) = None"
    and "list_all (storage_op_ok st fs src) ops"
  shows "\<exists>infos. Storage_List st (foldl (storage_op_run st) fs ops) = Some infos
    \<and> set infos = listed ` ran (foldl (catalog_op src) Map.empty ops) \<and> distinct (map fi_Hash infos)"
proof -
  have "catalog_at st fs Map.empty"
    using assms(1-3) by (simp add: catalog_at_def)
  then have "catalog_at st (foldl (storage_op_run st) fs ops) (foldl (catalog_op src) Map.empty ops)"
    using catalog_run assms(4) by blast
  then show ?thesis
    using catalog_list by metis
qed

lemma length_other: "length ''other'' \<noteq> 64" "hash_name ''other''"
  by (simp_all add: hash_name_def name_ok_def)

theorem list_follows_history_witness:
  "\<exists>infos. Storage_List demo_storage (foldl (storage_op_run demo_storage) (demo_fs [([''tmp'', ''in.txt''], ''hello'')])
       [UploadOp ''in.txt'', DeleteOp ''other'']) = Some infos
     \<and> listed (Base ''in.txt'', ''hello'') \<in> set infos"
proof -
  let ?fs = "demo_fs [([''tmp'', ''in.txt''], ''hello'')]"
  let ?ops = "[UploadOp ''in.txt'', DeleteOp ''other'']"
  have dir: "meta_dir demo_storage ?fs = [''data'', ''meta'']"
    by (simp add: meta_dir_def) (simp add: demo_storage_def)
  have "readable demo_storage ?fs" "\<forall>n. file_at ?fs (meta_dir demo_storage ?fs @ [n]) = None"
    by (simp_all add: readable_def dir) (simp_all add: demo_storage_def demo_fs_def)
  moreover have "source_ok demo_storage ?fs (''in.txt'', ''hello'')"
    by (simp add: source_ok_def os_ReadFile_def) (simp add: demo_fs_def)
  then have "list_all (storage_op_ok demo_storage ?fs (\<lambda>p. ''hello'')) ?ops"
    using collision_free_single [of "''hello''"] length_other(2) by (simp add: ChunkSize_def)
  ultimately obtain infos where infos: "Storage_List demo_storage (foldl (storage_op_run demo_storage) ?fs ?ops) = Some infos"
      "set infos = listed ` ran (foldl (catalog_op (\<lambda>p. ''hello'')) Map.empty ?ops)"
    using list_follows_history [OF demo_ready] by blast
  have "content_hash ''hello'' \<noteq> ''other''"
    using length_hash [of "''hello''"] length_other(1) by metis
  then have "(Base ''in.txt'', ''hello'') \<in> ran (foldl (catalog_op (\<lambda>p. ''hello'')) Map.empty ?ops)"
    by (auto simp: ran_def)
  with infos show ?thesis
    by blast
qed

end
