(* ===== verification/ChatRoom.thy ===== *)
theory ChatRoom
  imports FileTransfer
begin

text \<open>
  The chat of \<open>internal/chat\<close>: the service with its rooms and its channel of received messages
  (\<open>service.go\<close>, \<open>room.go\<close>), direct messages (\<open>dm.go\<close>) and the topic manager (\<open>pubsub.go\<close>).
  The goroutines that read a room are sessions of the state, one for each successful join;
  between two points where they wait they run in one step, and the step relation interleaves
  them with the calls of the application and the receiver of the channel.  PubSub is the
  outcome of joining and publishing and the arrival of messages.
\<close>

section \<open>Messages\<close>

datatype msg_type = MsgTypeText | MsgTypeJoin | MsgTypeLeave | MsgTypeSystem | MsgTypeOther string

text \<open>The type is a string; the four constants and any other text a peer may send.\<close>

fun type_text :: "msg_type \<Rightarrow> string" where
  "type_text MsgTypeText = ''text''"
| "type_text MsgTypeJoin = ''join''"
| "type_text MsgTypeLeave = ''leave''"
| "type_text MsgTypeSystem = ''system''"
| "type_text (MsgTypeOther s) = s"

definition type_of_text :: "string \<Rightarrow> msg_type" where
  "type_of_text s =
     (if s = ''text'' then MsgTypeText else if s = ''join'' then MsgTypeJoin
      else if s = ''leave'' then MsgTypeLeave else if s = ''system'' then MsgTypeSystem else MsgTypeOther s)"

record message =
  ms_ID :: string
  ms_From :: peer
  ms_Content :: string
  ms_RoomID :: string
  ms_Timestamp :: time
  ms_Type :: msg_type

definition zero_message :: message where
  "zero_message = \<lparr>ms_ID = [], ms_From = [], ms_Content = [], ms_RoomID = [], ms_Timestamp = zero_time,
     ms_Type = MsgTypeOther []\<rparr>"

definition generateMsgID :: "time \<Rightarrow> string" where
  "generateMsgID now = show_int (wrap64 now)"

definition EncodeMessage :: "env \<Rightarrow> time_codec \<Rightarrow> message \<Rightarrow> bytes option" where
  "EncodeMessage en tc m =
     map_option (\<lambda>t. json_text (JObj [(''id'', JStr (ms_ID m)), (''from'', JStr (pid_String en (ms_From m))),
         (''content'', JStr (ms_Content m)), (''room_id'', JStr (ms_RoomID m)), (''timestamp'', JStr t),
         (''type'', JStr (type_text (ms_Type m)))]))
       (tm_text tc (ms_Timestamp m))"

definition message_field :: "env \<Rightarrow> time_codec \<Rightarrow> string \<Rightarrow> json \<Rightarrow> message \<Rightarrow> message option" where
  "message_field en tc n j m =
     (if n = ''id'' then map_option (\<lambda>s. m\<lparr>ms_ID := s\<rparr>) (as_string j (ms_ID m))
      else if n = ''from'' then map_option (\<lambda>p. m\<lparr>ms_From := p\<rparr>) (as_peer en j)
      else if n = ''content'' then map_option (\<lambda>s. m\<lparr>ms_Content := s\<rparr>) (as_string j (ms_Content m))
      else if n = ''room_id'' then map_option (\<lambda>s. m\<lparr>ms_RoomID := s\<rparr>) (as_string j (ms_RoomID m))
      else if n = ''timestamp'' then map_option (\<lambda>t. m\<lparr>ms_Timestamp := t\<rparr>) (as_time tc j (ms_Timestamp m))
      else if n = ''type'' then map_option (\<lambda>s. m\<lparr>ms_Type := type_of_text s\<rparr>) (as_string j (type_text (ms_Type m)))
      else Some m)"

definition DecodeMessage :: "env \<Rightarrow> time_codec \<Rightarrow> bytes \<Rightarrow> message option" where
  "DecodeMessage en tc data =
     Option.bind (json_parse data) (\<lambda>j. decode_struct (message_field en tc) j zero_message)"

section \<open>Service and rooms\<close>

text \<open>
  The reader of a room waits for a message, has one and is about to select between the channel
  and its context, waits in that select because the channel is full, or has returned.
\<close>

datatype reader = Reading | Deciding message | Waiting message | Stopped

record session =
  sn_room :: string
  sn_done :: bool
  sn_reader :: reader
  sn_members :: "peer set"

record chat =
  ch_self :: peer
  ch_rooms :: "string \<rightharpoonup> nat"
  ch_sessions :: "session list"
  ch_buf :: "message list"
  ch_waiters :: "nat list"
  ch_closed :: bool
  ch_cancelled :: bool
  ch_published :: "(string \<times> bytes) list"
  ch_panic :: bool

datatype chat_error = AlreadyJoined | JoinFailed | NotInRoom | EncodeFailed | PublishFailed

definition chan_cap :: nat where
  "chan_cap = 100"

definition NewChatService :: "peer \<Rightarrow> chat" where
  "NewChatService self = \<lparr>ch_self = self, ch_rooms = Map.empty, ch_sessions = [], ch_buf = [], ch_waiters = [],
     ch_closed = False, ch_cancelled = False, ch_published = [], ch_panic = False\<rparr>"

definition topic_name :: "string \<Rightarrow> string" where
  "topic_name roomID = ''/p2papp/chat/'' @ roomID"

text \<open>The context of a room is done from the start when the service's is.\<close>

definition NewRoom :: "chat \<Rightarrow> string \<Rightarrow> session" where
  "NewRoom c roomID = \<lparr>sn_room = roomID, sn_done = ch_cancelled c, sn_reader = Reading, sn_members = {}\<rparr>"

definition Room_Publish :: "env \<Rightarrow> time_codec \<Rightarrow> bool \<Rightarrow> chat \<Rightarrow> string \<Rightarrow> message \<Rightarrow> chat \<times> chat_error option" where
  "Room_Publish en tc ok c roomID m =
     (case EncodeMessage en tc m of
        None \<Rightarrow> (c, Some EncodeFailed)
      | Some data \<Rightarrow>
          if ok then (c\<lparr>ch_published := ch_published c @ [(topic_name roomID, data)]\<rparr>, None)
          else (c, Some PublishFailed))"

definition notice_message :: "env \<Rightarrow> time \<Rightarrow> chat \<Rightarrow> string \<Rightarrow> string \<Rightarrow> msg_type \<Rightarrow> message" where
  "notice_message en now c roomID suffix t = \<lparr>ms_ID = generateMsgID now, ms_From = ch_self c,
     ms_Content = take 8 (pid_String en (ch_self c)) @ suffix, ms_RoomID = roomID, ms_Timestamp = now, ms_Type = t\<rparr>"

text \<open>
  \<open>joined\<close> is whether PubSub joins the topic and subscribes, \<open>ok\<close> whether it publishes.  Cutting the
  ID to eight characters panics when it has fewer.
\<close>

definition JoinRoom ::
    "env \<Rightarrow> time_codec \<Rightarrow> time \<Rightarrow> bool \<Rightarrow> bool \<Rightarrow> chat \<Rightarrow> string \<Rightarrow> chat \<times> chat_error option" where
  "JoinRoom en tc now joined ok c roomID =
     (if ch_rooms c roomID \<noteq> None then (c, Some AlreadyJoined)
      else if \<not> joined then (c, Some JoinFailed)
      else (let c' = c\<lparr>ch_rooms := (ch_rooms c)(roomID \<mapsto> length (ch_sessions c)),
                 ch_sessions := ch_sessions c @ [NewRoom c roomID]\<rparr>
            in if length (pid_String en (ch_self c)) < 8 then (c'\<lparr>ch_panic := True\<rparr>, None)
               else (fst (Room_Publish en tc ok c' roomID
                       (notice_message en now c roomID '' joined the room'' MsgTypeJoin)), None)))"

text \<open>Cancelling a context: a reader that waits in its select returns.\<close>

definition cancel_session :: "session \<Rightarrow> session" where
  "cancel_session s = s\<lparr>sn_done := True, sn_reader := (case sn_reader s of Waiting m \<Rightarrow> Stopped | r \<Rightarrow> r)\<rparr>"

definition Room_Close :: "chat \<Rightarrow> nat \<Rightarrow> chat" where
  "Room_Close c i =
     c\<lparr>ch_sessions := (ch_sessions c)[i := cancel_session (ch_sessions c ! i)],
       ch_waiters := filter (\<lambda>j. j \<noteq> i) (ch_waiters c)\<rparr>"

definition LeaveRoom :: "env \<Rightarrow> time_codec \<Rightarrow> time \<Rightarrow> bool \<Rightarrow> chat \<Rightarrow> string \<Rightarrow> chat \<times> chat_error option" where
  "LeaveRoom en tc now ok c roomID =
     (case ch_rooms c roomID of
        None \<Rightarrow> (c, Some NotInRoom)
      | Some i \<Rightarrow>
          if length (pid_String en (ch_self c)) < 8 then (c\<lparr>ch_panic := True\<rparr>, None)
          else (let c' = fst (Room_Publish en tc ok c roomID
                      (notice_message en now c roomID '' left the room'' MsgTypeLeave));
                    c'' = Room_Close c' i
                in (c''\<lparr>ch_rooms := (ch_rooms c'')(roomID := None)\<rparr>, None)))"

definition SendMessage ::
    "env \<Rightarrow> time_codec \<Rightarrow> time \<Rightarrow> bool \<Rightarrow> chat \<Rightarrow> string \<Rightarrow> string \<Rightarrow> chat \<times> chat_error option" where
  "SendMessage en tc now ok c roomID content =
     (case ch_rooms c roomID of
        None \<Rightarrow> (c, Some NotInRoom)
      | Some i \<Rightarrow> Room_Publish en tc ok c roomID \<lparr>ms_ID = generateMsgID now, ms_From = ch_self c, ms_Content = content,
          ms_RoomID = roomID, ms_Timestamp = now, ms_Type = MsgTypeText\<rparr>)"

definition ListRooms :: "chat \<Rightarrow> string list \<Rightarrow> string list" where
  "ListRooms c order = filter (\<lambda>r. ch_rooms c r \<noteq> None) order"

text \<open>The channel that the application receives from.\<close>

definition Chat_Subscribe :: "chat \<Rightarrow> message list" where
  "Chat_Subscribe c = ch_buf c"

text \<open>\<open>Close\<close> cancels every context before it takes the lock and closes the channel.\<close>

definition Close_cancel :: "chat \<Rightarrow> chat" where
  "Close_cancel c = c\<lparr>ch_cancelled := True, ch_sessions := map cancel_session (ch_sessions c), ch_waiters := []\<rparr>"

definition Close_channel :: "chat \<Rightarrow> chat" where
  "Close_channel c = (if ch_closed c then c\<lparr>ch_panic := True\<rparr> else c\<lparr>ch_closed := True\<rparr>)"

definition Chat_Close :: "chat \<Rightarrow> chat" where
  "Chat_Close c = Close_channel (Close_cancel c)"

section \<open>Readers\<close>

definition reader_of :: "chat \<Rightarrow> nat \<Rightarrow> reader" where
  "reader_of c i = sn_reader (ch_sessions c ! i)"

definition set_reader :: "chat \<Rightarrow> nat \<Rightarrow> reader \<Rightarrow> chat" where
  "set_reader c i r = c\<lparr>ch_sessions := (ch_sessions c)[i := (ch_sessions c ! i)\<lparr>sn_reader := r\<rparr>]\<rparr>"

text \<open>What \<open>readLoop\<close> does with a message that PubSub received from \<open>p\<close>.\<close>

definition reader_next :: "env \<Rightarrow> time_codec \<Rightarrow> peer \<Rightarrow> peer \<Rightarrow> bytes \<Rightarrow> reader" where
  "reader_next en tc self p data =
     (if p = self then Reading
      else (case DecodeMessage en tc data of None \<Rightarrow> Reading | Some m \<Rightarrow> Deciding m))"

definition peer_event :: "env \<Rightarrow> chat \<Rightarrow> nat \<Rightarrow> peer \<Rightarrow> bool \<Rightarrow> chat" where
  "peer_event en c i p join =
     (let s = ch_sessions c ! i;
          c' = c\<lparr>ch_sessions := (ch_sessions c)[i := s\<lparr>sn_members :=
            (if join then insert p (sn_members s) else sn_members s - {p})\<rparr>]\<rparr>
      in if length (pid_String en p) < 8 then c'\<lparr>ch_panic := True\<rparr> else c')"

definition Members :: "session \<Rightarrow> peer list \<Rightarrow> peer list" where
  "Members s order = filter (\<lambda>p. p \<in> sn_members s) order"

text \<open>
  The steps of the service: a call of the application, a message that arrives at a room, an
  error of its subscription, a reader that sends, waits, returns or panics in its select, and
  a message taken from the channel, which lets the first waiting reader send.
\<close>

datatype chat_call =
    CallJoin time bool bool string | CallLeave time bool string | CallSend time bool string string
  | CallCancel | CallClose

datatype chat_act =
    Call chat_call | Arrive nat peer bytes | ReadError nat | PeerEvent nat peer bool
  | Push nat message | Park nat | Quit nat | PushClosed nat
  | Receive message "(nat \<times> message) option"

fun do_call :: "env \<Rightarrow> time_codec \<Rightarrow> chat \<Rightarrow> chat_call \<Rightarrow> chat" where
  "do_call en tc c (CallJoin now joined ok r) = fst (JoinRoom en tc now joined ok c r)"
| "do_call en tc c (CallLeave now ok r) = fst (LeaveRoom en tc now ok c r)"
| "do_call en tc c (CallSend now ok r x) = fst (SendMessage en tc now ok c r x)"
| "do_call en tc c CallCancel = Close_cancel c"
| "do_call en tc c CallClose = Close_channel c"

inductive chat_step :: "env \<Rightarrow> time_codec \<Rightarrow> chat \<Rightarrow> chat_act \<Rightarrow> chat \<Rightarrow> bool" for en tc where
  step_call: "chat_step en tc c (Call x) (do_call en tc c x)"
| step_arrive: "i < length (ch_sessions c) \<Longrightarrow> reader_of c i = Reading \<Longrightarrow>
    chat_step en tc c (Arrive i p d) (set_reader c i (reader_next en tc (ch_self c) p d))"
| step_error: "i < length (ch_sessions c) \<Longrightarrow> reader_of c i = Reading \<Longrightarrow>
    chat_step en tc c (ReadError i) (if sn_done (ch_sessions c ! i) then set_reader c i Stopped else c)"
| step_peer: "i < length (ch_sessions c) \<Longrightarrow> chat_step en tc c (PeerEvent i p j) (peer_event en c i p j)"
| step_push: "i < length (ch_sessions c) \<Longrightarrow> reader_of c i = Deciding m \<Longrightarrow> \<not> ch_closed c \<Longrightarrow>
    length (ch_buf c) < chan_cap \<Longrightarrow>
    chat_step en tc c (Push i m) (set_reader (c\<lparr>ch_buf := ch_buf c @ [m]\<rparr>) i Reading)"
| step_park: "i < length (ch_sessions c) \<Longrightarrow> reader_of c i = Deciding m \<Longrightarrow> \<not> ch_closed c \<Longrightarrow>
    length (ch_buf c) = chan_cap \<Longrightarrow> \<not> sn_done (ch_sessions c ! i) \<Longrightarrow>
    chat_step en tc c (Park i) (set_reader (c\<lparr>ch_waiters := ch_waiters c @ [i]\<rparr>) i (Waiting m))"
| step_quit: "i < length (ch_sessions c) \<Longrightarrow> reader_of c i = Deciding m \<Longrightarrow> sn_done (ch_sessions c ! i) \<Longrightarrow>
    chat_step en tc c (Quit i) (set_reader c i Stopped)"
| step_closed: "i < length (ch_sessions c) \<Longrightarrow> reader_of c i = Deciding m \<Longrightarrow> ch_closed c \<Longrightarrow>
    chat_step en tc c (PushClosed i) (c\<lparr>ch_panic := True\<rparr>)"
| step_receive: "ch_buf c = m # ms \<Longrightarrow> ch_waiters c = [] \<Longrightarrow>
    chat_step en tc c (Receive m None) (c\<lparr>ch_buf := ms\<rparr>)"
| step_receive_wake: "ch_buf c = m # ms \<Longrightarrow> ch_waiters c = i # is \<Longrightarrow> reader_of c i = Waiting w \<Longrightarrow>
    chat_step en tc c (Receive m (Some (i, w))) (set_reader (c\<lparr>ch_buf := ms @ [w], ch_waiters := is\<rparr>) i Reading)"

inductive_cases chat_stepE: "chat_step en tc c a c'"

inductive chat_run :: "env \<Rightarrow> time_codec \<Rightarrow> chat \<Rightarrow> chat_act list \<Rightarrow> chat \<Rightarrow> bool" for en tc where
  run_Nil: "chat_run en tc c [] c"
| run_snoc: "chat_run en tc c as c' \<Longrightarrow> chat_step en tc c' a c'' \<Longrightarrow> chat_run en tc c (as @ [a]) c''"

text \<open>
  The same steps as a function, for the program that runs beside the service: \<open>None\<close> where the
  goroutine cannot take the step.
\<close>

fun goroutine_step :: "env \<Rightarrow> time_codec \<Rightarrow> chat \<Rightarrow> chat_act \<Rightarrow> chat option" where
  "goroutine_step en tc c (Call x) = None"
| "goroutine_step en tc c (Arrive i p d) =
     (if i < length (ch_sessions c) \<and> reader_of c i = Reading
      then Some (set_reader c i (reader_next en tc (ch_self c) p d)) else None)"
| "goroutine_step en tc c (ReadError i) =
     (if i < length (ch_sessions c) \<and> reader_of c i = Reading
      then Some (if sn_done (ch_sessions c ! i) then set_reader c i Stopped else c) else None)"
| "goroutine_step en tc c (PeerEvent i p j) = (if i < length (ch_sessions c) then Some (peer_event en c i p j) else None)"
| "goroutine_step en tc c (Push i m) =
     (if i < length (ch_sessions c) \<and> reader_of c i = Deciding m \<and> \<not> ch_closed c \<and> length (ch_buf c) < chan_cap
      then Some (set_reader (c\<lparr>ch_buf := ch_buf c @ [m]\<rparr>) i Reading) else None)"
| "goroutine_step en tc c (Park i) =
     (if i < length (ch_sessions c) \<and> \<not> ch_closed c \<and> length (ch_buf c) = chan_cap \<and> \<not> sn_done (ch_sessions c ! i)
      then (case reader_of c i of
              Deciding m \<Rightarrow> Some (set_reader (c\<lparr>ch_waiters := ch_waiters c @ [i]\<rparr>) i (Waiting m))
            | _ \<Rightarrow> None)
      else None)"
| "goroutine_step en tc c (Quit i) =
     (if i < length (ch_sessions c) \<and> sn_done (ch_sessions c ! i)
      then (case reader_of c i of Deciding m \<Rightarrow> Some (set_reader c i Stopped) | _ \<Rightarrow> None)
      else None)"
| "goroutine_step en tc c (PushClosed i) =
     (if i < length (ch_sessions c) \<and> ch_closed c
      then (case reader_of c i of Deciding m \<Rightarrow> Some (c\<lparr>ch_panic := True\<rparr>) | _ \<Rightarrow> None)
      else None)"
| "goroutine_step en tc c (Receive m w) =
     (case ch_buf c of
        [] \<Rightarrow> None
      | x # ms \<Rightarrow>
          if x \<noteq> m then None
          else (case ch_waiters c of
                  [] \<Rightarrow> if w = None then Some (c\<lparr>ch_buf := ms\<rparr>) else None
                | i # is \<Rightarrow>
                    (case reader_of c i of
                       Waiting v \<Rightarrow> if w = Some (i, v)
                         then Some (set_reader (c\<lparr>ch_buf := ms @ [v], ch_waiters := is\<rparr>) i Reading) else None
                     | _ \<Rightarrow> None)))"

lemma goroutine_step_iff:
  "goroutine_step en tc c a = Some c' \<longleftrightarrow> chat_step en tc c a c' \<and> (\<forall>x. a \<noteq> Call x)"
proof
  assume "goroutine_step en tc c a = Some c'"
  then show "chat_step en tc c a c' \<and> (\<forall>x. a \<noteq> Call x)"
  proof (cases a)
    case (ReadError i)
    then show ?thesis
      using \<open>goroutine_step en tc c a = Some c'\<close> step_error [where i = i and c = c] by (auto split: if_splits)
  qed (auto intro: chat_step.intros split: if_splits list.splits reader.splits)
next
  assume "chat_step en tc c a c' \<and> (\<forall>x. a \<noteq> Call x)"
  then have "chat_step en tc c a c'" "\<And>x. a \<noteq> Call x"
    by simp_all
  then show "goroutine_step en tc c a = Some c'"
    by (cases rule: chat_step.cases) auto
qed

text \<open>Several such steps; a panic ends the process, so that nothing runs after it.\<close>

fun goroutines :: "env \<Rightarrow> time_codec \<Rightarrow> chat \<Rightarrow> chat_act list \<Rightarrow> chat option" where
  "goroutines en tc c [] = Some c"
| "goroutines en tc c (a # acts) =
     (if ch_panic c then Some c
      else Option.bind (goroutine_step en tc c a) (\<lambda>c'. goroutines en tc c' acts))"

section \<open>Direct messages\<close>

record direct_message =
  dm_From :: peer
  dm_Content :: string
  dm_Timestamp :: time

record dm_handler =
  dm_buf :: "direct_message list"
  dm_closed :: bool
  dm_registered :: bool

definition DMProtocol :: string where
  "DMProtocol = ''/p2papp/dm/1.0.0''"

definition dm_cap :: nat where
  "dm_cap = 50"

definition NewDirectMessage :: dm_handler where
  "NewDirectMessage = \<lparr>dm_buf = [], dm_closed = False, dm_registered = False\<rparr>"

definition DM_RegisterHandler :: "dm_handler \<Rightarrow> dm_handler" where
  "DM_RegisterHandler h = h\<lparr>dm_registered := True\<rparr>"

definition dm_field :: "env \<Rightarrow> time_codec \<Rightarrow> string \<Rightarrow> json \<Rightarrow> direct_message \<Rightarrow> direct_message option" where
  "dm_field en tc n j m =
     (if n = ''from'' then map_option (\<lambda>p. m\<lparr>dm_From := p\<rparr>) (as_peer en j)
      else if n = ''content'' then map_option (\<lambda>s. m\<lparr>dm_Content := s\<rparr>) (as_string j (dm_Content m))
      else if n = ''timestamp'' then map_option (\<lambda>t. m\<lparr>dm_Timestamp := t\<rparr>) (as_time tc j (dm_Timestamp m))
      else Some m)"

definition dm_text :: "env \<Rightarrow> time_codec \<Rightarrow> direct_message \<Rightarrow> bytes option" where
  "dm_text en tc m =
     map_option (\<lambda>t. json_text (JObj [(''from'', JStr (pid_String en (dm_From m))), (''content'', JStr (dm_Content m)),
       (''timestamp'', JStr t)])) (tm_text tc (dm_Timestamp m))"

text \<open>
  A stream from \<open>remote\<close>, read up to its first line break or its end; when it is \<open>broken\<close> the
  bytes are followed by an error other than the end, which only a line break keeps out.  A
  full channel drops the message, a closed one panics (\<open>None\<close>).
\<close>

definition handleStream :: "env \<Rightarrow> time_codec \<Rightarrow> dm_handler \<Rightarrow> peer \<Rightarrow> bool \<Rightarrow> bytes \<Rightarrow> dm_handler option" where
  "handleStream en tc h remote broken stream =
     (case read_line stream of
        (data, whole) \<Rightarrow>
          if \<not> whole \<and> broken then Some h
          else (case Option.bind (json_parse data)
              (\<lambda>j. decode_struct (dm_field en tc) j \<lparr>dm_From = [], dm_Content = [], dm_Timestamp = zero_time\<rparr>) of
             None \<Rightarrow> Some h
           | Some m \<Rightarrow>
               if dm_closed h then None
               else if length (dm_buf h) < dm_cap then Some (h\<lparr>dm_buf := dm_buf h @ [m\<lparr>dm_From := remote\<rparr>]\<rparr>)
               else Some h))"

datatype dm_error = DmOpenFailed | DmEncodeFailed | DmSendFailed | DmPanic

text \<open>\<open>Send\<close>: \<open>opened\<close> and \<open>written\<close> are the outcomes of the stream; the text of a failure to open cuts the ID.\<close>

definition DM_Send :: "env \<Rightarrow> time_codec \<Rightarrow> time \<Rightarrow> bool \<Rightarrow> bool \<Rightarrow> peer \<Rightarrow> peer \<Rightarrow> string \<Rightarrow> dm_error + bytes" where
  "DM_Send en tc now opened written self p content =
     (if \<not> opened then (if length (pid_String en p) < 8 then Inl DmPanic else Inl DmOpenFailed)
      else (case dm_text en tc \<lparr>dm_From = self, dm_Content = content, dm_Timestamp = now\<rparr> of
              None \<Rightarrow> Inl DmEncodeFailed
            | Some data \<Rightarrow> if written then Inr (data @ [newline]) else Inl DmSendFailed))"

definition SendDM :: "env \<Rightarrow> time_codec \<Rightarrow> time \<Rightarrow> bool \<Rightarrow> bool \<Rightarrow> chat \<Rightarrow> peer \<Rightarrow> string \<Rightarrow> dm_error + bytes" where
  "SendDM en tc now opened written c p content = DM_Send en tc now opened written (ch_self c) p content"

definition DM_Subscribe :: "dm_handler \<Rightarrow> direct_message list" where
  "DM_Subscribe h = dm_buf h"

definition DM_Close :: "dm_handler \<Rightarrow> dm_handler option" where
  "DM_Close h = (if dm_closed h then None else Some (h\<lparr>dm_registered := False, dm_closed := True\<rparr>))"

section \<open>The topic manager\<close>

text \<open>\<open>'t\<close> are the topic handles of PubSub; joining gives one or fails.\<close>

definition NewPubSubManager :: "string \<rightharpoonup> 't" where
  "NewPubSubManager = Map.empty"

definition JoinTopic :: "(string \<Rightarrow> 't option) \<Rightarrow> (string \<rightharpoonup> 't) \<Rightarrow> string \<Rightarrow> (string \<rightharpoonup> 't) \<times> 't option" where
  "JoinTopic join ts name =
     (case ts name of
        Some t \<Rightarrow> (ts, Some t)
      | None \<Rightarrow> (case join name of None \<Rightarrow> (ts, None) | Some t \<Rightarrow> (ts(name \<mapsto> t), Some t)))"

definition LeaveTopic :: "('t \<Rightarrow> bool) \<Rightarrow> (string \<rightharpoonup> 't) \<Rightarrow> string \<Rightarrow> (string \<rightharpoonup> 't) \<times> bool" where
  "LeaveTopic close ts name =
     (case ts name of
        None \<Rightarrow> (ts, True)
      | Some t \<Rightarrow> if close t then (ts(name := None), True) else (ts, False))"

definition Manager_Publish ::
    "(string \<Rightarrow> 't option) \<Rightarrow> ('t \<Rightarrow> bytes \<Rightarrow> bool) \<Rightarrow> (string \<rightharpoonup> 't) \<Rightarrow> string \<Rightarrow> bytes \<Rightarrow> (string \<rightharpoonup> 't) \<times> bool" where
  "Manager_Publish join pub ts name data =
     (case JoinTopic join ts name of (ts', None) \<Rightarrow> (ts', False) | (ts', Some t) \<Rightarrow> (ts', pub t data))"

definition Manager_Subscribe ::
    "(string \<Rightarrow> 't option) \<Rightarrow> ('t \<Rightarrow> 's option) \<Rightarrow> (string \<rightharpoonup> 't) \<Rightarrow> string \<Rightarrow> (string \<rightharpoonup> 't) \<times> 's option" where
  "Manager_Subscribe join sub ts name =
     (case JoinTopic join ts name of (ts', None) \<Rightarrow> (ts', None) | (ts', Some t) \<Rightarrow> (ts', sub t))"

definition Manager_Close :: "(string \<rightharpoonup> 't) \<Rightarrow> (string \<rightharpoonup> 't)" where
  "Manager_Close ts = Map.empty"

section \<open>The order of messages\<close>

text \<open>What a step accepts from PubSub for a room, hands to the channel, and takes out of it.\<close>

fun accepts :: "env \<Rightarrow> time_codec \<Rightarrow> peer \<Rightarrow> chat_act \<Rightarrow> (nat \<times> message) list" where
  "accepts en tc self (Arrive i p d) = (case reader_next en tc self p d of Deciding m \<Rightarrow> [(i, m)] | _ \<Rightarrow> [])"
| "accepts en tc self _ = []"

fun hands :: "chat_act \<Rightarrow> (nat \<times> message) list" where
  "hands (Push i m) = [(i, m)]"
| "hands (Receive _ (Some x)) = [x]"
| "hands _ = []"

fun takes :: "chat_act \<Rightarrow> message list" where
  "takes (Receive m _) = [m]"
| "takes _ = []"

definition accepted :: "env \<Rightarrow> time_codec \<Rightarrow> peer \<Rightarrow> chat_act list \<Rightarrow> (nat \<times> message) list" where
  "accepted en tc self acts = concat (map (accepts en tc self) acts)"

definition handed :: "chat_act list \<Rightarrow> (nat \<times> message) list" where
  "handed acts = concat (map hands acts)"

definition taken :: "chat_act list \<Rightarrow> message list" where
  "taken acts = concat (map takes acts)"

definition of_room :: "nat \<Rightarrow> (nat \<times> message) list \<Rightarrow> message list" where
  "of_room i xs = map snd (filter (\<lambda>x. fst x = i) xs)"

text \<open>The messages a reader holds: one that stopped may have dropped the one it held.\<close>

fun held :: "reader \<Rightarrow> message list \<Rightarrow> bool" where
  "held Reading xs = (xs = [])"
| "held (Deciding m) xs = (xs = [m])"
| "held (Waiting m) xs = (xs = [m])"
| "held Stopped xs = (length xs \<le> 1)"

lemma trace_snoc [simp]:
  "accepted en tc self (acts @ [a]) = accepted en tc self acts @ accepts en tc self a"
  "handed (acts @ [a]) = handed acts @ hands a"
  "taken (acts @ [a]) = taken acts @ takes a"
  by (simp_all add: accepted_def handed_def taken_def)

lemma trace_Nil [simp]: "accepted en tc self [] = []" "handed [] = []" "taken [] = []"
  by (simp_all add: accepted_def handed_def taken_def)

lemma of_room_simps [simp]:
  "of_room i [] = []" "of_room i (xs @ ys) = of_room i xs @ of_room i ys"
  "of_room i [(j, m)] = (if j = i then [m] else [])"
  by (simp_all add: of_room_def)

text \<open>A well-formed service: the waiting readers are queued once each, behind a full channel.\<close>

definition chat_ok :: "chat \<Rightarrow> bool" where
  "chat_ok c \<longleftrightarrow>
     length (ch_buf c) \<le> chan_cap \<and> distinct (ch_waiters c) \<and>
     (\<forall>i. i \<in> set (ch_waiters c) \<longleftrightarrow> i < length (ch_sessions c) \<and> (\<exists>m. reader_of c i = Waiting m)) \<and>
     (ch_waiters c \<noteq> [] \<longrightarrow> length (ch_buf c) = chan_cap) \<and>
     (\<forall>i < length (ch_sessions c). reader_of c i = Stopped \<longrightarrow> sn_done (ch_sessions c ! i)) \<and>
     (\<forall>r i. ch_rooms c r = Some i \<longrightarrow> i < length (ch_sessions c) \<and> sn_room (ch_sessions c ! i) = r)"

definition chat_flow :: "env \<Rightarrow> time_codec \<Rightarrow> chat_act list \<Rightarrow> chat \<Rightarrow> bool" where
  "chat_flow en tc acts c \<longleftrightarrow>
     map snd (handed acts) = taken acts @ ch_buf c \<and>
     (\<forall>i. \<exists>rest. of_room i (accepted en tc (ch_self c) acts) = of_room i (handed acts) @ rest \<and>
        (if i < length (ch_sessions c) then held (reader_of c i) rest
         else rest = [] \<and> of_room i (handed acts) = []))"

subsection \<open>The operations keep it\<close>

lemma reader_of_set [simp]:
  "i < length (ch_sessions c) \<Longrightarrow>
    reader_of (set_reader c i r) j = (if j = i then r else reader_of c j)"
  by (simp add: reader_of_def set_reader_def)

lemma set_reader_simps [simp]:
  "ch_self (set_reader c i r) = ch_self c" "ch_rooms (set_reader c i r) = ch_rooms c"
  "length (ch_sessions (set_reader c i r)) = length (ch_sessions c)"
  "ch_buf (set_reader c i r) = ch_buf c" "ch_waiters (set_reader c i r) = ch_waiters c"
  "ch_panic (set_reader c i r) = ch_panic c" "ch_closed (set_reader c i r) = ch_closed c"
  by (simp_all add: set_reader_def)

lemma session_set [simp]:
  "i < length (ch_sessions c) \<Longrightarrow> sn_done (ch_sessions (set_reader c i r) ! j) = sn_done (ch_sessions c ! j)"
  "i < length (ch_sessions c) \<Longrightarrow> sn_room (ch_sessions (set_reader c i r) ! j) = sn_room (ch_sessions c ! j)"
  by (simp_all add: set_reader_def nth_list_update)

lemma reader_of_update [simp]:
  "reader_of (c\<lparr>ch_buf := b\<rparr>) i = reader_of c i" "reader_of (c\<lparr>ch_waiters := w\<rparr>) i = reader_of c i"
  "reader_of (c\<lparr>ch_panic := q\<rparr>) i = reader_of c i" "reader_of (c\<lparr>ch_rooms := f\<rparr>) i = reader_of c i"
  "reader_of (c\<lparr>ch_published := ps\<rparr>) i = reader_of c i" "reader_of (c\<lparr>ch_closed := q\<rparr>) i = reader_of c i"
  by (simp_all add: reader_of_def)

text \<open>Publishing only adds to what was published.\<close>

lemma Room_Publish_effect:
  "\<exists>ps. fst (Room_Publish en tc ok c r m) = c\<lparr>ch_published := ps\<rparr>"
  by (cases "EncodeMessage en tc m") (auto simp: Room_Publish_def intro: exI [of _ "ch_published c"])

lemma chat_ok_update [simp]:
  "chat_ok (c\<lparr>ch_published := ps\<rparr>) = chat_ok c" "chat_ok (c\<lparr>ch_panic := q\<rparr>) = chat_ok c"
  "chat_ok (c\<lparr>ch_closed := q\<rparr>) = chat_ok c"
  by (simp_all add: chat_ok_def)

lemma chat_flow_update [simp]:
  "chat_flow en tc acts (c\<lparr>ch_published := ps\<rparr>) = chat_flow en tc acts c"
  "chat_flow en tc acts (c\<lparr>ch_panic := q\<rparr>) = chat_flow en tc acts c"
  "chat_flow en tc acts (c\<lparr>ch_closed := q\<rparr>) = chat_flow en tc acts c"
  "chat_flow en tc acts (c\<lparr>ch_rooms := f\<rparr>) = chat_flow en tc acts c"
  by (simp_all add: chat_flow_def)

lemma chat_ok_forget: "chat_ok c \<Longrightarrow> chat_ok (c\<lparr>ch_rooms := (ch_rooms c)(r := None)\<rparr>)"
  by (simp add: chat_ok_def)

definition add_room :: "chat \<Rightarrow> string \<Rightarrow> chat" where
  "add_room c r = c\<lparr>ch_rooms := (ch_rooms c)(r \<mapsto> length (ch_sessions c)),
     ch_sessions := ch_sessions c @ [NewRoom c r]\<rparr>"

lemma add_room_simps [simp]:
  "ch_self (add_room c r) = ch_self c" "ch_buf (add_room c r) = ch_buf c" "ch_waiters (add_room c r) = ch_waiters c"
  "length (ch_sessions (add_room c r)) = Suc (length (ch_sessions c))" "ch_panic (add_room c r) = ch_panic c"
  "ch_rooms (add_room c r) = (ch_rooms c)(r \<mapsto> length (ch_sessions c))"
  "reader_of (add_room c r) i =
     (if i < length (ch_sessions c) then reader_of c i else if i = length (ch_sessions c) then Reading
      else reader_of (add_room c r) i)"
  "i < length (ch_sessions c) \<Longrightarrow> ch_sessions (add_room c r) ! i = ch_sessions c ! i"
  "sn_room (ch_sessions (add_room c r) ! length (ch_sessions c)) = r"
  by (simp_all add: add_room_def reader_of_def nth_append NewRoom_def)

lemma chat_ok_add_room: "chat_ok c \<Longrightarrow> chat_ok (add_room c r)"
  unfolding chat_ok_def by (auto simp: less_Suc_eq)

lemma chat_flow_add_room: "chat_flow en tc acts c \<Longrightarrow> chat_flow en tc acts (add_room c r)"
  unfolding chat_flow_def by (fastforce simp: less_Suc_eq)

lemma JoinRoom_cases:
  obtains "fst (JoinRoom en tc now joined ok c r) = c"
  | ps q where "fst (JoinRoom en tc now joined ok c r) = (add_room c r)\<lparr>ch_published := ps, ch_panic := q\<rparr>"
      "8 \<le> length (pid_String en (ch_self c)) \<Longrightarrow> q = ch_panic c"
proof (cases "ch_rooms c r \<noteq> None \<or> \<not> joined")
  case True
  then show thesis
    using that(1) by (auto simp: JoinRoom_def)
next
  case False
  obtain ps where "fst (Room_Publish en tc ok (add_room c r) r
      (notice_message en now c r '' joined the room'' MsgTypeJoin)) = (add_room c r)\<lparr>ch_published := ps\<rparr>"
    using Room_Publish_effect by blast
  then show thesis
    using False that(2) [where ps = "if length (pid_String en (ch_self c)) < 8 then ch_published c else ps"
        and q = "ch_panic c \<or> length (pid_String en (ch_self c)) < 8"]
    by (auto simp: JoinRoom_def Let_def add_room_def split: if_splits)
qed

lemma chat_flow_change:
  assumes "chat_flow en tc acts c"
    and "ch_self c' = ch_self c" "ch_buf c' = ch_buf c" "length (ch_sessions c') = length (ch_sessions c)"
    and "\<And>i xs. i < length (ch_sessions c) \<Longrightarrow> held (reader_of c i) xs \<Longrightarrow> held (reader_of c' i) xs"
  shows "chat_flow en tc acts c'"
  using assms unfolding chat_flow_def by (metis (no_types))

lemma cancel_session_simps [simp]:
  "sn_done (cancel_session s)" "sn_room (cancel_session s) = sn_room s"
  "sn_reader (cancel_session s) = (case sn_reader s of Waiting m \<Rightarrow> Stopped | r \<Rightarrow> r)"
  by (simp_all add: cancel_session_def)

lemma held_cancel: "held r xs \<Longrightarrow> held (case r of Waiting m \<Rightarrow> Stopped | r \<Rightarrow> r) xs"
  by (cases r) simp_all

lemma Room_Close_simps [simp]:
  "ch_self (Room_Close c i) = ch_self c" "ch_buf (Room_Close c i) = ch_buf c" "ch_rooms (Room_Close c i) = ch_rooms c"
  "length (ch_sessions (Room_Close c i)) = length (ch_sessions c)" "ch_panic (Room_Close c i) = ch_panic c"
  "ch_waiters (Room_Close c i) = filter (\<lambda>j. j \<noteq> i) (ch_waiters c)"
  "i < length (ch_sessions c) \<Longrightarrow> reader_of (Room_Close c i) j =
     (if j = i then case reader_of c i of Waiting m \<Rightarrow> Stopped | r \<Rightarrow> r else reader_of c j)"
  "i < length (ch_sessions c) \<Longrightarrow>
     sn_done (ch_sessions (Room_Close c i) ! j) = (j = i \<or> sn_done (ch_sessions c ! j))"
  "i < length (ch_sessions c) \<Longrightarrow> sn_room (ch_sessions (Room_Close c i) ! j) = sn_room (ch_sessions c ! j)"
  by (auto simp: Room_Close_def reader_of_def nth_list_update)

lemma chat_ok_Room_Close: "chat_ok c \<Longrightarrow> i < length (ch_sessions c) \<Longrightarrow> chat_ok (Room_Close c i)"
  unfolding chat_ok_def by (auto split: reader.splits)

lemma chat_flow_Room_Close: "chat_flow en tc acts c \<Longrightarrow> i < length (ch_sessions c) \<Longrightarrow> chat_flow en tc acts (Room_Close c i)"
  by (erule chat_flow_change) (auto simp: held_cancel)

lemma LeaveRoom_cases:
  obtains q where "fst (LeaveRoom en tc now ok c r) = c\<lparr>ch_panic := q\<rparr>"
      "8 \<le> length (pid_String en (ch_self c)) \<Longrightarrow> q = ch_panic c"
  | i ps where "ch_rooms c r = Some i"
      "fst (LeaveRoom en tc now ok c r) = (Room_Close c i)\<lparr>ch_published := ps, ch_rooms := (ch_rooms c)(r := None)\<rparr>"
proof (cases "ch_rooms c r")
  case None
  then show thesis
    using that(1) [of "ch_panic c"] by (simp add: LeaveRoom_def)
next
  case (Some i)
  obtain ps where "fst (Room_Publish en tc ok c r
      (notice_message en now c r '' left the room'' MsgTypeLeave)) = c\<lparr>ch_published := ps\<rparr>"
    using Room_Publish_effect by blast
  then show thesis
    using Some that(1) [of True] that(2) [of i ps]
    by (cases "length (pid_String en (ch_self c)) < 8") (auto simp: LeaveRoom_def Let_def Room_Close_def)
qed

lemma Close_cancel_simps [simp]:
  "ch_self (Close_cancel c) = ch_self c" "ch_buf (Close_cancel c) = ch_buf c" "ch_rooms (Close_cancel c) = ch_rooms c"
  "length (ch_sessions (Close_cancel c)) = length (ch_sessions c)" "ch_panic (Close_cancel c) = ch_panic c"
  "ch_waiters (Close_cancel c) = []" "ch_closed (Close_cancel c) = ch_closed c"
  "i < length (ch_sessions c) \<Longrightarrow>
     reader_of (Close_cancel c) i = (case reader_of c i of Waiting m \<Rightarrow> Stopped | r \<Rightarrow> r)"
  "i < length (ch_sessions c) \<Longrightarrow> sn_done (ch_sessions (Close_cancel c) ! i)"
  "i < length (ch_sessions c) \<Longrightarrow> sn_room (ch_sessions (Close_cancel c) ! i) = sn_room (ch_sessions c ! i)"
  by (auto simp: Close_cancel_def reader_of_def)

lemma chat_ok_Close_cancel: "chat_ok c \<Longrightarrow> chat_ok (Close_cancel c)"
  unfolding chat_ok_def by (auto split: reader.splits)

lemma chat_flow_Close_cancel: "chat_flow en tc acts c \<Longrightarrow> chat_flow en tc acts (Close_cancel c)"
  by (erule chat_flow_change) (auto simp: held_cancel)

lemma chat_ok_room: "chat_ok c \<Longrightarrow> ch_rooms c r = Some i \<Longrightarrow> i < length (ch_sessions c)"
  by (auto simp: chat_ok_def)

lemma do_call_ok:
  assumes "chat_ok c"
  shows "chat_ok (do_call en tc c x)"
proof (cases x)
  case (CallJoin now joined ok r)
  show ?thesis
    by (rule JoinRoom_cases [of en tc now joined ok c r]) (use assms CallJoin in \<open>simp_all add: chat_ok_add_room\<close>)
next
  case (CallLeave now ok r)
  show ?thesis
  proof (rule LeaveRoom_cases [of en tc now ok c r])
    fix i ps
    assume *: "ch_rooms c r = Some i"
      "fst (LeaveRoom en tc now ok c r) = (Room_Close c i)\<lparr>ch_published := ps, ch_rooms := (ch_rooms c)(r := None)\<rparr>"
    then have "chat_ok (Room_Close c i)"
      using assms chat_ok_room chat_ok_Room_Close by blast
    then have "chat_ok ((Room_Close c i)\<lparr>ch_published := ps\<rparr>)"
      by simp
    from chat_ok_forget [OF this, of r] show ?thesis
      using * CallLeave by simp
  qed (use assms CallLeave in simp)
next
  case (CallSend now ok r m)
  then show ?thesis
    using assms Room_Publish_effect
    by (auto simp: SendMessage_def split: option.split) (metis (no_types) chat_ok_update(1))
qed (use assms in \<open>auto simp: Close_channel_def chat_ok_Close_cancel\<close>)

lemma do_call_flow:
  assumes "chat_flow en tc acts c" "chat_ok c"
  shows "chat_flow en tc acts (do_call en tc c x)"
proof (cases x)
  case (CallJoin now joined ok r)
  show ?thesis
    by (rule JoinRoom_cases [of en tc now joined ok c r]) (use assms CallJoin in \<open>simp_all add: chat_flow_add_room\<close>)
next
  case (CallLeave now ok r)
  show ?thesis
    by (rule LeaveRoom_cases [of en tc now ok c r])
      (use assms CallLeave chat_ok_room chat_flow_Room_Close in \<open>auto simp: chat_flow_update\<close>)
next
  case (CallSend now ok r m)
  then show ?thesis
    using assms Room_Publish_effect
    by (auto simp: SendMessage_def split: option.split) (metis (no_types) chat_flow_update(1))
qed (use assms in \<open>auto simp: Close_channel_def chat_flow_Close_cancel\<close>)

lemma do_call_self [simp]: "ch_self (do_call en tc c x) = ch_self c"
  by (cases x) (auto simp: JoinRoom_def LeaveRoom_def SendMessage_def Room_Publish_def Close_channel_def Let_def
      split: option.splits)

lemma do_call_panic:
  assumes "8 \<le> length (pid_String en (ch_self c))" "x \<noteq> CallClose"
  shows "ch_panic (do_call en tc c x) = ch_panic c" "ch_closed (do_call en tc c x) = ch_closed c"
proof -
  show "ch_closed (do_call en tc c x) = ch_closed c"
    using assms by (cases x) (auto simp: JoinRoom_def LeaveRoom_def SendMessage_def Room_Publish_def Room_Close_def
        Close_channel_def Let_def split: option.splits)
  show "ch_panic (do_call en tc c x) = ch_panic c"
    using assms by (cases x) (auto simp: JoinRoom_def LeaveRoom_def SendMessage_def Room_Publish_def Room_Close_def
        Close_channel_def Let_def split: option.splits)
qed

subsection \<open>Every step keeps it\<close>

lemma peer_event_simps [simp]:
  "ch_self (peer_event en c i p j) = ch_self c" "ch_buf (peer_event en c i p j) = ch_buf c"
  "ch_rooms (peer_event en c i p j) = ch_rooms c" "ch_waiters (peer_event en c i p j) = ch_waiters c"
  "length (ch_sessions (peer_event en c i p j)) = length (ch_sessions c)" "ch_closed (peer_event en c i p j) = ch_closed c"
  by (simp_all add: peer_event_def Let_def)

lemma peer_event_session [simp]:
  assumes "i < length (ch_sessions c)"
  shows "reader_of (peer_event en c i p j) k = reader_of c k"
    "sn_done (ch_sessions (peer_event en c i p j) ! k) = sn_done (ch_sessions c ! k)"
    "sn_room (ch_sessions (peer_event en c i p j) ! k) = sn_room (ch_sessions c ! k)"
  using assms by (auto simp: peer_event_def Let_def reader_of_def nth_list_update)

lemma reader_next_cases:
  obtains "reader_next en tc self p d = Reading" | m where "reader_next en tc self p d = Deciding m"
  by (cases "p = self"; cases "DecodeMessage en tc d") (auto simp: reader_next_def)

lemma chat_ok_step:
  assumes "chat_step en tc c a c'" "chat_ok c"
  shows "chat_ok c'"
  using assms(1)
proof cases
  case (step_arrive i p d)
  then show ?thesis
    using assms(2) by (auto simp: chat_ok_def intro: reader_next_cases [of en tc "ch_self c" p d])
next
  case (step_receive_wake m ms i js w)
  then have "i < length (ch_sessions c)"
    using assms(2) by (auto simp: chat_ok_def)
  with step_receive_wake show ?thesis
    using assms(2) by (auto simp: chat_ok_def)
qed (use assms(2) do_call_ok in \<open>auto simp: chat_ok_def\<close>)

lemma chat_ok_new: "chat_ok (NewChatService self)"
  by (simp add: chat_ok_def NewChatService_def)

lemma chat_flow_new: "chat_flow en tc [] (NewChatService self)"
  by (simp add: chat_flow_def NewChatService_def)

text \<open>How a step moves messages: from PubSub to the reader, from the reader to the channel, and out.\<close>

lemma chat_flow_snoc:
  assumes flow: "chat_flow en tc acts c"
    and same: "ch_self c' = ch_self c" "length (ch_sessions c') = length (ch_sessions c)"
    and buf: "ch_buf c @ map snd (hands a) = takes a @ ch_buf c'"
    and room: "\<And>j xs. j < length (ch_sessions c) \<Longrightarrow> held (reader_of c j) xs \<Longrightarrow>
        \<exists>ys. xs @ of_room j (accepts en tc (ch_self c) a) = of_room j (hands a) @ ys \<and> held (reader_of c' j) ys"
    and no_room: "\<And>j. length (ch_sessions c) \<le> j \<Longrightarrow>
        of_room j (accepts en tc (ch_self c) a) = [] \<and> of_room j (hands a) = []"
  shows "chat_flow en tc (acts @ [a]) c'"
proof -
  have "\<exists>ys. of_room j (accepted en tc (ch_self c) (acts @ [a])) = of_room j (handed (acts @ [a])) @ ys \<and>
      (if j < length (ch_sessions c) then held (reader_of c' j) ys else ys = [] \<and> of_room j (handed (acts @ [a])) = [])"
    for j
  proof (cases "j < length (ch_sessions c)")
    case True
    then obtain xs where xs: "of_room j (accepted en tc (ch_self c) acts) = of_room j (handed acts) @ xs"
        "held (reader_of c j) xs"
      using flow by (auto simp: chat_flow_def dest!: spec [of _ j])
    with room [OF True] True show ?thesis
      by auto
  next
    case False
    then show ?thesis
      using flow no_room [of j] by (auto simp: chat_flow_def dest!: spec [of _ j])
  qed
  moreover have "map snd (handed (acts @ [a])) = taken (acts @ [a]) @ ch_buf c'"
    using flow buf by (simp add: chat_flow_def)
  ultimately show ?thesis
    by (simp add: chat_flow_def same)
qed

lemma chat_flow_still:
  assumes "chat_flow en tc acts c'" "ch_self c' = ch_self c"
    and "accepts en tc (ch_self c) a = []" "hands a = []" "takes a = []"
  shows "chat_flow en tc (acts @ [a]) c'"
  using assms unfolding chat_flow_def trace_snoc by (simp only: append_Nil2 simp_thms)

lemma chat_flow_step:
  assumes step: "chat_step en tc c a c'" and ok: "chat_ok c" and flow: "chat_flow en tc acts c"
  shows "chat_flow en tc (acts @ [a]) c'"
  using step
proof cases
  case (step_call x)
  then show ?thesis
    using do_call_flow [OF flow ok, of x] by (intro chat_flow_still [where c = c]) auto
next
  case (step_peer i p j)
  then show ?thesis
    using flow by (intro chat_flow_snoc [OF flow]) auto
next
  case (step_receive_wake m ms i js w)
  then have "i < length (ch_sessions c)"
    using ok by (auto simp: chat_ok_def)
  with step_receive_wake show ?thesis
    by (intro chat_flow_snoc [OF flow]) auto
next
  case (step_arrive i p d)
  then show ?thesis
    by (intro chat_flow_snoc [OF flow]) (auto split: reader.split intro: reader_next_cases [of en tc "ch_self c" p d])
qed (auto intro!: chat_flow_snoc [OF flow])

lemma chat_step_self: "chat_step en tc c a c' \<Longrightarrow> ch_self c' = ch_self c"
  by (erule chat_stepE) auto

lemma chat_run_inv:
  assumes "chat_run en tc (NewChatService self) acts c"
  shows "ch_self c = self \<and> chat_ok c \<and> chat_flow en tc acts c"
  using assms
proof (induction "NewChatService self" acts c rule: chat_run.induct)
  case run_Nil
  show ?case
    by (simp add: chat_ok_new chat_flow_new) (simp add: NewChatService_def)
next
  case (run_snoc acts c a c')
  then show ?case
    using chat_ok_step chat_flow_step chat_step_self by metis
qed

subsection \<open>When nothing panics\<close>

text \<open>The calls and events that cut peer IDs of eight characters at least, without \<open>Close\<close>.\<close>

fun calm :: "env \<Rightarrow> chat_act \<Rightarrow> bool" where
  "calm en (Call x) = (x \<noteq> CallClose)"
| "calm en (PeerEvent i p j) = (8 \<le> length (pid_String en p))"
| "calm en _ = True"

lemma calm_step:
  assumes "chat_step en tc c a c'" "calm en a" "8 \<le> length (pid_String en (ch_self c))"
    "\<not> ch_panic c" "\<not> ch_closed c"
  shows "\<not> ch_panic c' \<and> \<not> ch_closed c'"
  using assms by (cases rule: chat_step.cases) (auto simp: do_call_panic peer_event_def Let_def)

lemma calm_run:
  assumes "chat_run en tc (NewChatService self) acts c" "8 \<le> length (pid_String en self)" "list_all (calm en) acts"
  shows "\<not> ch_panic c \<and> \<not> ch_closed c"
  using assms
proof (induction "NewChatService self" acts c rule: chat_run.induct)
  case run_Nil
  show ?case
    by (simp add: NewChatService_def)
next
  case (run_snoc acts c a c')
  moreover have "ch_self c = self"
    using chat_run_inv [OF run_snoc.hyps(1)] by simp
  ultimately show ?case
    using calm_step [of en tc c a c'] by simp
qed

text \<open>
  C4. Whatever the interleaving of calls, arriving messages, readers and the receiver, the
  channel is a queue of at most 100 messages: the application takes messages in the order in
  which the readers hand them over, and each room's reader hands over the messages it
  accepted, in their order, except the one it holds; only a reader of a room that was left may
  drop one.  The service stays well-formed, and it does not panic unless \<open>Close\<close> is called or a
  peer ID has fewer than eight characters.
\<close>

theorem chat_keeps_order:
  assumes "chat_run en tc (NewChatService self) acts c"
  shows "chat_ok c \<and> length (ch_buf c) \<le> 100
    \<and> map snd (handed acts) = taken acts @ ch_buf c
    \<and> (\<forall>i < length (ch_sessions c). \<exists>rest.
         of_room i (accepted en tc self acts) = of_room i (handed acts) @ rest
         \<and> held (reader_of c i) rest \<and> (reader_of c i = Stopped \<longrightarrow> sn_done (ch_sessions c ! i)))
    \<and> (8 \<le> length (pid_String en self) \<and> list_all (calm en) acts \<longrightarrow> \<not> ch_panic c)"
proof -
  have inv: "chat_ok c" "chat_flow en tc acts c" "ch_self c = self"
    using chat_run_inv [OF assms] by simp_all
  have "\<exists>rest. of_room i (accepted en tc self acts) = of_room i (handed acts) @ rest
      \<and> held (reader_of c i) rest \<and> (reader_of c i = Stopped \<longrightarrow> sn_done (ch_sessions c ! i))"
    if "i < length (ch_sessions c)" for i
    using inv that by (auto simp: chat_flow_def chat_ok_def dest!: spec [of _ i])
  moreover have "8 \<le> length (pid_String en self) \<and> list_all (calm en) acts \<longrightarrow> \<not> ch_panic c"
    using calm_run [OF assms] by simp
  ultimately show ?thesis
    using inv by (auto simp: chat_flow_def chat_ok_def chan_cap_def)
qed

section \<open>Messages over the wire\<close>

lemma message_names [simp]:
  "fold_name ''id'' = ''id''" "fold_name ''from'' = ''from''" "fold_name ''content'' = ''content''"
  "fold_name ''room_id'' = ''room_id''" "fold_name ''timestamp'' = ''timestamp''" "fold_name ''type'' = ''type''"
  "utf8_ok ''id''" "utf8_ok ''from''" "utf8_ok ''content''" "utf8_ok ''room_id''" "utf8_ok ''timestamp''" "utf8_ok ''type''"
  by (rule fold_name_plain ascii_utf8; simp add: code_def)+

lemma type_text_back [simp]: "type_of_text (type_text (type_of_text s)) = type_of_text s"
  by (simp add: type_of_text_def)

text \<open>What the library promises for a message: its peer ID and its time are read back as they were written.\<close>

definition message_ok :: "env \<Rightarrow> time_codec \<Rightarrow> message \<Rightarrow> bool" where
  "message_ok en tc m \<longleftrightarrow>
     pid_Decode en (pid_String en (ms_From m)) = Some (ms_From m) \<and>
     (case tm_text tc (ms_Timestamp m) of None \<Rightarrow> False
      | Some t \<Rightarrow> tm_parse tc t = Some (ms_Timestamp m) \<and> utf8_ok t) \<and>
     utf8_ok (ms_ID m) \<and> utf8_ok (pid_String en (ms_From m)) \<and> utf8_ok (ms_Content m) \<and> utf8_ok (ms_RoomID m) \<and>
     utf8_ok (type_text (ms_Type m)) \<and> type_of_text (type_text (ms_Type m)) = ms_Type m"

lemma decode_encode_message:
  assumes "message_ok en tc m"
  obtains d where "EncodeMessage en tc m = Some d" "DecodeMessage en tc d = Some m"
proof -
  obtain t where t: "tm_text tc (ms_Timestamp m) = Some t" "tm_parse tc t = Some (ms_Timestamp m)" "utf8_ok t"
    using assms by (auto simp: message_ok_def split: option.splits)
  have "DecodeMessage en tc (the (EncodeMessage en tc m)) = Some m"
    using assms t by (simp add: message_ok_def EncodeMessage_def DecodeMessage_def json_parse_text
        decode_struct_Cons decode_struct_Nil message_field_def as_string_JStr as_peer_def as_time_def zero_message_def del: json_text.simps)
  then show thesis
    using t by (intro that [of "the (EncodeMessage en tc m)"]) (simp_all add: EncodeMessage_def)
qed

lemma ascii_show_int [simp]: "ascii (show_int i)"
  using show_nat_digits [of "nat i"] show_nat_digits [of "nat (- i)"]
  by (auto simp: show_int_def ascii_def list_all_iff is_digit_def code_def)

text \<open>
  C33. A message that one node sends to a room reaches the channel of another unchanged: what
  SendMessage publishes is, when PubSub brings it to a reader of a room by way of any other
  peer, decoded to the same ID, text, sender, room and time and appended to the channel.
\<close>

theorem sent_message_arrives:
  assumes "SendMessage en tc now ok c r content = (c', None)"
    and "pid_Decode en (pid_String en (ch_self c)) = Some (ch_self c)" "utf8_ok (pid_String en (ch_self c))"
    and "tm_text tc now = Some t" "tm_parse tc t = Some now" "utf8_ok t" "utf8_ok content" "utf8_ok r"
    and "i < length (ch_sessions d)" "reader_of d i = Reading" "p \<noteq> ch_self d"
    and "\<not> ch_closed d" "length (ch_buf d) < chan_cap"
  shows "\<exists>data m d1 d2. ch_published c' = ch_published c @ [(topic_name r, data)]
    \<and> ms_Content m = content \<and> ms_From m = ch_self c \<and> ms_RoomID m = r \<and> ms_Timestamp m = now \<and> ms_Type m = MsgTypeText
    \<and> ms_ID m = generateMsgID now
    \<and> chat_step en tc d (Arrive i p data) d1 \<and> chat_step en tc d1 (Push i m) d2 \<and> ch_buf d2 = ch_buf d @ [m]
    \<and> reader_of d2 i = Reading"
proof -
  let ?m = "\<lparr>ms_ID = generateMsgID now, ms_From = ch_self c, ms_Content = content, ms_RoomID = r,
    ms_Timestamp = now, ms_Type = MsgTypeText\<rparr>"
  have "message_ok en tc ?m"
    using assms by (simp add: message_ok_def generateMsgID_def type_of_text_def code_def)
  then obtain data where data: "EncodeMessage en tc ?m = Some data" "DecodeMessage en tc data = Some ?m"
    by (rule decode_encode_message)
  let ?d1 = "set_reader d i (Deciding ?m)"
  have pub: "ch_published c' = ch_published c @ [(topic_name r, data)]"
    using assms(1) data(1) by (auto simp: SendMessage_def Room_Publish_def split: option.splits if_splits)
  have "reader_next en tc (ch_self d) p data = Deciding ?m"
    using assms data(2) by (simp add: reader_next_def)
  then have arr: "chat_step en tc d (Arrive i p data) ?d1"
    using step_arrive [of i d en tc p data] assms by simp
  have push: "chat_step en tc ?d1 (Push i ?m) (set_reader (?d1\<lparr>ch_buf := ch_buf ?d1 @ [?m]\<rparr>) i Reading)"
    using assms by (intro step_push) simp_all
  have "ch_buf (set_reader (?d1\<lparr>ch_buf := ch_buf ?d1 @ [?m]\<rparr>) i Reading) = ch_buf d @ [?m]
      \<and> reader_of (set_reader (?d1\<lparr>ch_buf := ch_buf ?d1 @ [?m]\<rparr>) i Reading) i = Reading"
    using assms by simp
  with pub arr push show ?thesis
    by (intro exI [of _ data] exI [of _ ?m] exI conjI) (assumption | simp)+
qed

section \<open>Closing\<close>

lemma reader_of_Close [simp]: "i < length (ch_sessions c) \<Longrightarrow> reader_of (Close_channel c) i = reader_of c i"
  by (simp add: Close_channel_def)

lemma Close_channel_simps [simp]:
  "ch_sessions (Close_channel c) = ch_sessions c" "ch_panic (Close_channel c) = (ch_panic c \<or> ch_closed c)"
  "ch_closed (Close_channel c)"
  by (simp_all add: Close_channel_def)

lemma run_calls:
  assumes "chat_run en tc c0 acts c"
  shows "chat_run en tc c0 (acts @ [Call CallCancel, Call CallClose]) (Chat_Close c)"
proof -
  have "chat_run en tc c0 (acts @ [Call CallCancel]) (Close_cancel c)"
    using run_snoc [OF assms step_call [where x = CallCancel]] by simp
  from run_snoc [OF this step_call [where x = CallClose]] show ?thesis
    by (simp add: Chat_Close_def)
qed

text \<open>
  C34. \<open>Close\<close> cancels the readers but does not wait for them before it closes their channel: a
  reader that has decoded a message and is about to send it may return, and may as well panic
  on the closed channel.  Closing twice panics in every case.
\<close>

theorem close_races_with_readers:
  assumes run: "chat_run en tc (NewChatService self) acts c"
    and i: "i < length (ch_sessions c)" "reader_of c i = Deciding m"
    and fine: "\<not> ch_panic c" "\<not> ch_closed c"
  shows "(\<exists>c'. chat_run en tc (NewChatService self) (acts @ [Call CallCancel, Call CallClose, Quit i]) c' \<and> \<not> ch_panic c')
    \<and> (\<exists>c'. chat_run en tc (NewChatService self) (acts @ [Call CallCancel, Call CallClose, PushClosed i]) c' \<and> ch_panic c')
    \<and> ch_panic (Chat_Close (Chat_Close c))"
proof -
  let ?c = "Chat_Close c"
  have c: "i < length (ch_sessions ?c)" "reader_of ?c i = Deciding m" "sn_done (ch_sessions ?c ! i)"
      "ch_closed ?c" "\<not> ch_panic ?c"
    using i fine by (simp_all add: Chat_Close_def)
  note close = run_calls [OF run]
  have "chat_run en tc (NewChatService self) (acts @ [Call CallCancel, Call CallClose, Quit i]) (set_reader ?c i Stopped)"
    using run_snoc [OF close step_quit [of i ?c m]] c by simp
  moreover have "chat_run en tc (NewChatService self) (acts @ [Call CallCancel, Call CallClose, PushClosed i]) (?c\<lparr>ch_panic := True\<rparr>)"
    using run_snoc [OF close step_closed [of i ?c m]] c by simp
  moreover have "ch_panic (Chat_Close ?c)"
    using c by (simp add: Chat_Close_def)
  moreover have "\<not> ch_panic (set_reader ?c i Stopped)" "ch_panic (?c\<lparr>ch_panic := True\<rparr>)"
    using c by simp_all
  ultimately show ?thesis
    by blast
qed

section \<open>A concrete room\<close>

definition demo_message :: message where
  "demo_message = \<lparr>ms_ID = ''1'', ms_From = ''peer-bob'', ms_Content = ''hi'', ms_RoomID = ''lobby'',
     ms_Timestamp = 0, ms_Type = MsgTypeText\<rparr>"

definition demo_data :: bytes where
  "demo_data = the (EncodeMessage plain_env plain_codec demo_message)"

definition demo_room :: chat where
  "demo_room = do_call plain_env plain_codec (NewChatService ''host-one'') (CallJoin 0 True True ''lobby'')"

lemma demo_message_decodes: "DecodeMessage plain_env plain_codec demo_data = Some demo_message"
proof -
  have "message_ok plain_env plain_codec demo_message"
    by (simp add: message_ok_def demo_message_def plain_env_def type_of_text_def code_def in64_def)
  then show ?thesis
    by (rule decode_encode_message) (simp add: demo_data_def)
qed

lemma demo_room_simps [simp]:
  "ch_self demo_room = ''host-one''" "length (ch_sessions demo_room) = 1" "reader_of demo_room 0 = Reading"
  "ch_buf demo_room = []" "\<not> ch_panic demo_room" "\<not> ch_closed demo_room" "ch_rooms demo_room ''lobby'' = Some 0"
  by (simp_all add: demo_room_def JoinRoom_def NewChatService_def Room_Publish_def plain_env_def
      EncodeMessage_def notice_message_def NewRoom_def reader_of_def del: json_text.simps)

lemma demo_run:
  "chat_run plain_env plain_codec (NewChatService ''host-one'')
     [Call (CallJoin 0 True True ''lobby''), Arrive 0 ''peer-bob'' demo_data] (set_reader demo_room 0 (Deciding demo_message))"
proof -
  have "chat_run plain_env plain_codec (NewChatService ''host-one'') [Call (CallJoin 0 True True ''lobby'')] demo_room"
    using run_snoc [OF run_Nil step_call [where x = "CallJoin 0 True True ''lobby''"]] by (simp add: demo_room_def)
  from run_snoc [OF this step_arrive [of 0 demo_room plain_env plain_codec "''peer-bob''" demo_data]] show ?thesis
    by (simp add: reader_next_def demo_message_decodes)
qed

theorem chat_keeps_order_witness:
  "chat_ok (set_reader demo_room 0 (Deciding demo_message)) \<and> \<not> ch_panic (set_reader demo_room 0 (Deciding demo_message))"
proof -
  have "8 \<le> length (pid_String plain_env ''host-one'')"
    by (simp add: plain_env_def)
  then show ?thesis
    using chat_keeps_order [OF demo_run] by simp
qed

theorem sent_message_arrives_witness:
  "\<exists>data m d1 d2. ms_Content m = ''hello'' \<and> chat_step plain_env plain_codec demo_room (Arrive 0 ''peer-bob'' data) d1
    \<and> chat_step plain_env plain_codec d1 (Push 0 m) d2 \<and> ch_buf d2 = [m]"
proof -
  let ?a = "demo_room\<lparr>ch_self := ''peer-bob''\<rparr>"
  obtain c' where c': "SendMessage plain_env plain_codec 0 True ?a ''lobby'' ''hello'' = (c', None)"
    by (simp add: SendMessage_def Room_Publish_def EncodeMessage_def del: json_text.simps)
  have "\<exists>data m d1 d2. ch_published c' = ch_published ?a @ [(topic_name ''lobby'', data)]
    \<and> ms_Content m = ''hello'' \<and> ms_From m = ch_self ?a \<and> ms_RoomID m = ''lobby'' \<and> ms_Timestamp m = 0 \<and> ms_Type m = MsgTypeText
    \<and> ms_ID m = generateMsgID 0
    \<and> chat_step plain_env plain_codec demo_room (Arrive 0 ''peer-bob'' data) d1
    \<and> chat_step plain_env plain_codec d1 (Push 0 m) d2 \<and> ch_buf d2 = ch_buf demo_room @ [m] \<and> reader_of d2 0 = Reading"
    by (rule sent_message_arrives [OF c', where t = "show_int 0"])
      (simp_all add: plain_env_def code_def in64_def chan_cap_def)
  then show ?thesis
    unfolding demo_room_simps append_Nil by blast
qed

theorem close_races_with_readers_witness:
  "\<exists>c'. chat_run plain_env plain_codec (NewChatService ''host-one'')
     [Call (CallJoin 0 True True ''lobby''), Arrive 0 ''peer-bob'' demo_data, Call CallCancel, Call CallClose, PushClosed 0] c'
     \<and> ch_panic c'"
  using close_races_with_readers [OF demo_run, of 0 demo_message] by simp

end
