(* ===== verification/Delivery.thy ===== *)
theory Delivery
  imports CloudService ChatRoom
begin

text \<open>
  What one node sends directly and the other gets: a direct message (\<open>internal/chat/dm.go\<close>) and the
  notification of a shared file (\<open>internal/cloud/service.go\<close>, \<open>transfer.go\<close>).
\<close>

section \<open>Direct messages\<close>

lemma decode_dm_text:
  assumes "pid_Decode en (pid_String en (dm_From m)) = Some (dm_From m)" "tm_parse tc t = Some (dm_Timestamp m)"
  shows "decode_struct (dm_field en tc) (JObj [(''from'', JStr (pid_String en (dm_From m))), (''content'', JStr (dm_Content m)),
      (''timestamp'', JStr t)]) \<lparr>dm_From = [], dm_Content = [], dm_Timestamp = zero_time\<rparr> = Some m"
  using assms by (simp add: decode_struct_Cons decode_struct_Nil dm_field_def as_string_JStr as_peer_def as_time_def)

lemma handleStream_adds:
  assumes "handleStream en tc h remote broken stream = Some h'"
  shows "h' = h \<or> (\<exists>m. h' = h\<lparr>dm_buf := dm_buf h @ [m]\<rparr> \<and> dm_From m = remote \<and> length (dm_buf h) < dm_cap)"
  using assms by (auto simp: handleStream_def split: option.splits if_splits prod.splits)

text \<open>
  C39. A direct message arrives as it was sent: what \<open>Send\<close> writes to the stream, the recipient's
  handler decodes to the same text and time and puts at the end of its channel, under the
  peer of the connection; when 50 messages wait it drops it.  Whatever bytes a peer sends,
  nothing enters the channel under another peer's ID, and it never holds more than 50.
\<close>

theorem direct_message_arrives:
  assumes "DM_Send en tc now True True self p content = Inr bs"
    and "pid_Decode en (pid_String en self) = Some self" "utf8_ok (pid_String en self)" "utf8_ok content"
    and "tm_text tc now = Some t" "tm_parse tc t = Some now" "utf8_ok t"
    and "\<not> dm_closed h"
  shows "handleStream en tc h remote broken bs = Some
      (if length (dm_buf h) < dm_cap
       then h\<lparr>dm_buf := dm_buf h @ [\<lparr>dm_From = remote, dm_Content = content, dm_Timestamp = now\<rparr>]\<rparr> else h)
    \<and> (\<forall>broken stream h'. handleStream en tc h remote broken stream = Some h' \<longrightarrow>
        (\<exists>ms. dm_buf h' = dm_buf h @ ms \<and> (\<forall>m\<in>set ms. dm_From m = remote))
        \<and> (length (dm_buf h) \<le> 50 \<longrightarrow> length (dm_buf h') \<le> 50))"
proof (intro conjI allI impI)
  let ?m = "\<lparr>dm_From = self, dm_Content = content, dm_Timestamp = now\<rparr>"
  let ?j = "JObj [(''from'', JStr (pid_String en self)), (''content'', JStr content), (''timestamp'', JStr t)]"
  have ok: "json_ok ?j"
    using assms(3,4,7) by simp
  have bs: "bs = json_text ?j @ [newline]"
    using assms(1,5) by (simp add: DM_Send_def dm_text_def del: json_text.simps)
  have "decode_struct (dm_field en tc) ?j \<lparr>dm_From = [], dm_Content = [], dm_Timestamp = zero_time\<rparr> = Some ?m"
    using decode_dm_text [of en ?m tc t] assms(2,6) by simp
  then show "handleStream en tc h remote broken bs = Some (if length (dm_buf h) < dm_cap
      then h\<lparr>dm_buf := dm_buf h @ [\<lparr>dm_From = remote, dm_Content = content, dm_Timestamp = now\<rparr>]\<rparr> else h)"
    unfolding handleStream_def bs read_line_text [OF ok] prod.case json_parse_newline [OF ok] using assms(8) by simp
next
  fix broken stream h'
  assume "handleStream en tc h remote broken stream = Some h'"
  from handleStream_adds [OF this]
  show "\<exists>ms. dm_buf h' = dm_buf h @ ms \<and> (\<forall>m\<in>set ms. dm_From m = remote)"
    by auto
next
  fix broken stream h'
  assume "handleStream en tc h remote broken stream = Some h'" "length (dm_buf h) \<le> 50"
  then show "length (dm_buf h') \<le> 50"
    using handleStream_adds [of en tc h remote broken stream h'] by (auto simp: dm_cap_def)
qed

theorem direct_message_arrives_witness:
  "\<exists>bs. DM_Send plain_env plain_codec 7 True True ''peer-bob'' ''peer-amy'' ''hi'' = Inr bs
     \<and> handleStream plain_env plain_codec NewDirectMessage ''peer-bob'' False bs
       = Some (NewDirectMessage\<lparr>dm_buf := [\<lparr>dm_From = ''peer-bob'', dm_Content = ''hi'', dm_Timestamp = 7\<rparr>]\<rparr>)"
proof -
  obtain bs where bs: "DM_Send plain_env plain_codec 7 True True ''peer-bob'' ''peer-amy'' ''hi'' = Inr bs"
    by (simp add: DM_Send_def dm_text_def)
  have t: "tm_text plain_codec 7 = Some (show_int 7)" "tm_parse plain_codec (show_int 7) = Some 7" "utf8_ok (show_int 7)"
    by simp_all
  have u: "pid_Decode plain_env (pid_String plain_env ''peer-bob'') = Some ''peer-bob''"
      "utf8_ok (pid_String plain_env ''peer-bob'')" "utf8_ok ''hi''" "\<not> dm_closed NewDirectMessage"
    by (simp_all add: plain_env_def code_def NewDirectMessage_def)
  from direct_message_arrives [OF bs u(1-3) t u(4), of "''peer-bob''" False] bs show ?thesis
    by (simp add: NewDirectMessage_def dm_cap_def)
qed

section \<open>Shared files\<close>

text \<open>The stream to one peer that runs \<open>handleNotify\<close>; the network records what it printed.\<close>

definition notified_by :: "env \<Rightarrow> peer \<Rightarrow> notice \<Rightarrow> peer \<Rightarrow> bytes \<Rightarrow> notice \<times> transfer_error option" where
  "notified_by en self n p bs = (handleNotify en self bs, None)"

lemma decode_notification:
  assumes "pid_Decode en (pid_String en (fn_From f)) = Some (fn_From f)" "in64 (fn_FileSize f)"
  shows "decode_struct (notification_field en) (notification_json en f) zero_notification = Some f"
  using assms by (cases f) (simp add: notification_json_def notification_field_def zero_notification_def as_peer_def decode_simps)

lemma notification_ok:
  "utf8_ok (fn_FileHash f) \<Longrightarrow> utf8_ok (fn_FileName f) \<Longrightarrow> utf8_ok (pid_String en (fn_From f)) \<Longrightarrow> json_ok (notification_json en f)"
proof -
  have "utf8_ok ''file_name''" "utf8_ok ''file_size''"
    by (rule ascii_utf8, simp add: code_def)+
  then show "utf8_ok (fn_FileHash f) \<Longrightarrow> utf8_ok (fn_FileName f) \<Longrightarrow> utf8_ok (pid_String en (fn_From f)) \<Longrightarrow> json_ok (notification_json en f)"
    by (simp add: notification_json_def)
qed

text \<open>
  Sharing a file tells the other node its name, its size and, by the connection, who shares it;
  sharing what is not stored sends nothing.
\<close>

lemma shared_file_is_announced:
  assumes "holds (cl_storage s) fs name d" "pid_Decode en (pid_String en (cl_self s)) = Some (cl_self s)"
    and "utf8_ok (pid_String en (cl_self s))" "8 \<le> length (pid_String en (cl_self s))"
  shows "Cloud_Share en (notified_by en (cl_self s)) n fs s (content_hash d) p
    = (Printed (take 8 (pid_String en (cl_self s))) name (int (length d)), None)"
proof -
  let ?f = "\<lparr>fn_FileHash = content_hash d, fn_FileName = name, fn_FileSize = int (length d), fn_From = cl_self s\<rparr>"
  have name: "utf8_ok name" "in64 (int (length d))"
    using assms(1) by (simp_all add: holds_def in64_def)
  have info: "GetInfo (cl_storage s) fs (content_hash d) = Some \<lparr>fi_Hash = content_hash d, fi_Name = name, fi_Size = int (length d),
      fi_ChunkCount = int (length (split_chunks d)), fi_LocalPath = []\<rparr>"
    by (simp add: GetInfo_def holds_loads [OF assms(1)]) (simp add: metadata_of_def)
  have ok: "json_ok (notification_json en ?f)"
    using assms(3) name(1) by (intro notification_ok) simp_all
  have "handleNotify en (cl_self s) (json_text (notification_json en ?f) @ [newline])
      = Printed (take 8 (pid_String en (cl_self s))) name (int (length d))"
    using assms(2,4) name(2) by (simp add: handleNotify_def read_line_text [OF ok] json_parse_newline [OF ok] decode_notification)
  then show ?thesis
    using holds_exists [OF assms(1)] by (simp add: Cloud_Share_def NotifyPeer_def info notified_by_def)
qed

lemma shared_nothing: "\<not> Exists (cl_storage s) fs hash \<Longrightarrow> Cloud_Share en send n fs s hash p = (n, Some ShareNotFound)"
  by (simp add: Cloud_Share_def)

end
