(* ===== verification/ChatProgress.thy ===== *)
theory ChatProgress
  imports ChatRoom
begin

text \<open>
  Progress of the chat service: a reader that waits for the full channel is served in its turn,
  cancelled readers can stop, and closing the channel is safe once they have.
\<close>

section \<open>Waiting in turn\<close>

text \<open>How many readers are served before reader \<open>i\<close>.\<close>

definition turn :: "nat \<Rightarrow> nat list \<Rightarrow> nat" where
  "turn i ws = length (takeWhile (\<lambda>j. j \<noteq> i) ws)"

lemma turn_Cons [simp]: "turn i (j # ws) = (if j = i then 0 else Suc (turn i ws))"
  by (simp add: turn_def)

lemma turn_append [simp]: "i \<in> set ws \<Longrightarrow> turn i (ws @ vs) = turn i ws"
  by (induction ws) auto

lemma turn_filter: "i \<in> set ws \<Longrightarrow> P i \<Longrightarrow> turn i (filter P ws) \<le> turn i ws"
  by (induction ws) auto

lemma turn_nth: "distinct ws \<Longrightarrow> k < length ws \<Longrightarrow> turn (ws ! k) ws = k"
proof (induction ws arbitrary: k)
  case (Cons w ws)
  then show ?case
    by (cases k) auto
qed simp

lemma turn_Suc: "i \<in> set ws \<Longrightarrow> ws = j # vs \<Longrightarrow> j \<noteq> i \<Longrightarrow> Suc (turn i vs) = turn i ws \<and> i \<in> set vs"
  by auto

text \<open>
  A waiter: reader \<open>i\<close> waits with \<open>m\<close> and at most \<open>n\<close> others come before it.  A step leaves it
  one, or cancels it, or hands its message over; taking a message from the channel moves it up.
\<close>

definition waits :: "chat \<Rightarrow> nat \<Rightarrow> message \<Rightarrow> nat \<Rightarrow> bool" where
  "waits c i m n \<longleftrightarrow> i < length (ch_sessions c) \<and> reader_of c i = Waiting m \<and> i \<in> set (ch_waiters c) \<and> turn i (ch_waiters c) \<le> n"

definition cancelled :: "chat \<Rightarrow> nat \<Rightarrow> bool" where
  "cancelled c i \<longleftrightarrow> i < length (ch_sessions c) \<and> sn_done (ch_sessions c ! i)"

lemma waits_update [simp]:
  "waits (c\<lparr>ch_published := ps\<rparr>) i m n = waits c i m n" "waits (c\<lparr>ch_panic := q\<rparr>) i m n = waits c i m n"
  "waits (c\<lparr>ch_rooms := f\<rparr>) i m n = waits c i m n" "waits (c\<lparr>ch_closed := q\<rparr>) i m n = waits c i m n"
  by (simp_all add: waits_def)

lemma cancelled_update [simp]:
  "cancelled (c\<lparr>ch_published := ps\<rparr>) i = cancelled c i" "cancelled (c\<lparr>ch_panic := q\<rparr>) i = cancelled c i"
  "cancelled (c\<lparr>ch_rooms := f\<rparr>) i = cancelled c i" "cancelled (c\<lparr>ch_closed := q\<rparr>) i = cancelled c i"
  by (simp_all add: cancelled_def)

lemma waits_add_room: "waits c i m n \<Longrightarrow> waits (add_room c r) i m n"
  by (simp add: waits_def)

lemma cancelled_add_room: "cancelled c i \<Longrightarrow> cancelled (add_room c r) i"
  by (simp add: cancelled_def)

lemma Room_Close_waits:
  assumes "waits c i m n" "j < length (ch_sessions c)"
  shows "waits (Room_Close c j) i m n \<or> cancelled (Room_Close c j) i"
proof (cases "j = i")
  case False
  then show ?thesis
    using assms turn_filter [of i "ch_waiters c" "\<lambda>k. k \<noteq> j"] by (auto simp: waits_def)
qed (use assms in \<open>simp add: cancelled_def\<close>)

lemma do_call_waits:
  assumes "chat_ok c" "waits c i m n"
  shows "waits (do_call en tc c x) i m n \<or> cancelled (do_call en tc c x) i"
proof (cases x)
  case (CallJoin now joined ok r)
  then show ?thesis
    using assms(2) JoinRoom_cases [of en tc now joined ok c r]
    by (metis do_call.simps(1) waits_add_room waits_update(1,2))
next
  case (CallLeave now ok r)
  consider q where "do_call en tc c x = c\<lparr>ch_panic := q\<rparr>"
    | j ps where "j < length (ch_sessions c)"
        "do_call en tc c x = (Room_Close c j)\<lparr>ch_published := ps, ch_rooms := (ch_rooms c)(r := None)\<rparr>"
    using LeaveRoom_cases [of en tc now ok c r] chat_ok_room [OF assms(1), of r] CallLeave by (metis do_call.simps(2))
  then show ?thesis
  proof cases
    case (2 j ps)
    then show ?thesis
      using Room_Close_waits [OF assms(2), of j] by simp
  qed (use assms(2) in simp)
next
  case (CallSend now ok r t)
  then show ?thesis
    using assms(2) Room_Publish_effect
    by (auto simp: SendMessage_def split: option.split) (metis (no_types) waits_update(1))
next
  case CallCancel
  then show ?thesis
    using assms(2) by (simp add: waits_def cancelled_def)
qed (use assms(2) in \<open>simp add: Close_channel_def\<close>)

lemma do_call_cancelled:
  assumes "chat_ok c" "cancelled c i"
  shows "cancelled (do_call en tc c x) i"
proof (cases x)
  case (CallJoin now joined ok r)
  then show ?thesis
    using assms(2) JoinRoom_cases [of en tc now joined ok c r]
    by (metis do_call.simps(1) cancelled_add_room cancelled_update(1,2))
next
  case (CallLeave now ok r)
  consider q where "do_call en tc c x = c\<lparr>ch_panic := q\<rparr>"
    | j ps where "j < length (ch_sessions c)"
        "do_call en tc c x = (Room_Close c j)\<lparr>ch_published := ps, ch_rooms := (ch_rooms c)(r := None)\<rparr>"
    using LeaveRoom_cases [of en tc now ok c r] chat_ok_room [OF assms(1), of r] CallLeave by (metis do_call.simps(2))
  then show ?thesis
    by cases (use assms(2) in \<open>simp_all add: cancelled_def\<close>)
next
  case (CallSend now ok r t)
  then show ?thesis
    using assms(2) Room_Publish_effect
    by (auto simp: SendMessage_def split: option.split) (metis (no_types) cancelled_update(1))
next
  case CallCancel
  then show ?thesis
    using assms(2) by (simp add: cancelled_def)
qed (use assms(2) in \<open>simp add: Close_channel_def\<close>)

lemma cancelled_step:
  assumes "chat_step en tc c a c'" "chat_ok c" "cancelled c i"
  shows "cancelled c' i"
  using assms(1)
proof cases
  case (step_receive_wake m ms j js w)
  then have "j < length (ch_sessions c)"
    using assms(2) by (auto simp: chat_ok_def)
  with step_receive_wake show ?thesis
    using assms(3) by (simp add: cancelled_def)
qed (use assms do_call_cancelled in \<open>auto simp: cancelled_def\<close>)

lemma waits_step:
  assumes "chat_step en tc c a c'" "chat_ok c" "waits c i m n"
  shows "cancelled c' i \<or> (i, m) \<in> set (hands a) \<or> (length (takes a) \<le> n \<and> waits c' i m (n - length (takes a)))"
  using assms(1)
proof cases
  case (step_call x)
  then show ?thesis
    using do_call_waits [OF assms(2,3)] by auto
next
  case (step_receive b ms)
  then show ?thesis
    using assms(3) by (simp add: waits_def)
next
  case (step_receive_wake b ms j js w)
  show ?thesis
  proof (cases "j = i")
    case True
    then show ?thesis
      using step_receive_wake assms(3) by (simp add: waits_def)
  next
    case False
    have "j < length (ch_sessions c)" "i \<in> set js" "Suc (turn i js) \<le> n"
      using assms(2,3) step_receive_wake False by (auto simp: chat_ok_def waits_def)
    then show ?thesis
      using assms(3) step_receive_wake False by (auto simp: waits_def)
  qed
qed (use assms(3) in \<open>auto simp: waits_def\<close>)

lemma served_in_turn:
  assumes "chat_run en tc c acts c'" "chat_ok c" "waits c i m n"
  shows "chat_ok c' \<and> (cancelled c' i \<or> (i, m) \<in> set (handed acts)
    \<or> (length (taken acts) \<le> n \<and> waits c' i m (n - length (taken acts))))"
  using assms
proof (induction rule: chat_run.induct)
  case (run_snoc c acts c' a c'')
  have ok: "chat_ok c'" and c': "cancelled c' i \<or> (i, m) \<in> set (handed acts)
      \<or> (length (taken acts) \<le> n \<and> waits c' i m (n - length (taken acts)))"
    using run_snoc by simp_all
  have "cancelled c'' i \<or> (i, m) \<in> set (handed (acts @ [a]))
      \<or> (length (taken (acts @ [a])) \<le> n \<and> waits c'' i m (n - length (taken (acts @ [a]))))"
    using c'
  proof (elim disjE conjE)
    assume "length (taken acts) \<le> n" "waits c' i m (n - length (taken acts))"
    with waits_step [OF run_snoc.hyps(2) ok this(2)] show ?thesis
      by auto
  qed (use cancelled_step [OF run_snoc.hyps(2) ok] in auto)
  then show ?case
    using chat_ok_step [OF run_snoc.hyps(2) ok] by blast
qed simp

text \<open>Whoever waits, the channel has something to take.\<close>

lemma receive_enabled:
  assumes "chat_ok c" "ch_waiters c \<noteq> []"
  shows "\<exists>b x c'. chat_step en tc c (Receive b (Some x)) c'"
proof -
  obtain i js where w: "ch_waiters c = i # js"
    using assms(2) by (cases "ch_waiters c") simp_all
  then have "i \<in> set (ch_waiters c)"
    by simp
  then obtain m where m: "reader_of c i = Waiting m"
    using assms(1) unfolding chat_ok_def by blast
  have "ch_buf c \<noteq> []"
    using assms by (auto simp: chat_ok_def chan_cap_def)
  then obtain b ms where "ch_buf c = b # ms"
    by (cases "ch_buf c") simp_all
  from step_receive_wake [OF this w m] show ?thesis
    by blast
qed

text \<open>
  C13. Nobody overtakes a reader that waits for the full channel: when \<open>k\<close> readers wait before it,
  then after the application has taken \<open>k + 1\<close> more messages its own has been handed over,
  whatever else happened, unless its room was closed in the meantime; and as long as anyone
  waits the application finds a message to take.
\<close>

theorem waiting_reader_is_served:
  assumes "chat_run en tc (NewChatService self) acts c"
    and "k < length (ch_waiters c)" "i = ch_waiters c ! k" "reader_of c i = Waiting m"
    and "chat_run en tc c acts' c'" "k < length (taken acts')" "\<not> sn_done (ch_sessions c' ! i)"
  shows "(i, m) \<in> set (handed acts') \<and> (\<exists>b x d. chat_step en tc c (Receive b (Some x)) d)"
proof -
  have ok: "chat_ok c"
    using chat_run_inv [OF assms(1)] by simp
  have i: "i \<in> set (ch_waiters c)" "i < length (ch_sessions c)" "turn i (ch_waiters c) = k"
    using ok assms(2,3) turn_nth [of "ch_waiters c" k] by (auto simp: chat_ok_def)
  then have "waits c i m k"
    using assms(4) by (simp add: waits_def)
  from served_in_turn [OF assms(5) ok this] have "(i, m) \<in> set (handed acts')"
    using assms(6,7) by (auto simp: cancelled_def)
  moreover have "ch_waiters c \<noteq> []"
    using i(1) by auto
  ultimately show ?thesis
    using receive_enabled [OF ok] by blast
qed

subsection \<open>A full channel\<close>

text \<open>The room of the chat's example with \<open>n\<close> messages in its channel.\<close>

definition filled :: "chat \<Rightarrow> nat \<Rightarrow> bool" where
  "filled c n \<longleftrightarrow> ch_self c = ''host-one'' \<and> length (ch_sessions c) = 1 \<and> \<not> sn_done (ch_sessions c ! 0) \<and>
     length (ch_buf c) = n \<and> ch_waiters c = [] \<and> \<not> ch_closed c"

lemma filled_set [simp]: "filled c n \<Longrightarrow> filled (set_reader c 0 r) n"
  by (simp add: filled_def)

lemma demo_arrive:
  assumes "filled c n" "reader_of c 0 = Reading"
  shows "chat_step plain_env plain_codec c (Arrive 0 ''peer-bob'' demo_data) (set_reader c 0 (Deciding demo_message))"
proof -
  have "0 < length (ch_sessions c)" "reader_next plain_env plain_codec (ch_self c) ''peer-bob'' demo_data = Deciding demo_message"
    using assms(1) by (simp_all add: filled_def reader_next_def demo_message_decodes)
  with step_arrive [of 0 c plain_env plain_codec "''peer-bob''" demo_data] assms(2) show ?thesis
    by metis
qed

lemma demo_fill:
  "n \<le> chan_cap \<Longrightarrow> \<exists>acts c. chat_run plain_env plain_codec (NewChatService ''host-one'') acts c \<and> filled c n \<and> reader_of c 0 = Reading"
proof (induction n)
  case 0
  have "chat_run plain_env plain_codec (NewChatService ''host-one'') [Call (CallJoin 0 True True ''lobby'')] demo_room"
    using run_snoc [OF run_Nil step_call [where x = "CallJoin 0 True True ''lobby''"]] by (simp add: demo_room_def)
  moreover have "filled demo_room 0"
    by (simp add: filled_def) (simp add: demo_room_def JoinRoom_def NewChatService_def Room_Publish_def plain_env_def
        EncodeMessage_def notice_message_def NewRoom_def del: json_text.simps)
  ultimately show ?case
    by (intro exI [of _ "[Call (CallJoin 0 True True ''lobby'')]"] exI [of _ demo_room]) simp
next
  case (Suc n)
  then obtain acts c where c: "chat_run plain_env plain_codec (NewChatService ''host-one'') acts c" "filled c n" "reader_of c 0 = Reading"
    by auto
  let ?d = "set_reader c 0 (Deciding demo_message)"
  let ?e = "set_reader (?d\<lparr>ch_buf := ch_buf ?d @ [demo_message]\<rparr>) 0 Reading"
  have "chat_step plain_env plain_codec ?d (Push 0 demo_message) ?e"
    using c Suc.prems by (intro step_push) (simp_all add: filled_def)
  with run_snoc [OF c(1) demo_arrive [OF c(2,3)]]
  have "chat_run plain_env plain_codec (NewChatService ''host-one'')
      ((acts @ [Arrive 0 ''peer-bob'' demo_data]) @ [Push 0 demo_message]) ?e"
    by (rule run_snoc)
  moreover have "filled ?e (Suc n)" "reader_of ?e 0 = Reading"
    using c(2) by (simp_all add: filled_def)
  ultimately show ?case
    by blast
qed

lemma demo_waiting:
  "\<exists>acts c. chat_run plain_env plain_codec (NewChatService ''host-one'') acts c \<and> length (ch_sessions c) = 1
     \<and> \<not> sn_done (ch_sessions c ! 0) \<and> ch_waiters c = [0] \<and> reader_of c 0 = Waiting demo_message"
proof -
  obtain acts c where c: "chat_run plain_env plain_codec (NewChatService ''host-one'') acts c" "filled c chan_cap" "reader_of c 0 = Reading"
    using demo_fill [of chan_cap] by blast
  let ?d = "set_reader c 0 (Deciding demo_message)"
  let ?e = "set_reader (?d\<lparr>ch_waiters := ch_waiters ?d @ [0]\<rparr>) 0 (Waiting demo_message)"
  have "chat_step plain_env plain_codec ?d (Park 0) ?e"
    using c by (intro step_park) (simp_all add: filled_def)
  with run_snoc [OF c(1) demo_arrive [OF c(2,3)]]
  have "chat_run plain_env plain_codec (NewChatService ''host-one'') ((acts @ [Arrive 0 ''peer-bob'' demo_data]) @ [Park 0]) ?e"
    by (rule run_snoc)
  moreover have "length (ch_sessions ?e) = 1" "\<not> sn_done (ch_sessions ?e ! 0)" "ch_waiters ?e = [0]"
      "reader_of ?e 0 = Waiting demo_message"
    using c(2) by (simp_all add: filled_def)
  ultimately show ?thesis
    by blast
qed

theorem waiting_reader_is_served_witness:
  "\<exists>acts c b d. chat_run plain_env plain_codec (NewChatService ''host-one'') acts c \<and> reader_of c 0 = Waiting demo_message
     \<and> chat_step plain_env plain_codec c (Receive b (Some (0, demo_message))) d
     \<and> (0, demo_message) \<in> set (handed [Receive b (Some (0, demo_message))])"
proof -
  obtain acts c where c: "chat_run plain_env plain_codec (NewChatService ''host-one'') acts c" "length (ch_sessions c) = 1"
      "\<not> sn_done (ch_sessions c ! 0)" "ch_waiters c = [0]" "reader_of c 0 = Waiting demo_message"
    using demo_waiting by blast
  have "ch_buf c \<noteq> []"
    using chat_run_inv [OF c(1)] c(4) by (auto simp: chat_ok_def chan_cap_def)
  then obtain b ms where "ch_buf c = b # ms"
    by (cases "ch_buf c") simp_all
  note step = step_receive_wake [OF this c(4,5), of plain_env plain_codec]
  let ?d = "set_reader (c\<lparr>ch_buf := ms @ [demo_message], ch_waiters := []\<rparr>) 0 Reading"
  have run: "chat_run plain_env plain_codec c [Receive b (Some (0, demo_message))] ?d"
    using run_snoc [OF run_Nil step] by simp
  have "(0, demo_message) \<in> set (handed [Receive b (Some (0, demo_message))])"
    using waiting_reader_is_served [where k = 0 and i = 0, OF c(1) _ _ c(5) run] c(2,3,4)
    by (simp add: taken_def handed_def)
  then show ?thesis
    using c step by blast
qed

section \<open>Closing in order\<close>

definition all_stopped :: "chat \<Rightarrow> bool" where
  "all_stopped c \<longleftrightarrow> (\<forall>i < length (ch_sessions c). reader_of c i = Stopped)"

text \<open>The actions other than a further join and a further \<open>Close\<close>.\<close>

fun no_join :: "env \<Rightarrow> chat_act \<Rightarrow> bool" where
  "no_join en (Call (CallJoin now joined ok r)) = False"
| "no_join en a = calm en a"

lemma do_call_stopped:
  assumes "all_stopped c" "chat_ok c" "\<And>now joined ok r. x \<noteq> CallJoin now joined ok r"
  shows "all_stopped (do_call en tc c x)"
proof (cases x)
  case (CallLeave now ok r)
  consider q where "do_call en tc c x = c\<lparr>ch_panic := q\<rparr>"
    | j ps where "j < length (ch_sessions c)"
        "do_call en tc c x = (Room_Close c j)\<lparr>ch_published := ps, ch_rooms := (ch_rooms c)(r := None)\<rparr>"
    using LeaveRoom_cases [of en tc now ok c r] chat_ok_room [OF assms(2), of r] CallLeave by (metis do_call.simps(2))
  then show ?thesis
    by cases (use assms(1) in \<open>simp_all add: all_stopped_def\<close>)
next
  case (CallSend now ok r t)
  then show ?thesis
    using assms(1) by (auto simp: SendMessage_def Room_Publish_def all_stopped_def split: option.split)
next
  case CallCancel
  then show ?thesis
    using assms(1) by (simp add: all_stopped_def)
qed (use assms in \<open>auto simp: Close_channel_def all_stopped_def\<close>)

lemma stopped_step:
  assumes "chat_step en tc c a c'" "all_stopped c" "chat_ok c" "no_join en a" "8 \<le> length (pid_String en (ch_self c))" "\<not> ch_panic c"
  shows "all_stopped c' \<and> \<not> ch_panic c'"
  using assms(1)
proof cases
  case (step_call x)
  then show ?thesis
    using assms do_call_stopped [of c x en tc] do_call_panic [of en c x tc] by (cases x) auto
next
  case (step_receive_wake m ms i js w)
  then have "i < length (ch_sessions c)"
    using assms(3) by (auto simp: chat_ok_def)
  then show ?thesis
    using assms(2) step_receive_wake by (simp add: all_stopped_def)
qed (use assms in \<open>auto simp: all_stopped_def peer_event_def Let_def reader_of_def nth_list_update\<close>)

lemma stopped_run:
  assumes "chat_run en tc c acts c'" "all_stopped c" "chat_ok c" "list_all (no_join en) acts"
    "8 \<le> length (pid_String en (ch_self c))" "\<not> ch_panic c"
  shows "all_stopped c' \<and> chat_ok c' \<and> ch_self c' = ch_self c \<and> \<not> ch_panic c'"
  using assms
proof (induction rule: chat_run.induct)
  case (run_snoc c acts c' a c'')
  then have "all_stopped c' \<and> chat_ok c' \<and> ch_self c' = ch_self c \<and> \<not> ch_panic c'" "no_join en a"
    by simp_all
  then show ?case
    using stopped_step [OF run_snoc.hyps(2)] chat_ok_step [OF run_snoc.hyps(2)] chat_step_self [OF run_snoc.hyps(2)]
      run_snoc.prems by simp
qed simp

text \<open>Once everything is cancelled each reader has a step in which it returns.\<close>

definition all_cancelled :: "chat \<Rightarrow> bool" where
  "all_cancelled c \<longleftrightarrow> (\<forall>i < length (ch_sessions c). sn_done (ch_sessions c ! i) \<and> (\<forall>m. reader_of c i \<noteq> Waiting m))"

lemma all_cancelled_Close: "all_cancelled (Close_cancel c)"
  by (auto simp: all_cancelled_def split: reader.split)

fun returns :: "chat_act \<Rightarrow> bool" where
  "returns (ReadError i) = True"
| "returns (Quit i) = True"
| "returns _ = False"

lemma reader_returns:
  assumes "all_cancelled c" "i < length (ch_sessions c)" "reader_of c i \<noteq> Stopped"
  shows "\<exists>a. returns a \<and> chat_step en tc c a (set_reader c i Stopped)"
proof (cases "reader_of c i")
  case Reading
  then show ?thesis
    using step_error [of i c en tc] assms by (intro exI [of _ "ReadError i"]) (simp add: all_cancelled_def)
next
  case (Deciding m)
  then show ?thesis
    using step_quit [of i c m en tc] assms by (intro exI [of _ "Quit i"]) (simp add: all_cancelled_def)
qed (use assms in \<open>simp_all add: all_cancelled_def\<close>)

lemma readers_return:
  assumes "all_cancelled c" "n \<le> length (ch_sessions c)"
  shows "\<exists>acts d. chat_run en tc c acts d \<and> length acts \<le> n \<and> list_all returns acts \<and> all_cancelled d
    \<and> length (ch_sessions d) = length (ch_sessions c) \<and> (\<forall>i < n. reader_of d i = Stopped)"
  using assms(2)
proof (induction n)
  case 0
  show ?case
    using assms(1) run_Nil by fastforce
next
  case (Suc n)
  then obtain acts d where d: "chat_run en tc c acts d" "length acts \<le> n" "list_all returns acts" "all_cancelled d"
      "length (ch_sessions d) = length (ch_sessions c)" "\<forall>i < n. reader_of d i = Stopped"
    by auto
  show ?case
  proof (cases "reader_of d n = Stopped")
    case True
    then show ?thesis
      using d by (intro exI [of _ acts] exI [of _ d]) (auto simp: less_Suc_eq)
  next
    case False
    then obtain a where a: "returns a" "chat_step en tc d a (set_reader d n Stopped)"
      using reader_returns [OF d(4), of n en tc] d(5) Suc.prems by auto
    have "all_cancelled (set_reader d n Stopped)"
      using d(4,5) Suc.prems by (simp add: all_cancelled_def)
    then show ?thesis
      using run_snoc [OF d(1) a(2)] d a(1) Suc.prems
      by (intro exI [of _ "acts @ [a]"] exI [of _ "set_reader d n Stopped"]) (auto simp: less_Suc_eq)
  qed
qed

lemma calm_run_from:
  assumes "chat_run en tc c acts c'" "list_all (calm en) acts" "8 \<le> length (pid_String en (ch_self c))"
    "chat_ok c" "\<not> ch_panic c" "\<not> ch_closed c"
  shows "chat_ok c' \<and> ch_self c' = ch_self c \<and> \<not> ch_panic c' \<and> \<not> ch_closed c'"
  using assms
proof (induction rule: chat_run.induct)
  case (run_snoc c acts c' a c'')
  then show ?case
    using calm_step [OF run_snoc.hyps(2)] chat_ok_step [OF run_snoc.hyps(2)] chat_step_self [OF run_snoc.hyps(2)] by simp
qed simp

text \<open>
  C37. \<open>Close\<close> would be safe if it waited for the readers between cancelling them and closing their
  channel: every reader can then return by itself, in one step each and without the application
  taking a message, and when they all have, closing the channel panics neither at once nor later,
  whatever leaves, sends and arrivals follow.
\<close>

theorem orderly_close_is_safe:
  assumes "chat_run en tc (NewChatService self) acts c" "list_all (calm en) acts" "8 \<le> length (pid_String en self)"
  shows "(\<exists>stops d. chat_run en tc (Close_cancel c) stops d \<and> length stops \<le> length (ch_sessions c)
        \<and> list_all returns stops \<and> all_stopped d)
    \<and> (\<forall>stops d later e. chat_run en tc (Close_cancel c) stops d \<and> list_all (calm en) stops \<and> all_stopped d
        \<and> chat_run en tc (Close_channel d) later e \<and> list_all (no_join en) later \<longrightarrow> \<not> ch_panic e)"
proof (intro conjI allI impI; (elim conjE)?)
  show "\<exists>stops d. chat_run en tc (Close_cancel c) stops d \<and> length stops \<le> length (ch_sessions c)
      \<and> list_all returns stops \<and> all_stopped d"
    using readers_return [OF all_cancelled_Close [of c], of "length (ch_sessions c)" en tc]
    unfolding all_stopped_def Close_cancel_simps by (metis order_refl)
next
  fix stops d later e
  assume d: "chat_run en tc (Close_cancel c) stops d" "list_all (calm en) stops" "all_stopped d"
    and e: "chat_run en tc (Close_channel d) later e" "list_all (no_join en) later"
  have c: "chat_ok c" "ch_self c = self" "\<not> ch_panic c" "\<not> ch_closed c"
    using chat_run_inv [OF assms(1)] calm_run [OF assms(1,3,2)] by simp_all
  with calm_run_from [OF d(1,2)] have "chat_ok d" "ch_self d = self" "\<not> ch_panic d" "\<not> ch_closed d"
    using assms(3) chat_ok_Close_cancel by simp_all
  then have "all_stopped (Close_channel d)" "chat_ok (Close_channel d)" "ch_self (Close_channel d) = self" "\<not> ch_panic (Close_channel d)"
    using d(3) by (simp_all add: all_stopped_def Close_channel_def)
  then show "\<not> ch_panic e"
    using stopped_run [OF e(1) _ _ e(2)] assms(3) by simp
qed

theorem orderly_close_is_safe_witness:
  "\<exists>d. chat_run plain_env plain_codec (Close_cancel (set_reader demo_room 0 (Deciding demo_message))) [Quit 0] d
     \<and> all_stopped d \<and> \<not> ch_panic (Close_channel d)"
proof -
  let ?c = "Close_cancel (set_reader demo_room 0 (Deciding demo_message))"
  have c: "reader_of ?c 0 = Deciding demo_message" "sn_done (ch_sessions ?c ! 0)" "length (ch_sessions ?c) = 1"
    by simp_all
  have run: "chat_run plain_env plain_codec ?c [Quit 0] (set_reader ?c 0 Stopped)"
    using run_snoc [OF run_Nil step_quit [of 0 ?c demo_message]] c by simp
  moreover have stopped: "all_stopped (set_reader ?c 0 Stopped)"
    by (simp add: all_stopped_def)
  moreover have "\<not> ch_panic (Close_channel (set_reader ?c 0 Stopped))"
    using orderly_close_is_safe [OF demo_run] run stopped run_Nil [of plain_env plain_codec] by (simp add: plain_env_def)
  ultimately show ?thesis
    by blast
qed

end
