(* ===== verification/ChatMembers.thy ===== *)
theory ChatMembers
  imports ChatRoom
begin

text \<open>
  Who is in a room: the loop of \<open>internal/chat/room.go\<close> that follows the peers of a topic, as a
  function of the events it gets, and the members it leaves in every interleaving.
\<close>

section \<open>The loop\<close>

text \<open>What \<open>NextPeerEvent\<close> returns: a peer and whether it joined or left, or an error.\<close>

datatype peer_evt = NextEvent peer bool | EventError

text \<open>
  Without an event handler the loop returns at once.  An error ends it when the context of the
  room is done, and is skipped otherwise.  The result says whether it has returned; a panic
  ends the program, and with it the loop.
\<close>

fun peer_events :: "env \<Rightarrow> nat \<Rightarrow> chat \<Rightarrow> peer_evt list \<Rightarrow> chat \<times> bool" where
  "peer_events en i c [] = (c, False)"
| "peer_events en i c (EventError # es) =
     (if sn_done (ch_sessions c ! i) then (c, True) else peer_events en i c es)"
| "peer_events en i c (NextEvent p j # es) =
     (let c' = peer_event en c i p j in if ch_panic c' then (c', True) else peer_events en i c' es)"

definition peerLoop :: "env \<Rightarrow> bool \<Rightarrow> nat \<Rightarrow> chat \<Rightarrow> peer_evt list \<Rightarrow> chat \<times> bool" where
  "peerLoop en handler_ok i c es = (if handler_ok then peer_events en i c es else (c, True))"

text \<open>Every run of the loop is a run of the service, in which only this room gets events.\<close>

definition room_event :: "nat \<Rightarrow> chat_act \<Rightarrow> bool" where
  "room_event i a \<longleftrightarrow> (\<exists>p j. a = PeerEvent i p j)"

lemma chat_run_Cons:
  assumes "chat_run en tc c' as c''" "chat_step en tc c a c'"
  shows "chat_run en tc c (a # as) c''"
  using assms
proof (induction rule: chat_run.induct)
  case (run_Nil c')
  then show ?case
    using run_snoc [OF chat_run.run_Nil] by fastforce
next
  case (run_snoc c1 as c2 b c3)
  have "chat_run en tc c ((a # as) @ [b]) c3"
    using run_snoc.IH [OF run_snoc.prems] run_snoc.hyps(2) by (rule chat_run.run_snoc)
  then show ?case
    by simp
qed

lemma peer_events_run:
  assumes "i < length (ch_sessions c)"
  shows "\<exists>as. chat_run en tc c as (fst (peer_events en i c es)) \<and> list_all (room_event i) as"
  using assms
proof (induction en i c es rule: peer_events.induct)
  case (3 en i c p j es)
  let ?c = "peer_event en c i p j"
  have step: "chat_step en tc c (PeerEvent i p j) ?c"
    using 3(2) by (rule step_peer)
  obtain as where as: "chat_run en tc ?c as (fst (peer_events en i c (NextEvent p j # es)))" "list_all (room_event i) as"
  proof (cases "ch_panic ?c")
    case True
    then show thesis
      using that [of "[]"] run_Nil by (simp add: Let_def)
  next
    case False
    then show thesis
      using that 3 by (auto simp: Let_def)
  qed
  show ?case
    using chat_run_Cons [OF as(1) step] as(2) by (intro exI [of _ "PeerEvent i p j # as"]) (simp add: room_event_def [of i "PeerEvent i p j"])
qed (use run_Nil in \<open>auto intro!: exI [of _ "[]"]\<close>)

section \<open>Members\<close>

text \<open>A peer is in a room when its last event there was to join.\<close>

definition in_room :: "nat \<Rightarrow> chat_act list \<Rightarrow> peer \<Rightarrow> bool" where
  "in_room i acts p \<longleftrightarrow> (\<exists>as bs. acts = as @ PeerEvent i p True # bs \<and> PeerEvent i p False \<notin> set bs)"

lemma in_room_Nil [simp]: "\<not> in_room i [] p"
  by (simp add: in_room_def)

lemma in_room_snoc:
  "in_room i (acts @ [a]) p \<longleftrightarrow> a = PeerEvent i p True \<or> (in_room i acts p \<and> a \<noteq> PeerEvent i p False)"
proof
  assume "in_room i (acts @ [a]) p"
  then obtain as bs where *: "acts @ [a] = as @ PeerEvent i p True # bs" "PeerEvent i p False \<notin> set bs"
    by (auto simp: in_room_def)
  show "a = PeerEvent i p True \<or> (in_room i acts p \<and> a \<noteq> PeerEvent i p False)"
  proof (cases bs rule: rev_cases)
    case (snoc cs b)
    then show ?thesis
      using * by (auto simp: in_room_def)
  qed (use * in simp)
next
  assume "a = PeerEvent i p True \<or> (in_room i acts p \<and> a \<noteq> PeerEvent i p False)"
  then show "in_room i (acts @ [a]) p"
  proof (elim disjE conjE)
    assume "in_room i acts p" "a \<noteq> PeerEvent i p False"
    then obtain as bs where "acts = as @ PeerEvent i p True # bs" "PeerEvent i p False \<notin> set bs"
      by (auto simp: in_room_def)
    then show ?thesis
      unfolding in_room_def using \<open>a \<noteq> PeerEvent i p False\<close> by (intro exI [of _ as] exI [of _ "bs @ [a]"]) auto
  next
    assume "a = PeerEvent i p True"
    then show ?thesis
      unfolding in_room_def by (intro exI [of _ acts] exI [of _ "[]"]) simp
  qed
qed

definition members_at :: "chat \<Rightarrow> nat \<Rightarrow> peer set" where
  "members_at c i = (if i < length (ch_sessions c) then sn_members (ch_sessions c ! i) else {})"

lemma members_at_update [simp]:
  "members_at (c\<lparr>ch_published := ps\<rparr>) i = members_at c i" "members_at (c\<lparr>ch_panic := q\<rparr>) i = members_at c i"
  "members_at (c\<lparr>ch_rooms := f\<rparr>) i = members_at c i" "members_at (c\<lparr>ch_closed := q\<rparr>) i = members_at c i"
  "members_at (c\<lparr>ch_buf := ms\<rparr>) i = members_at c i" "members_at (c\<lparr>ch_waiters := ws\<rparr>) i = members_at c i"
  by (simp_all add: members_at_def)

lemma members_at_set [simp]: "members_at (set_reader c j r) i = members_at c i"
  by (cases "j < length (ch_sessions c)") (auto simp: members_at_def set_reader_def nth_list_update)

lemma members_at_add_room [simp]: "members_at (add_room c r) i = members_at c i"
  by (auto simp: members_at_def add_room_def nth_append NewRoom_def)

lemma members_at_cancel [simp]: "members_at (Close_cancel c) i = members_at c i"
  by (auto simp: members_at_def Close_cancel_def cancel_session_def)

lemma members_at_close [simp]: "members_at (Room_Close c j) i = members_at c i"
  by (cases "j < length (ch_sessions c)") (auto simp: members_at_def Room_Close_def cancel_session_def nth_list_update)

lemma members_at_call [simp]: "members_at (do_call en tc c x) i = members_at c i"
proof (cases x)
  case (CallJoin now joined ok r)
  then show ?thesis
    using JoinRoom_cases [of en tc now joined ok c r]
    by (metis do_call.simps(1) members_at_add_room members_at_update(1,2))
next
  case (CallLeave now ok r)
  then show ?thesis
    using LeaveRoom_cases [of en tc now ok c r]
    by (metis do_call.simps(2) members_at_close members_at_update(1,2,3))
qed (auto simp: SendMessage_def Room_Publish_def Close_channel_def split: option.split)

lemma members_at_event:
  "j < length (ch_sessions c) \<Longrightarrow> members_at (peer_event en c j p join) i =
     (if i \<noteq> j then members_at c i else if join then insert p (members_at c i) else members_at c i - {p})"
  by (auto simp: members_at_def peer_event_def Let_def nth_list_update)

lemma members_at_step:
  assumes "chat_step en tc c a c'"
  shows "p \<in> members_at c' i \<longleftrightarrow> a = PeerEvent i p True \<or> (p \<in> members_at c i \<and> a \<noteq> PeerEvent i p False)"
  using assms by cases (auto simp: members_at_event)

lemma members_at_run:
  assumes "chat_run en tc (NewChatService self) acts c"
  shows "p \<in> members_at c i \<longleftrightarrow> in_room i acts p"
  using assms
proof (induction "NewChatService self" acts c rule: chat_run.induct)
  case run_Nil
  show ?case
    by (simp add: members_at_def NewChatService_def)
next
  case (run_snoc acts c a c')
  then show ?case
    using members_at_step [OF run_snoc.hyps(3)] by (simp add: in_room_snoc)
qed

text \<open>
  C38. A room lists exactly the peers whose last event was to join: in every interleaving of
  calls, messages, readers and peer events, and whatever order the map of members is ranged
  over, \<open>Members\<close> lists each of them once and nobody else, also after the room was left.
\<close>

theorem members_are_who_joined_last:
  assumes "chat_run en tc (NewChatService self) acts c" "i < length (ch_sessions c)"
    and "distinct order" "sn_members (ch_sessions c ! i) \<subseteq> set order"
  shows "set (Members (ch_sessions c ! i) order) = {p. in_room i acts p} \<and> distinct (Members (ch_sessions c ! i) order)"
  using members_at_run [OF assms(1), of _ i] assms(2-4) by (auto simp: members_at_def Members_def)

theorem members_are_who_joined_last_witness:
  "\<exists>acts c. acts = [Call (CallJoin 0 True True ''lobby''), Arrive 0 ''peer-bob'' demo_data, PeerEvent 0 ''peer-bob'' True,
       PeerEvent 0 ''peer-eve'' True, PeerEvent 0 ''peer-bob'' False]
     \<and> chat_run plain_env plain_codec (NewChatService ''host-one'') acts c
     \<and> set (Members (ch_sessions c ! 0) [''peer-bob'', ''peer-eve'']) = {p. in_room 0 acts p}"
proof -
  let ?c = "set_reader demo_room 0 (Deciding demo_message)"
  let ?c1 = "peer_event plain_env ?c 0 ''peer-bob'' True"
  let ?c2 = "peer_event plain_env ?c1 0 ''peer-eve'' True"
  let ?c3 = "peer_event plain_env ?c2 0 ''peer-bob'' False"
  have steps: "chat_step plain_env plain_codec ?c (PeerEvent 0 ''peer-bob'' True) ?c1"
      "chat_step plain_env plain_codec ?c1 (PeerEvent 0 ''peer-eve'' True) ?c2"
      "chat_step plain_env plain_codec ?c2 (PeerEvent 0 ''peer-bob'' False) ?c3"
    by (rule step_peer, simp)+
  note run = run_snoc [OF run_snoc [OF run_snoc [OF demo_run steps(1)] steps(2)] steps(3)]
  have "members_at ?c 0 = {}"
    using members_at_run [OF demo_run, of _ 0] in_room_snoc [of 0 "[Call (CallJoin 0 True True ''lobby'')]" "Arrive 0 ''peer-bob'' demo_data"]
      in_room_snoc [of 0 "[]" "Call (CallJoin 0 True True ''lobby'')"] by (simp add: set_eq_iff)
  then have "sn_members (ch_sessions ?c3 ! 0) \<subseteq> set [''peer-bob'', ''peer-eve'']"
    by (auto simp: peer_event_def Let_def members_at_def)
  then have "set (Members (ch_sessions ?c3 ! 0) [''peer-bob'', ''peer-eve'']) = {p. in_room 0
      ((([Call (CallJoin 0 True True ''lobby''), Arrive 0 ''peer-bob'' demo_data] @ [PeerEvent 0 ''peer-bob'' True])
        @ [PeerEvent 0 ''peer-eve'' True]) @ [PeerEvent 0 ''peer-bob'' False]) p}"
    using members_are_who_joined_last [OF run, of 0 "[''peer-bob'', ''peer-eve'']"] by simp
  with run show ?thesis
    unfolding append_Cons append_Nil by blast
qed

end
