(* ===== verification/AppConfig.thy ===== *)
theory AppConfig
  imports JsonDecode FileSys
begin

text \<open>
  The configuration of \<open>internal/core/config.go\<close>: its defaults, its JSON file and its
  directories.  A slice of bootstrap peers is \<open>None\<close> when it is nil, which \<open>Marshal\<close> writes as
  \<open>null\<close>.
\<close>

record app_config =
  ac_ListenPort :: int
  ac_ListenAddr :: string
  ac_DataDir :: string
  ac_WalletPath :: string
  ac_CloudDir :: string
  ac_EnableMDNS :: bool
  ac_EnableDHT :: bool
  ac_BootstrapPeers :: "string list option"

text \<open>\<open>home\<close> is the user's home directory, empty when there is none.\<close>

definition DefaultAppConfig :: "string \<Rightarrow> app_config" where
  "DefaultAppConfig home =
     (let d = Join [home, ''.p2papp'']
      in \<lparr>ac_ListenPort = 0, ac_ListenAddr = ''0.0.0.0'', ac_DataDir = d, ac_WalletPath = Join [d, ''wallet.json''],
          ac_CloudDir = Join [d, ''cloud''], ac_EnableMDNS = True, ac_EnableDHT = True, ac_BootstrapPeers = Some []\<rparr>)"

section \<open>Decoding over a value\<close>

text \<open>
  \<open>Load\<close> decodes over the configuration it has.  A member of the wrong type leaves its field as
  it is and is reported at the end: a decoder gives the new value and whether it was fine.
\<close>

definition or_keep :: "'a option \<Rightarrow> 'a \<Rightarrow> 'a \<times> bool" where
  "or_keep r old = (case r of None \<Rightarrow> (old, False) | Some x \<Rightarrow> (x, True))"

fun over_strings :: "string list \<Rightarrow> json list \<Rightarrow> string list \<times> bool" where
  "over_strings old [] = ([], True)"
| "over_strings old (j # js) =
     (let z = (case old of [] \<Rightarrow> [] | s # _ \<Rightarrow> s); (s, ok) = or_keep (as_string j z) z;
          (ss, oks) = over_strings (tl old) js
      in (s # ss, ok \<and> oks))"

definition over_peers :: "json \<Rightarrow> string list option \<Rightarrow> string list option \<times> bool" where
  "over_peers j old =
     (case j of
        JNull \<Rightarrow> (None, True)
      | JArr js \<Rightarrow> (case over_strings (case old of None \<Rightarrow> [] | Some ss \<Rightarrow> ss) js of (ss, ok) \<Rightarrow> (Some ss, ok))
      | _ \<Rightarrow> (old, False))"

definition config_field :: "string \<Rightarrow> json \<Rightarrow> app_config \<Rightarrow> app_config \<times> bool" where
  "config_field n j c =
     (if n = ''listen_port'' then apfst (\<lambda>x. c\<lparr>ac_ListenPort := x\<rparr>) (or_keep (as_int64 j (ac_ListenPort c)) (ac_ListenPort c))
      else if n = ''listen_addr'' then apfst (\<lambda>x. c\<lparr>ac_ListenAddr := x\<rparr>) (or_keep (as_string j (ac_ListenAddr c)) (ac_ListenAddr c))
      else if n = ''data_dir'' then apfst (\<lambda>x. c\<lparr>ac_DataDir := x\<rparr>) (or_keep (as_string j (ac_DataDir c)) (ac_DataDir c))
      else if n = ''wallet_path'' then apfst (\<lambda>x. c\<lparr>ac_WalletPath := x\<rparr>) (or_keep (as_string j (ac_WalletPath c)) (ac_WalletPath c))
      else if n = ''cloud_dir'' then apfst (\<lambda>x. c\<lparr>ac_CloudDir := x\<rparr>) (or_keep (as_string j (ac_CloudDir c)) (ac_CloudDir c))
      else if n = ''enable_mdns'' then apfst (\<lambda>x. c\<lparr>ac_EnableMDNS := x\<rparr>) (or_keep (as_bool j (ac_EnableMDNS c)) (ac_EnableMDNS c))
      else if n = ''enable_dht'' then apfst (\<lambda>x. c\<lparr>ac_EnableDHT := x\<rparr>) (or_keep (as_bool j (ac_EnableDHT c)) (ac_EnableDHT c))
      else if n = ''bootstrap_peers'' then apfst (\<lambda>x. c\<lparr>ac_BootstrapPeers := x\<rparr>) (over_peers j (ac_BootstrapPeers c))
      else (c, True))"

definition unmarshal_config :: "bytes \<Rightarrow> app_config \<Rightarrow> app_config \<times> bool" where
  "unmarshal_config data c =
     (case json_parse data of
        None \<Rightarrow> (c, False)
      | Some JNull \<Rightarrow> (c, True)
      | Some (JObj ms) \<Rightarrow>
          foldl (\<lambda>(c, ok) x. case config_field (fold_name (fst x)) (snd x) c of (c', ok') \<Rightarrow> (c', ok \<and> ok')) (c, True) ms
      | Some _ \<Rightarrow> (c, False))"

definition config_json :: "app_config \<Rightarrow> json" where
  "config_json c = JObj
     [(''listen_port'', JNum (show_int (ac_ListenPort c))), (''listen_addr'', JStr (ac_ListenAddr c)),
      (''data_dir'', JStr (ac_DataDir c)), (''wallet_path'', JStr (ac_WalletPath c)), (''cloud_dir'', JStr (ac_CloudDir c)),
      (''enable_mdns'', JBool (ac_EnableMDNS c)), (''enable_dht'', JBool (ac_EnableDHT c)),
      (''bootstrap_peers'', case ac_BootstrapPeers c of None \<Rightarrow> JNull | Some ss \<Rightarrow> JArr (map JStr ss))]"

section \<open>The file\<close>

text \<open>\<open>os.IsNotExist\<close> for the error of a read: nothing on the way to the path nor at it.\<close>

definition os_NotExist :: "fs \<Rightarrow> string \<Rightarrow> bool" where
  "os_NotExist fs p \<longleftrightarrow> p = [] \<or>
     (let q = resolve fs p
      in CHR 0x00 \<notin> set p \<and> fs_allow fs q \<and> q \<notin> set (fs_dirs fs)
         \<and> list_all (\<lambda>n. file_at fs (take n q) = None) [0..<Suc (length q)])"

text \<open>The results: the configuration after the call, and whether it succeeded.\<close>

definition Config_Load :: "fs \<Rightarrow> string \<Rightarrow> app_config \<Rightarrow> app_config \<times> bool" where
  "Config_Load fs p c =
     (case os_ReadFile fs p of
        None \<Rightarrow> (c, os_NotExist fs p)
      | Some data \<Rightarrow> unmarshal_config data c)"

definition Config_Save :: "fs \<Rightarrow> string \<Rightarrow> app_config \<Rightarrow> fs \<times> bool" where
  "Config_Save fs p c =
     (case os_MkdirAll fs (Dir p) of
        (fs1, False) \<Rightarrow> (fs1, False)
      | (fs1, True) \<Rightarrow> os_WriteFile fs1 p (json_indent (config_json c)))"

fun make_dirs :: "fs \<Rightarrow> string list \<Rightarrow> fs \<times> bool" where
  "make_dirs fs [] = (fs, True)"
| "make_dirs fs (d # ds) = (case os_MkdirAll fs d of (fs1, False) \<Rightarrow> (fs1, False) | (fs1, True) \<Rightarrow> make_dirs fs1 ds)"

definition EnsureDirectories :: "fs \<Rightarrow> app_config \<Rightarrow> fs \<times> bool" where
  "EnsureDirectories fs c = make_dirs fs [ac_DataDir c, ac_CloudDir c, Dir (ac_WalletPath c)]"

section \<open>Round trip\<close>

definition config_ok :: "app_config \<Rightarrow> bool" where
  "config_ok c \<longleftrightarrow> in64 (ac_ListenPort c) \<and> utf8_ok (ac_ListenAddr c) \<and> utf8_ok (ac_DataDir c) \<and> utf8_ok (ac_WalletPath c)
     \<and> utf8_ok (ac_CloudDir c) \<and> (case ac_BootstrapPeers c of None \<Rightarrow> True | Some ss \<Rightarrow> list_all utf8_ok ss)"

lemma config_names [simp]:
  "fold_name ''listen_port'' = ''listen_port''" "fold_name ''listen_addr'' = ''listen_addr''"
  "fold_name ''data_dir'' = ''data_dir''" "fold_name ''wallet_path'' = ''wallet_path''"
  "fold_name ''cloud_dir'' = ''cloud_dir''" "fold_name ''enable_mdns'' = ''enable_mdns''"
  "fold_name ''enable_dht'' = ''enable_dht''" "fold_name ''bootstrap_peers'' = ''bootstrap_peers''"
  "utf8_ok ''listen_port''" "utf8_ok ''listen_addr''" "utf8_ok ''data_dir''" "utf8_ok ''wallet_path''"
  "utf8_ok ''cloud_dir''" "utf8_ok ''enable_mdns''" "utf8_ok ''enable_dht''" "utf8_ok ''bootstrap_peers''"
  by (rule fold_name_plain ascii_utf8; simp add: code_def)+

lemma over_strings_JStr [simp]: "over_strings old (map JStr ss) = (ss, True)"
  by (induction ss arbitrary: old) (simp_all add: or_keep_def as_string_JStr)

lemma over_peers_written [simp]:
  "over_peers (case ps of None \<Rightarrow> JNull | Some ss \<Rightarrow> JArr (map JStr ss)) old = (ps, True)"
  by (cases ps) (simp_all add: over_peers_def)

lemma config_json_ok: "config_ok c \<Longrightarrow> json_ok (config_json c)"
  by (auto simp: config_ok_def config_json_def list_all_iff split: option.split)

lemma unmarshal_written:
  assumes "config_ok c"
  shows "unmarshal_config (json_indent (config_json c)) old = (c, True)"
  unfolding unmarshal_config_def json_parse_indent [OF config_json_ok [OF assms]]
  using assms by (simp add: config_json_def config_ok_def config_field_def or_keep_def decode_simps)

section \<open>Directories\<close>

lemma mkdir_fold:
  assumes "foldl mkdir_step (fs, True) qs = (fs', True)"
  shows "set qs \<subseteq> set (fs_dirs fs') \<and> set (fs_dirs fs) \<subseteq> set (fs_dirs fs') \<and> fs_cwd fs' = fs_cwd fs"
  using assms
proof (induction qs arbitrary: fs)
  case (Cons q qs)
  have stuck: "foldl mkdir_step (f, False) xs = (f, False)" for f xs
    by (induction xs) (simp_all add: mkdir_step_def)
  obtain f ok where f: "mkdir_step (fs, True) q = (f, ok)"
    by (cases "mkdir_step (fs, True) q")
  with Cons.prems have "ok"
    using stuck by (cases ok) simp_all
  with f Cons.prems Cons.IH [of f] show ?case
    by (auto simp: mkdir_step_def split: if_splits)
qed simp

lemma os_MkdirAll_dirs:
  assumes "os_MkdirAll fs d = (fs', True)"
  shows "resolve fs d = [] \<or> resolve fs d \<in> set (fs_dirs fs')" "set (fs_dirs fs) \<subseteq> set (fs_dirs fs')" "fs_cwd fs' = fs_cwd fs"
proof -
  let ?q = "resolve fs d"
  have *: "foldl mkdir_step (fs, True) (map (\<lambda>n. take (Suc n) ?q) [0..<length ?q]) = (fs', True)"
    using assms by (simp add: os_MkdirAll_def split: if_splits)
  from mkdir_fold [OF this] show "set (fs_dirs fs) \<subseteq> set (fs_dirs fs')" "fs_cwd fs' = fs_cwd fs"
    by simp_all
  show "?q = [] \<or> ?q \<in> set (fs_dirs fs')"
  proof (cases "?q = []")
    case False
    then have "take (Suc (length ?q - 1)) ?q \<in> set (map (\<lambda>n. take (Suc n) ?q) [0..<length ?q])"
      unfolding set_map by (intro imageI) simp
    then show ?thesis
      using mkdir_fold [OF *] False by auto
  qed simp
qed

lemma make_dirs_dirs:
  assumes "make_dirs fs ds = (fs', True)" "d \<in> set ds"
  shows "resolve fs d = [] \<or> resolve fs d \<in> set (fs_dirs fs')"
proof -
  have grow: "set (fs_dirs f) \<subseteq> set (fs_dirs f')" if "make_dirs f xs = (f', True)" for f xs f'
    using that by (induction f xs rule: make_dirs.induct)
      (auto split: prod.splits bool.splits dest: os_MkdirAll_dirs(2))
  show ?thesis
    using assms
  proof (induction fs ds rule: make_dirs.induct)
    case (2 fs x ds)
    then obtain f where f: "os_MkdirAll fs x = (f, True)" "make_dirs f ds = (fs', True)"
      by (auto split: prod.splits bool.splits)
    have "resolve f d = resolve fs d"
      using os_MkdirAll_dirs(3) [OF f(1)] by (rule resolve_cwd)
    then show ?case
      using 2 f os_MkdirAll_dirs(1) [OF f(1)] grow [OF f(2)] by auto
  qed simp
qed

text \<open>
  C36. A configuration that was saved is the one \<open>Load\<close> gives, whatever configuration it decodes
  over; a file that does not exist leaves the configuration and is no error; and when
  \<open>EnsureDirectories\<close> succeeds its three directories exist.
\<close>

theorem config_survives_restart:
  shows "(Config_Save fs p c = (fs', True) \<and> config_ok c \<longrightarrow> Config_Load fs' p old = (c, True))
    \<and> (os_ReadFile fs p = None \<and> os_NotExist fs p \<longrightarrow> Config_Load fs p old = (old, True))
    \<and> (EnsureDirectories fs c = (fs', True) \<longrightarrow>
         (\<forall>d \<in> {ac_DataDir c, ac_CloudDir c, Dir (ac_WalletPath c)}. resolve fs d = [] \<or> resolve fs d \<in> set (fs_dirs fs')))"
proof -
  have "Config_Load fs' p old = (c, True)" if "Config_Save fs p c = (fs', True)" "config_ok c"
    using that
    by (auto simp: Config_Save_def Config_Load_def unmarshal_written dest!: os_WriteFile_read split: prod.splits bool.splits)
  moreover have "Config_Load fs p old = (old, True)" if "os_ReadFile fs p = None" "os_NotExist fs p"
    using that by (simp add: Config_Load_def)
  moreover have "resolve fs d = [] \<or> resolve fs d \<in> set (fs_dirs fs')"
    if "EnsureDirectories fs c = (fs', True)" "d \<in> {ac_DataDir c, ac_CloudDir c, Dir (ac_WalletPath c)}" for d
    using that(2) make_dirs_dirs [OF that(1) [unfolded EnsureDirectories_def], of d] by simp
  ultimately show ?thesis
    by blast
qed

definition empty_home :: fs where
  "empty_home = \<lparr>fs_files = [], fs_dirs = [[]], fs_cwd = [], fs_allow = (\<lambda>p. True), fs_io = []\<rparr>"

theorem config_survives_restart_witness:
  "\<exists>fs'. Config_Save empty_home ''/config.json'' (DefaultAppConfig ''/'') = (fs', True)
     \<and> Config_Load fs' ''/config.json'' (DefaultAppConfig []) = (DefaultAppConfig ''/'', True)
     \<and> Config_Load empty_home ''/config.json'' (DefaultAppConfig []) = (DefaultAppConfig [], True)"
proof -
  let ?c = "DefaultAppConfig ''/''"
  have ok: "file_name ''/config.json''" "writable empty_home (resolve empty_home ''/config.json'')" "fs_io empty_home = []"
    by (simp_all add: writable_def empty_home_def resolve_def walk_def rooted_def file_name_def)
  obtain fs' where w: "os_WriteFile empty_home ''/config.json'' (json_indent (config_json ?c)) = (fs', True)"
    using os_WriteFile_ok [OF ok] by blast
  have dir: "os_MkdirAll empty_home (Dir ''/config.json'') = (empty_home, True)"
    by (simp add: os_MkdirAll_def empty_home_def Dir_def Clean_def rooted_def clean_step_def resolve_def walk_def)
  have save: "Config_Save empty_home ''/config.json'' ?c = (fs', True)"
    using w by (simp add: Config_Save_def dir)
  moreover have "config_ok ?c"
    by (simp add: config_ok_def DefaultAppConfig_def Join_def Clean_def rooted_def clean_step_def Let_def code_def in64_def)
  moreover have "os_ReadFile empty_home ''/config.json'' = None" "os_NotExist empty_home ''/config.json''"
    by (simp_all add: os_ReadFile_def os_NotExist_def empty_home_def resolve_def walk_def rooted_def Let_def list_all_iff)
  ultimately show ?thesis
    using config_survives_restart [of empty_home "''/config.json''" ?c fs' "DefaultAppConfig []"] by blast
qed

end
