(* ===== verification/Host.thy ===== *)
theory Host
  imports MessageQueue
begin

text \<open>
  The libp2p host of \<open>internal/core/host.go\<close>: how it is put together, what is released when a
  step fails, its shutdown, and what it does with discovered peers.  What libp2p, its DHT,
  PubSub and mDNS answer is an argument.
\<close>

section \<open>Configuration\<close>

text \<open>A peer of the network by its ID; \<open>'k\<close> are private keys.\<close>

record 'k host_config =
  hc_ListenAddrs :: "string list"
  hc_PrivKey :: "'k option"
  hc_BootstrapPeers :: "peer list"
  hc_EnableMDNS :: bool
  hc_EnableDHT :: bool

definition DefaultConfig :: "peer list \<Rightarrow> 'k host_config" where
  "DefaultConfig boot = \<lparr>hc_ListenAddrs = [''/ip4/0.0.0.0/tcp/0'', ''/ip4/0.0.0.0/udp/0/quic-v1''], hc_PrivKey = None,
     hc_BootstrapPeers = boot, hc_EnableMDNS = True, hc_EnableDHT = True\<rparr>"

datatype 'k host_opt =
    ListenAddrStrings "string list" | NATPortMap | EnableNATService | EnableRelay | EnableHolePunching
  | WithIdentity 'k | WithRouting

definition host_options :: "'k host_config \<Rightarrow> 'k host_opt list" where
  "host_options cfg =
     [ListenAddrStrings (hc_ListenAddrs cfg), NATPortMap, EnableNATService, EnableRelay, EnableHolePunching]
     @ (case hc_PrivKey cfg of None \<Rightarrow> [] | Some k \<Rightarrow> [WithIdentity k])
     @ (if hc_EnableDHT cfg then [WithRouting] else [])"

section \<open>Construction\<close>

text \<open>
  The answers of the libraries: the peer ID of the host that \<open>libp2p.New\<close> makes from its
  options, whether it ran the DHT's constructor, PubSub, mDNS, the DHT's bootstrap, and the
  connections to peers.
\<close>

record 'k libp2p =
  lp_New :: "'k host_opt list \<Rightarrow> peer option"
  lp_DHT :: bool
  lp_PubSub :: bool
  lp_MDNS :: bool
  lp_Bootstrap :: bool
  lp_Connect :: "peer \<Rightarrow> bool"

record p2p_host =
  ph_id :: peer
  ph_dht :: bool
  ph_dht_closed :: bool
  ph_mdns :: bool
  ph_started :: bool
  ph_cancelled :: bool
  ph_closed :: nat
  ph_connected :: "peer list"

datatype host_error = CreateHostFailed | CreatePubSubFailed | HostPanic | DhtOff | FindPeersFailed

text \<open>What a failed construction leaves: its context cancelled, and its libp2p host closed if there was one.\<close>

record host_release =
  hr_cancelled :: bool
  hr_closed :: bool

text \<open>A failed connection is printed under the first eight characters of the peer's ID.\<close>

definition try_connect :: "env \<Rightarrow> (peer \<Rightarrow> bool) \<Rightarrow> peer \<Rightarrow> host_error + bool" where
  "try_connect en conn p =
     (if conn p then Inr True else if length (pid_String en p) < 8 then Inl HostPanic else Inr False)"

text \<open>The bootstrap peers are dialled concurrently; the connections are listed in the order of the configuration.\<close>

fun connect_all :: "env \<Rightarrow> (peer \<Rightarrow> bool) \<Rightarrow> peer list \<Rightarrow> host_error + peer list" where
  "connect_all en conn [] = Inr []"
| "connect_all en conn (p # ps) =
     (case try_connect en conn p of
        Inl e \<Rightarrow> Inl e
      | Inr ok \<Rightarrow> (case connect_all en conn ps of Inl e \<Rightarrow> Inl e | Inr qs \<Rightarrow> Inr (if ok then p # qs else qs)))"

definition bootstrapDHT :: "env \<Rightarrow> 'k libp2p \<Rightarrow> p2p_host \<Rightarrow> peer list \<Rightarrow> host_error + p2p_host" where
  "bootstrapDHT en lp h boot =
     (if \<not> ph_dht h \<or> \<not> lp_Bootstrap lp then Inr h
      else (case connect_all en (lp_Connect lp) boot of
              Inl e \<Rightarrow> Inl e
            | Inr ps \<Rightarrow> Inr (h\<lparr>ph_connected := ph_connected h @ ps\<rparr>)))"

text \<open>The discovery service that \<open>setupMDNS\<close> starts is kept nowhere; the host only knows whether it runs.\<close>

definition setupMDNS :: "'k libp2p \<Rightarrow> bool" where
  "setupMDNS lp = lp_MDNS lp"

text \<open>
  A nil configuration is the default one.  A failure of mDNS or of the bootstrap is printed
  and otherwise ignored.
\<close>

definition NewP2PHost ::
    "env \<Rightarrow> 'k libp2p \<Rightarrow> peer list \<Rightarrow> 'k host_config option \<Rightarrow> (host_error \<times> host_release) + p2p_host" where
  "NewP2PHost en lp boot cfgo =
     (let cfg = (case cfgo of None \<Rightarrow> DefaultConfig boot | Some c \<Rightarrow> c)
      in case lp_New lp (host_options cfg) of
           None \<Rightarrow> Inl (CreateHostFailed, \<lparr>hr_cancelled = True, hr_closed = False\<rparr>)
         | Some i \<Rightarrow>
             if \<not> lp_PubSub lp then Inl (CreatePubSubFailed, \<lparr>hr_cancelled = True, hr_closed = True\<rparr>)
             else (let h = \<lparr>ph_id = i, ph_dht = hc_EnableDHT cfg \<and> lp_DHT lp, ph_dht_closed = False,
                            ph_mdns = hc_EnableMDNS cfg \<and> setupMDNS lp, ph_started = False, ph_cancelled = False,
                            ph_closed = 0, ph_connected = []\<rparr>
                   in case (if hc_EnableDHT cfg then bootstrapDHT en lp h (hc_BootstrapPeers cfg) else Inr h) of
                        Inl e \<Rightarrow> Inl (e, \<lparr>hr_cancelled = False, hr_closed = False\<rparr>)
                      | Inr h' \<Rightarrow> Inr (h'\<lparr>ph_started := True\<rparr>)))"

section \<open>Operations\<close>

text \<open>\<open>found\<close> is the answer of the routing discovery.\<close>

definition DiscoverPeers :: "p2p_host \<Rightarrow> 'c option \<Rightarrow> host_error + 'c" where
  "DiscoverPeers h found =
     (if \<not> ph_dht h then Inl DhtOff else case found of None \<Rightarrow> Inl FindPeersFailed | Some c \<Rightarrow> Inr c)"

definition Host_ID :: "p2p_host \<Rightarrow> peer" where
  "Host_ID h = ph_id h"

definition Host_Addrs :: "env \<Rightarrow> p2p_host \<Rightarrow> string list \<Rightarrow> string list" where
  "Host_Addrs en h addrs = map (\<lambda>a. a @ ''/p2p/'' @ pid_String en (ph_id h)) addrs"

definition Host_Close :: "p2p_host \<Rightarrow> p2p_host" where
  "Host_Close h =
     (if \<not> ph_started h then h
      else h\<lparr>ph_cancelled := True, ph_dht_closed := ph_dht h, ph_started := False, ph_closed := ph_closed h + 1\<rparr>)"

definition HandlePeerFound :: "env \<Rightarrow> (peer \<Rightarrow> bool) \<Rightarrow> p2p_host \<Rightarrow> peer \<Rightarrow> host_error + p2p_host" where
  "HandlePeerFound en conn h p =
     (if p = ph_id h then Inr h
      else if length (pid_String en p) < 8 then Inl HostPanic
      else Inr (if conn p then h\<lparr>ph_connected := ph_connected h @ [p]\<rparr> else h))"

section \<open>Facts\<close>

lemma connect_all_ok:
  "\<forall>p\<in>set ps. 8 \<le> length (pid_String en p) \<Longrightarrow> connect_all en conn ps = Inr (filter conn ps)"
  by (induction ps) (auto simp: try_connect_def)

text \<open>A host that was made is running; closing it closes the libp2p host once, however often it is closed.\<close>

lemma NewP2PHost_started: "NewP2PHost en lp boot cfg = Inr h \<Longrightarrow> ph_started h \<and> ph_closed h = 0 \<and> \<not> ph_cancelled h"
  by (auto simp: NewP2PHost_def bootstrapDHT_def Let_def split: option.splits sum.splits if_splits)

lemma NewP2PHost_id: "NewP2PHost en lp boot (Some cfg) = Inr h \<Longrightarrow> lp_New lp (host_options cfg) = Some (ph_id h)"
  by (auto simp: NewP2PHost_def bootstrapDHT_def Let_def split: option.splits sum.splits if_splits)

lemma Host_Close_once:
  assumes "NewP2PHost en lp boot cfg = Inr h"
  shows "ph_closed ((Host_Close ^^ Suc n) h) = 1 \<and> ph_cancelled ((Host_Close ^^ Suc n) h) \<and> \<not> ph_started ((Host_Close ^^ Suc n) h)"
  using NewP2PHost_started [OF assms] by (induction n) (simp_all add: Host_Close_def)

text \<open>Nothing stops the local discovery: after \<open>Close\<close> it still hands found peers to the closed host.\<close>

lemma Host_Close_leaves_mdns: "ph_mdns (Host_Close h) = ph_mdns h"
  by (simp add: Host_Close_def)

text \<open>A failure to make the host releases what was made before it.\<close>

lemma NewP2PHost_releases:
  assumes "NewP2PHost en lp boot cfg = Inl (e, r)" "e \<noteq> HostPanic"
  shows "hr_cancelled r \<and> (e = CreatePubSubFailed \<longrightarrow> hr_closed r)"
proof -
  have "e = HostPanic" if "connect_all en conn ps = Inl e" for conn ps
    using that by (induction ps) (auto simp: try_connect_def split: sum.splits if_splits)
  then show ?thesis
    using assms by (auto simp: NewP2PHost_def bootstrapDHT_def Let_def split: option.splits sum.splits if_splits)
qed

end
