(* ===== verification/AesGcm.thy ===== *)
theory AesGcm
  imports Sha256
begin

text \<open>
  \<open>crypto/aes\<close> (FIPS 197) and \<open>crypto/cipher\<close>'s GCM (NIST SP 800-38D) with 12-byte nonces,
  16-byte tags and no additional data, as the keystore uses them.  \<open>None\<close> stands for the panics
  of \<open>Seal\<close> and \<open>Open\<close>.
\<close>

type_synonym word8 = "8 word"

section \<open>The block cipher\<close>

definition xtime :: "word8 \<Rightarrow> word8" where
  "xtime b = (push_bit 1 b XOR (if bit b 7 then 0x1B else 0))"

definition gmul :: "word8 \<Rightarrow> word8 \<Rightarrow> word8" where
  "gmul a b = foldl (\<lambda>acc i. xtime acc XOR (if bit b i then a else 0)) 0 [7, 6, 5, 4, 3, 2, 1, 0]"

fun gpow :: "word8 \<Rightarrow> nat \<Rightarrow> word8" where
  "gpow a n =
     (if n = 0 then 1
      else (let h = gpow a (n div 2); s = gmul h h in if odd n then gmul s a else s))"

declare gpow.simps [simp del]

text \<open>The substitution box: the inverse in the field (the power 254), then the affine map.\<close>

definition sbox :: "word8 \<Rightarrow> word8" where
  "sbox b = (let i = gpow b 254
     in i XOR word_rotl 1 i XOR word_rotl 2 i XOR word_rotl 3 i XOR word_rotl 4 i XOR 0x63)"

definition xor_words :: "word8 list \<Rightarrow> word8 list \<Rightarrow> word8 list" where
  "xor_words xs ys = map2 (XOR) xs ys"

text \<open>The key schedule, newest word first, for a key of \<open>nk\<close> words.\<close>

definition next_word :: "nat \<Rightarrow> word8 list list \<Rightarrow> word8 list" where
  "next_word nk ws =
     (let i = length ws; t = hd ws;
          t' = (if i mod nk = 0 then
                  xor_words (map sbox (rotate1 t)) [gpow 2 (i div nk - 1), 0, 0, 0]
                else if 6 < nk \<and> i mod nk = 4 then map sbox t else t)
      in xor_words (ws ! (nk - 1)) t')"

fun expand :: "nat \<Rightarrow> nat \<Rightarrow> word8 list list \<Rightarrow> word8 list list" where
  "expand nk 0 ws = ws"
| "expand nk (Suc n) ws = expand nk n (next_word nk ws # ws)"

fun groups :: "nat \<Rightarrow> nat \<Rightarrow> 'a list \<Rightarrow> 'a list list" where
  "groups k 0 xs = []"
| "groups k (Suc n) xs = take k xs # groups k n (drop k xs)"

definition round_keys :: "word8 list \<Rightarrow> word8 list list" where
  "round_keys key =
     (let nk = length key div 4
      in groups 16 (nk + 7) (concat (rev (expand nk (4 * (nk + 7) - nk) (rev (groups 4 nk key))))))"

definition shift_rows :: "word8 list \<Rightarrow> word8 list" where
  "shift_rows s = map (\<lambda>i. s ! (i mod 4 + 4 * ((i div 4 + i mod 4) mod 4))) [0..<16]"

definition mix_column :: "word8 list \<Rightarrow> word8 list" where
  "mix_column c = map (\<lambda>i. gmul 2 (c ! i) XOR gmul 3 (c ! ((i + 1) mod 4)) XOR c ! ((i + 2) mod 4) XOR c ! ((i + 3) mod 4))
     [0..<4]"

definition mix_columns :: "word8 list \<Rightarrow> word8 list" where
  "mix_columns s = concat (map mix_column (groups 4 4 s))"

fun aes_rounds :: "word8 list list \<Rightarrow> word8 list \<Rightarrow> word8 list" where
  "aes_rounds [] s = s"
| "aes_rounds [k] s = xor_words k (shift_rows (map sbox s))"
| "aes_rounds (k # ks) s = aes_rounds ks (xor_words k (mix_columns (shift_rows (map sbox s))))"

definition aes_encrypt :: "word8 list \<Rightarrow> word8 list \<Rightarrow> word8 list" where
  "aes_encrypt key block = (case round_keys key of [] \<Rightarrow> [] | k # ks \<Rightarrow> aes_rounds ks (xor_words k block))"

section \<open>Galois counter mode\<close>

definition to_word8 :: "char \<Rightarrow> word8" where
  "to_word8 c = of_int (of_char c)"

definition from_word8 :: "word8 \<Rightarrow> char" where
  "from_word8 w = char_of (uint w)"

definition be_bytes :: "nat \<Rightarrow> nat \<Rightarrow> word8 list" where
  "be_bytes k n = map (\<lambda>i. of_nat (n div 256 ^ i)) (rev [0..<k])"

definition block_int :: "word8 list \<Rightarrow> nat" where
  "block_int bs = foldl (\<lambda>n b. 256 * n + unat b) 0 bs"

text \<open>Multiplication in the field of \<open>2 ^ 128\<close> elements, whose bits run from the left.\<close>

definition ghash_mul :: "128 word \<Rightarrow> 128 word \<Rightarrow> 128 word" where
  "ghash_mul x y = fst (foldl (\<lambda>(z, v) i. (if bit x (127 - i) then z XOR v else z,
     if bit v 0 then drop_bit 1 v XOR push_bit 120 0xE1 else drop_bit 1 v)) (0, y) [0..<128])"

definition ghash :: "128 word \<Rightarrow> word8 list list \<Rightarrow> 128 word" where
  "ghash h blocks = foldl (\<lambda>y b. ghash_mul (y XOR of_nat (block_int b)) h) 0 blocks"

definition gcm_counter :: "word8 list \<Rightarrow> nat \<Rightarrow> word8 list" where
  "gcm_counter nonce i = nonce @ be_bytes 4 i"

definition gcm_stream :: "word8 list \<Rightarrow> word8 list \<Rightarrow> nat \<Rightarrow> word8 list" where
  "gcm_stream key nonce n =
     take n (concat (map (\<lambda>i. aes_encrypt key (gcm_counter nonce (i + 2))) [0..<(n + 15) div 16]))"

definition pad16 :: "word8 list \<Rightarrow> word8 list" where
  "pad16 bs = bs @ replicate ((16 - length bs mod 16) mod 16) 0"

definition gcm_tag :: "word8 list \<Rightarrow> word8 list \<Rightarrow> word8 list \<Rightarrow> word8 list" where
  "gcm_tag key nonce ct =
     (let h = of_nat (block_int (aes_encrypt key (replicate 16 0)));
          s = ghash h (groups 16 ((length ct + 15) div 16) (pad16 ct) @ [be_bytes 8 0 @ be_bytes 8 (8 * length ct)])
      in xor_words (be_bytes 16 (unat s)) (aes_encrypt key (gcm_counter nonce 1)))"

section \<open>The interface of the packages\<close>

definition aes_key_ok :: "bytes \<Rightarrow> bool" where
  \<comment> \<open>the key sizes that \<open>aes.NewCipher\<close> accepts\<close>
  "aes_key_ok key \<longleftrightarrow> length key \<in> {16, 24, 32}"

definition gcm_NonceSize :: nat where
  "gcm_NonceSize = 12"

definition gcm_max :: nat where
  "gcm_max = (2 ^ 32 - 2) * 16"

definition gcm_Seal :: "bytes \<Rightarrow> bytes \<Rightarrow> bytes \<Rightarrow> bytes option" where
  "gcm_Seal key nonce plain =
     (if length nonce \<noteq> gcm_NonceSize \<or> gcm_max < length plain then None
      else (let k = map to_word8 key; n = map to_word8 nonce;
                ct = xor_words (map to_word8 plain) (gcm_stream k n (length plain))
            in Some (map from_word8 (ct @ gcm_tag k n ct))))"

text \<open>\<open>Open\<close> panics on a nonce of another length, and fails (\<open>Some None\<close>) when the tag does not fit.\<close>

definition gcm_Open :: "bytes \<Rightarrow> bytes \<Rightarrow> bytes \<Rightarrow> bytes option option" where
  "gcm_Open key nonce sealed =
     (if length nonce \<noteq> gcm_NonceSize then None
      else if length sealed < 16 \<or> gcm_max + 16 < length sealed then Some None
      else (let k = map to_word8 key; n = map to_word8 nonce; s = map to_word8 sealed;
                ct = take (length s - 16) s; tag = drop (length s - 16) s
            in if gcm_tag k n ct = tag then Some (Some (map from_word8 (xor_words ct (gcm_stream k n (length ct)))))
               else Some None))"

section \<open>Sizes\<close>

lemma length_xor_words [simp]: "length (xor_words xs ys) = min (length xs) (length ys)"
  by (simp add: xor_words_def)

lemma length_groups [simp]: "length (groups k n xs) = n"
  by (induction k n xs rule: groups.induct) simp_all

lemma groups_sizes: "k * n \<le> length xs \<Longrightarrow> g \<in> set (groups k n xs) \<Longrightarrow> length g = k"
  by (induction k n xs rule: groups.induct) auto

lemma length_next_word:
  assumes "0 < nk" "nk \<le> length ws" "\<forall>w\<in>set ws. length w = 4"
  shows "length (next_word nk ws) = 4"
proof -
  have "hd ws \<in> set ws" "ws ! (nk - 1) \<in> set ws"
    using assms(1,2) hd_in_set [of ws] nth_mem [of "nk - 1" ws] by fastforce+
  then show ?thesis
    using assms(3) by (simp add: next_word_def Let_def)
qed

lemma expand_sizes:
  assumes "0 < nk" "nk \<le> length ws" "\<forall>w\<in>set ws. length w = 4"
  shows "length (expand nk n ws) = length ws + n \<and> (\<forall>w\<in>set (expand nk n ws). length w = 4)"
  using assms
proof (induction nk n ws rule: expand.induct)
  case (2 nk n ws)
  then show ?case
    using length_next_word [of nk ws] by simp
qed simp

lemma length_concat_all: "\<forall>x\<in>set xs. length x = k \<Longrightarrow> length (concat xs) = k * length xs"
  by (induction xs) simp_all

lemma round_keys_sizes:
  assumes "length key \<in> {16, 24, 32}"
  shows "length (round_keys key) = length key div 4 + 7 \<and> (\<forall>k\<in>set (round_keys key). length k = 16)"
proof -
  define nk where "nk = length key div 4"
  define start where "start = rev (groups 4 nk key)"
  define ws where "ws = expand nk (4 * (nk + 7) - nk) start"
  have nk: "0 < nk" "4 * nk \<le> length key"
    using assms by (elim insertE; simp add: nk_def)+
  have "\<forall>w\<in>set start. length w = 4" "length start = nk"
    unfolding start_def set_rev using groups_sizes [OF nk(2)] by (blast, simp)
  then have ws: "length ws = nk + (4 * (nk + 7) - nk)" "\<forall>w\<in>set ws. length w = 4"
    unfolding ws_def using expand_sizes [of nk start "4 * (nk + 7) - nk"] nk(1) by simp_all
  then have "length (concat (rev ws)) = 4 * length (rev ws)"
    by (intro length_concat_all) simp
  then have "length (concat (rev ws)) = 16 * (nk + 7)"
    using ws(1) by simp
  moreover have "round_keys key = groups 16 (nk + 7) (concat (rev ws))"
    unfolding round_keys_def Let_def ws_def start_def nk_def ..
  ultimately show ?thesis
    using groups_sizes [of 16 "nk + 7" "concat (rev ws)"] unfolding nk_def by (metis length_groups order_refl)
qed

lemma length_shift_rows [simp]: "length (shift_rows s) = 16"
  by (simp add: shift_rows_def)

lemma length_mix_columns [simp]: "length (mix_columns s) = 16"
  unfolding mix_columns_def by (subst length_concat_all [where k = 4]) (auto simp: mix_column_def)

lemma length_aes_rounds:
  "ks \<noteq> [] \<Longrightarrow> \<forall>k\<in>set ks. length k = 16 \<Longrightarrow> length s = 16 \<Longrightarrow> length (aes_rounds ks s) = 16"
  by (induction ks s rule: aes_rounds.induct) simp_all

lemma length_aes_encrypt:
  assumes "length key \<in> {16, 24, 32}" "length block = 16"
  shows "length (aes_encrypt key block) = 16"
proof -
  obtain k k' ks where "round_keys key = k # k' # ks"
    using round_keys_sizes [OF assms(1)] by (cases "round_keys key"; cases "tl (round_keys key)") auto
  moreover have "\<forall>k\<in>set (round_keys key). length k = 16"
    using round_keys_sizes [OF assms(1)] by simp
  ultimately show ?thesis
    using assms(2) length_aes_rounds [of "k' # ks" "xor_words k block"] by (simp add: aes_encrypt_def)
qed

lemma length_be_bytes [simp]: "length (be_bytes k n) = k"
  by (simp add: be_bytes_def)

lemma length_gcm_stream:
  assumes "length key \<in> {16, 24, 32}" "length nonce = 12"
  shows "length (gcm_stream key nonce n) = n"
proof -
  have "length (concat (map (\<lambda>i. aes_encrypt key (gcm_counter nonce (i + 2))) [0..<(n + 15) div 16])) = 16 * ((n + 15) div 16)"
    using assms by (subst length_concat_all [where k = 16]) (auto simp: gcm_counter_def length_aes_encrypt)
  then show ?thesis
    by (simp add: gcm_stream_def)
qed

lemma length_gcm_tag:
  assumes "length key \<in> {16, 24, 32}" "length nonce = 12"
  shows "length (gcm_tag key nonce ct) = 16"
  using assms by (simp add: gcm_tag_def gcm_counter_def length_aes_encrypt Let_def)

section \<open>What is sealed opens\<close>

lemma xor_words_twice: "length xs \<le> length ks \<Longrightarrow> xor_words (xor_words xs ks) ks = xs"
proof (induction xs arbitrary: ks)
  case (Cons x xs)
  then show ?case
    by (cases ks) (simp_all add: xor_words_def xor.assoc)
qed (simp add: xor_words_def)

lemma from_to_word8 [simp]: "from_word8 (to_word8 c) = c"
proof -
  have "(of_char c :: nat) < 2 ^ 8"
    using nat_of_char_less_256 [of c] by simp
  then have "uint (to_word8 c) = of_char c"
    by (simp add: to_word8_def uint_word_of_int take_bit_eq_mod of_char_def)
  then show ?thesis
    by (simp add: from_word8_def)
qed

lemma to_from_word8 [simp]: "to_word8 (from_word8 w) = w"
proof -
  have "uint w mod 256 = uint w"
    using uint_lt2p [of w] by simp
  then show ?thesis
    by (simp add: to_word8_def from_word8_def)
qed

lemma gcm_Seal_ok: "length nonce = 12 \<Longrightarrow> length plain \<le> gcm_max \<Longrightarrow> \<exists>ct. gcm_Seal key nonce plain = Some ct"
  by (simp add: gcm_Seal_def gcm_NonceSize_def Let_def)

theorem gcm_Open_Seal:
  assumes "gcm_Seal key nonce plain = Some sealed" "aes_key_ok key"
  shows "gcm_Open key nonce sealed = Some (Some plain)"
proof -
  let ?k = "map to_word8 key" and ?n = "map to_word8 nonce" and ?p = "map to_word8 plain"
  let ?ct = "xor_words ?p (gcm_stream ?k ?n (length plain))"
  have n: "length nonce = 12" "length plain \<le> gcm_max"
      and s: "sealed = map from_word8 (?ct @ gcm_tag ?k ?n ?ct)"
    using assms(1) by (auto simp: gcm_Seal_def Let_def gcm_NonceSize_def split: if_splits)
  have k: "length ?k \<in> {16, 24, 32}" "length ?n = 12"
    using assms(2) n by (auto simp: aes_key_ok_def)
  have len: "length (gcm_stream ?k ?n m) = m" "length (gcm_tag ?k ?n c) = 16" for m c
    using length_gcm_stream [OF k] length_gcm_tag [OF k] by simp_all
  have w: "map to_word8 sealed = ?ct @ gcm_tag ?k ?n ?ct"
    by (simp add: s comp_def)
  show ?thesis
    using n len by (simp add: gcm_Open_def gcm_NonceSize_def w Let_def xor_words_twice comp_def) (simp add: s len)
qed

end
