(* ===== verification/Wallet.thy ===== *)
theory Wallet
  imports JsonDecode FileSys MessageQueue AesGcm
begin

text \<open>
  The wallet of \<open>internal/wallet\<close>: identities and the wallet service (\<open>identity.go\<close>, \<open>wallet.go\<close>)
  and the encrypted keystore (\<open>keystore.go\<close>).  The key operations of libp2p and the key
  derivation of \<open>x/crypto\<close> are arguments; AES-GCM and the files are the definitions of the other
  theories.  Fresh random values are arguments, \<open>None\<close> when the source of randomness fails.
\<close>

section \<open>Keys\<close>

record ('k, 'u) key_lib =
  kl_Public :: "'k \<Rightarrow> 'u"
  kl_ID :: "'u \<Rightarrow> peer option"
  kl_Marshal :: "'k \<Rightarrow> bytes option"
  kl_Unmarshal :: "bytes \<Rightarrow> 'k option"
  kl_Encode :: "bytes \<Rightarrow> string"
  kl_Decode :: "string \<Rightarrow> bytes option"
  kl_Sign :: "'k \<Rightarrow> bytes \<Rightarrow> bytes option"
  kl_Verify :: "'u \<Rightarrow> bytes \<Rightarrow> bytes \<Rightarrow> bool option"

text \<open>A wallet and an identity have the same three fields.\<close>

record ('k, 'u) wallet =
  w_PeerID :: peer
  w_PrivKey :: 'k
  w_PubKey :: 'u

datatype wallet_error =
    KeygenFailed | NoPeerID | WalletNotRead | WalletNotParsed | KeyNotDecoded | KeyNotUnmarshalled
  | NilWallet | DirNotCreated | KeyNotMarshalled | FileNotWritten

definition IdentityFromPrivKey :: "('k, 'u) key_lib \<Rightarrow> 'k \<Rightarrow> wallet_error + ('k, 'u) wallet" where
  "IdentityFromPrivKey lib k =
     (case kl_ID lib (kl_Public lib k) of
        None \<Rightarrow> Inl NoPeerID
      | Some p \<Rightarrow> Inr \<lparr>w_PeerID = p, w_PrivKey = k, w_PubKey = kl_Public lib k\<rparr>)"

text \<open>\<open>rnd\<close> is the key pair that the generator gives.\<close>

definition GenerateIdentity :: "('k, 'u) key_lib \<Rightarrow> ('k \<times> 'u) option \<Rightarrow> wallet_error + ('k, 'u) wallet" where
  "GenerateIdentity lib rnd =
     (case rnd of
        None \<Rightarrow> Inl KeygenFailed
      | Some (k, u) \<Rightarrow>
          (case kl_ID lib u of
             None \<Rightarrow> Inl NoPeerID
           | Some p \<Rightarrow> Inr \<lparr>w_PeerID = p, w_PrivKey = k, w_PubKey = u\<rparr>))"

definition ShortID :: "env \<Rightarrow> ('k, 'u) wallet \<Rightarrow> string" where
  "ShortID en w =
     (let i = pid_String en (w_PeerID w)
      in if 12 < length i then take 8 i @ ''...'' @ drop (length i - 4) i else i)"

definition Sign :: "('k, 'u) key_lib \<Rightarrow> ('k, 'u) wallet \<Rightarrow> bytes \<Rightarrow> bytes option" where
  "Sign lib w d = kl_Sign lib (w_PrivKey w) d"

definition Verify :: "('k, 'u) key_lib \<Rightarrow> ('k, 'u) wallet \<Rightarrow> bytes \<Rightarrow> bytes \<Rightarrow> bool option" where
  "Verify lib w d sg = kl_Verify lib (w_PubKey w) d sg"

section \<open>The wallet service\<close>

type_synonym ('k, 'u) wallet_service = "('k, 'u) wallet option"

definition NewWalletService :: "('k, 'u) wallet_service" where
  "NewWalletService = None"

definition Wallet_Create ::
    "('k, 'u) key_lib \<Rightarrow> ('k \<times> 'u) option \<Rightarrow> ('k, 'u) wallet_service
      \<Rightarrow> ('k, 'u) wallet_service \<times> (wallet_error + ('k, 'u) wallet)" where
  "Wallet_Create lib rnd s =
     (case rnd of
        None \<Rightarrow> (s, Inl KeygenFailed)
      | Some (k, u) \<Rightarrow>
          (case kl_ID lib u of
             None \<Rightarrow> (s, Inl NoPeerID)
           | Some p \<Rightarrow> (let w = \<lparr>w_PeerID = p, w_PrivKey = k, w_PubKey = u\<rparr> in (Some w, Inr w))))"

record wallet_data =
  wd_PeerID :: string
  wd_PrivKeyHex :: string

definition wallet_json :: "wallet_data \<Rightarrow> json" where
  "wallet_json d = JObj [(''peer_id'', JStr (wd_PeerID d)), (''private_key'', JStr (wd_PrivKeyHex d))]"

definition wallet_field :: "string \<Rightarrow> json \<Rightarrow> wallet_data \<Rightarrow> wallet_data option" where
  "wallet_field n j d =
     (if n = ''peer_id'' then map_option (\<lambda>s. d\<lparr>wd_PeerID := s\<rparr>) (as_string j (wd_PeerID d))
      else if n = ''private_key'' then map_option (\<lambda>s. d\<lparr>wd_PrivKeyHex := s\<rparr>) (as_string j (wd_PrivKeyHex d))
      else Some d)"

definition decode_wallet :: "bytes \<Rightarrow> wallet_data option" where
  "decode_wallet data =
     Option.bind (json_parse data) (\<lambda>j. decode_struct wallet_field j \<lparr>wd_PeerID = [], wd_PrivKeyHex = []\<rparr>)"

definition Wallet_Load ::
    "('k, 'u) key_lib \<Rightarrow> fs \<Rightarrow> string \<Rightarrow> ('k, 'u) wallet_service
      \<Rightarrow> ('k, 'u) wallet_service \<times> (wallet_error + ('k, 'u) wallet)" where
  "Wallet_Load lib fs p s =
     (case os_ReadFile fs p of
        None \<Rightarrow> (s, Inl WalletNotRead)
      | Some data \<Rightarrow>
     (case decode_wallet data of
        None \<Rightarrow> (s, Inl WalletNotParsed)
      | Some wd \<Rightarrow>
     (case kl_Decode lib (wd_PrivKeyHex wd) of
        None \<Rightarrow> (s, Inl KeyNotDecoded)
      | Some kb \<Rightarrow>
     (case kl_Unmarshal lib kb of
        None \<Rightarrow> (s, Inl KeyNotUnmarshalled)
      | Some k \<Rightarrow>
     (let u = kl_Public lib k
      in case kl_ID lib u of
           None \<Rightarrow> (s, Inl NoPeerID)
         | Some i \<Rightarrow> (let w = \<lparr>w_PeerID = i, w_PrivKey = k, w_PubKey = u\<rparr> in (Some w, Inr w)))))))"

text \<open>\<open>Save\<close> of a wallet that may be nil; the result is \<open>None\<close> for success.\<close>

definition Wallet_Save ::
    "env \<Rightarrow> ('k, 'u) key_lib \<Rightarrow> fs \<Rightarrow> ('k, 'u) wallet option \<Rightarrow> string \<Rightarrow> fs \<times> wallet_error option" where
  "Wallet_Save en lib fs wo p =
     (case wo of
        None \<Rightarrow> (fs, Some NilWallet)
      | Some w \<Rightarrow>
          (case os_MkdirAll fs (Dir p) of
             (fs1, False) \<Rightarrow> (fs1, Some DirNotCreated)
           | (fs1, True) \<Rightarrow>
               (case kl_Marshal lib (w_PrivKey w) of
                  None \<Rightarrow> (fs1, Some KeyNotMarshalled)
                | Some kb \<Rightarrow>
                    (case os_WriteFile fs1 p (json_indent (wallet_json
                         \<lparr>wd_PeerID = pid_String en (w_PeerID w), wd_PrivKeyHex = kl_Encode lib kb\<rparr>)) of
                       (fs2, False) \<Rightarrow> (fs2, Some FileNotWritten)
                     | (fs2, True) \<Rightarrow> (fs2, None)))))"

definition Wallet_GetPeerID :: "('k, 'u) wallet_service \<Rightarrow> peer" where
  "Wallet_GetPeerID s = (case s of None \<Rightarrow> [] | Some w \<Rightarrow> w_PeerID w)"

definition Wallet_GetPrivKey :: "('k, 'u) wallet_service \<Rightarrow> 'k option" where
  "Wallet_GetPrivKey s = map_option w_PrivKey s"

section \<open>The encrypted keystore\<close>

record encrypted_data =
  ed_Salt :: bytes
  ed_Nonce :: bytes
  ed_Ciphertext :: bytes

datatype keystore_error =
    KsMarshalFailed | KsNoSalt | KsNoCipher | KsNoNonce | KsPanic | KsMkdirFailed | KsWriteFailed
  | KsReadFailed | KsParseFailed | KsDecryptFailed | KsUnmarshalFailed

definition saltSize :: nat where "saltSize = 32"
definition keySize :: nat where "keySize = 32"
definition iterations :: nat where "iterations = 100000"

text \<open>\<open>pbkdf2.Key\<close> with SHA-256: passphrase, salt, iterations and length of the key.\<close>

type_synonym kdf = "string \<Rightarrow> bytes \<Rightarrow> nat \<Rightarrow> nat \<Rightarrow> bytes"

definition encrypted_json :: "encrypted_data \<Rightarrow> json" where
  "encrypted_json e = JObj [(''salt'', JStr (base64 (ed_Salt e))), (''nonce'', JStr (base64 (ed_Nonce e))),
     (''ciphertext'', JStr (base64 (ed_Ciphertext e)))]"

definition encrypted_field :: "string \<Rightarrow> json \<Rightarrow> encrypted_data \<Rightarrow> encrypted_data option" where
  "encrypted_field n j e =
     (if n = ''salt'' then map_option (\<lambda>b. e\<lparr>ed_Salt := b\<rparr>) (as_bytes j (ed_Salt e))
      else if n = ''nonce'' then map_option (\<lambda>b. e\<lparr>ed_Nonce := b\<rparr>) (as_bytes j (ed_Nonce e))
      else if n = ''ciphertext'' then map_option (\<lambda>b. e\<lparr>ed_Ciphertext := b\<rparr>) (as_bytes j (ed_Ciphertext e))
      else Some e)"

definition decode_encrypted :: "bytes \<Rightarrow> encrypted_data option" where
  "decode_encrypted data =
     Option.bind (json_parse data)
       (\<lambda>j. decode_struct encrypted_field j \<lparr>ed_Salt = [], ed_Nonce = [], ed_Ciphertext = []\<rparr>)"

text \<open>
  The keystore is its path \<open>p\<close>.  \<open>salt\<close> and \<open>nonce\<close> are what the source of randomness fills the
  buffers with.
\<close>

definition SaveKey ::
    "('k, 'u) key_lib \<Rightarrow> kdf \<Rightarrow> fs \<Rightarrow> string \<Rightarrow> bytes option \<Rightarrow> bytes option \<Rightarrow> 'k \<Rightarrow> string \<Rightarrow> fs \<times> keystore_error option" where
  "SaveKey lib kd fs p rsalt rnonce k pass =
     (case kl_Marshal lib k of
        None \<Rightarrow> (fs, Some KsMarshalFailed)
      | Some kb \<Rightarrow>
     (case rsalt of
        None \<Rightarrow> (fs, Some KsNoSalt)
      | Some salt \<Rightarrow>
     (let key = kd pass salt iterations keySize
      in if \<not> aes_key_ok key then (fs, Some KsNoCipher)
         else (case rnonce of
        None \<Rightarrow> (fs, Some KsNoNonce)
      | Some nonce \<Rightarrow>
     (case gcm_Seal key nonce kb of
        None \<Rightarrow> (fs, Some KsPanic)
      | Some ct \<Rightarrow>
     (case os_MkdirAll fs (Dir p) of
        (fs1, False) \<Rightarrow> (fs1, Some KsMkdirFailed)
      | (fs1, True) \<Rightarrow>
     (case os_WriteFile fs1 p (json_indent (encrypted_json \<lparr>ed_Salt = salt, ed_Nonce = nonce, ed_Ciphertext = ct\<rparr>)) of
        (fs2, False) \<Rightarrow> (fs2, Some KsWriteFailed)
      | (fs2, True) \<Rightarrow> (fs2, None))))))))"

definition LoadKey :: "('k, 'u) key_lib \<Rightarrow> kdf \<Rightarrow> fs \<Rightarrow> string \<Rightarrow> string \<Rightarrow> keystore_error + 'k" where
  "LoadKey lib kd fs p pass =
     (case os_ReadFile fs p of
        None \<Rightarrow> Inl KsReadFailed
      | Some data \<Rightarrow>
     (case decode_encrypted data of
        None \<Rightarrow> Inl KsParseFailed
      | Some e \<Rightarrow>
     (let key = kd pass (ed_Salt e) iterations keySize
      in if \<not> aes_key_ok key then Inl KsNoCipher
         else (case gcm_Open key (ed_Nonce e) (ed_Ciphertext e) of
        None \<Rightarrow> Inl KsPanic
      | Some None \<Rightarrow> Inl KsDecryptFailed
      | Some (Some kb) \<Rightarrow>
     (case kl_Unmarshal lib kb of None \<Rightarrow> Inl KsUnmarshalFailed | Some k \<Rightarrow> Inr k)))))"

definition Keystore_Exists :: "fs \<Rightarrow> string \<Rightarrow> bool" where
  "Keystore_Exists fs p = os_Stat fs p"

definition Keystore_Delete :: "fs \<Rightarrow> string \<Rightarrow> fs \<times> bool" where
  "Keystore_Delete fs p = os_Remove fs p"

section \<open>The wallet is consistent\<close>

definition wallet_ok :: "('k, 'u) key_lib \<Rightarrow> ('k, 'u) wallet_service \<Rightarrow> bool" where
  "wallet_ok lib s = (case s of None \<Rightarrow> True
     | Some w \<Rightarrow> w_PubKey w = kl_Public lib (w_PrivKey w) \<and> kl_ID lib (w_PubKey w) = Some (w_PeerID w))"

datatype ('k, 'u) wallet_call = CreateCall "('k \<times> 'u) option" | LoadCall fs string

fun do_wallet ::
    "('k, 'u) key_lib \<Rightarrow> ('k, 'u) wallet_service \<Rightarrow> ('k, 'u) wallet_call
      \<Rightarrow> ('k, 'u) wallet_service \<times> (wallet_error + ('k, 'u) wallet)" where
  "do_wallet lib s (CreateCall rnd) = Wallet_Create lib rnd s"
| "do_wallet lib s (LoadCall fs p) = Wallet_Load lib fs p s"

definition wallet_after ::
    "('k, 'u) key_lib \<Rightarrow> ('k, 'u) wallet_call list \<Rightarrow> ('k, 'u) wallet_service" where
  "wallet_after lib calls = foldl (\<lambda>s x. fst (do_wallet lib s x)) NewWalletService calls"

text \<open>The generator gives a private key with its public key.\<close>

fun call_ok :: "('k, 'u) key_lib \<Rightarrow> ('k, 'u) wallet_call \<Rightarrow> bool" where
  "call_ok lib (CreateCall (Some (k, u))) = (u = kl_Public lib k)"
| "call_ok lib _ = True"

lemma do_wallet_result:
  obtains e where "do_wallet lib s x = (s, Inl e)" | w where "do_wallet lib s x = (Some w, Inr w)"
proof -
  have "(\<exists>e. do_wallet lib s x = (s, Inl e)) \<or> (\<exists>w. do_wallet lib s x = (Some w, Inr w))"
    by (cases x) (auto simp: Wallet_Create_def Wallet_Load_def Let_def split: option.split)
  then show thesis
    using that by blast
qed

lemma do_wallet_identity:
  assumes "do_wallet lib s x = (s', Inr w)" "call_ok lib x"
  shows "s' = Some w \<and> IdentityFromPrivKey lib (w_PrivKey w) = Inr w"
  using assms by (cases x) (auto simp: Wallet_Create_def Wallet_Load_def IdentityFromPrivKey_def Let_def split: option.splits)

lemma IdentityFromPrivKey_ok: "IdentityFromPrivKey lib k = Inr w \<Longrightarrow> wallet_ok lib (Some w) \<and> w_PrivKey w = k"
  by (auto simp: IdentityFromPrivKey_def wallet_ok_def split: option.splits)

lemma do_wallet_ok:
  assumes "wallet_ok lib s" "call_ok lib x"
  shows "wallet_ok lib (fst (do_wallet lib s x))"
proof (rule do_wallet_result [of lib s x])
  fix w
  assume w: "do_wallet lib s x = (Some w, Inr w)"
  from do_wallet_identity [OF w assms(2)] show ?thesis
    using IdentityFromPrivKey_ok w by fastforce
qed (use assms(1) in simp)

text \<open>
  C19. Whatever wallets are created and loaded, in any order and from any files, the wallet the
  service holds is one identity: its public key belongs to its private key and its peer ID to
  its public key, whatever peer ID a file claims.  A call that fails leaves the wallet as it
  was; one that succeeds makes its wallet the current one.
\<close>

theorem wallet_stays_consistent:
  assumes "list_all (call_ok lib) calls" "call_ok lib x"
  shows "wallet_ok lib (wallet_after lib calls) \<and> wallet_ok lib (fst (do_wallet lib (wallet_after lib calls) x))
    \<and> (case do_wallet lib (wallet_after lib calls) x of
         (s, Inl e) \<Rightarrow> s = wallet_after lib calls
       | (s, Inr w) \<Rightarrow> s = Some w \<and> IdentityFromPrivKey lib (w_PrivKey w) = Inr w \<and> Wallet_GetPeerID s = w_PeerID w)"
proof -
  have "wallet_ok lib (foldl (\<lambda>s x. fst (do_wallet lib s x)) s0 calls)" if "wallet_ok lib s0" for s0
    using assms(1) that by (induction calls arbitrary: s0) (simp_all add: do_wallet_ok)
  then have ok: "wallet_ok lib (wallet_after lib calls)"
    by (simp add: wallet_after_def wallet_ok_def NewWalletService_def)
  show ?thesis
  proof (rule do_wallet_result [of lib "wallet_after lib calls" x])
    fix w
    assume w: "do_wallet lib (wallet_after lib calls) x = (Some w, Inr w)"
    then show ?thesis
      using ok do_wallet_ok [OF ok assms(2)] do_wallet_identity [OF w assms(2)] by (simp add: Wallet_GetPeerID_def)
  qed (use ok in simp)
qed

section \<open>Saving and loading\<close>

lemma wallet_names [simp]:
  "fold_name ''peer_id'' = ''peer_id''" "fold_name ''private_key'' = ''private_key''"
  "fold_name ''salt'' = ''salt''" "fold_name ''nonce'' = ''nonce''" "fold_name ''ciphertext'' = ''ciphertext''"
  "utf8_ok ''peer_id''" "utf8_ok ''private_key''" "utf8_ok ''salt''" "utf8_ok ''nonce''" "utf8_ok ''ciphertext''"
  by (rule fold_name_plain ascii_utf8; simp add: code_def)+

lemma decode_wallet_json:
  assumes "utf8_ok (wd_PeerID d)" "utf8_ok (wd_PrivKeyHex d)"
  shows "decode_wallet (json_indent (wallet_json d)) = Some d"
  using assms by (simp add: decode_wallet_def wallet_json_def json_parse_indent decode_simps wallet_field_def)

lemma decode_encrypted_json: "decode_encrypted (json_indent (encrypted_json e)) = Some e"
  by (simp add: decode_encrypted_def encrypted_json_def json_parse_indent decode_simps encrypted_field_def)

text \<open>A key library that reads back the keys and the texts that it writes, in plain characters.\<close>

definition key_lib_ok :: "('k, 'u) key_lib \<Rightarrow> bool" where
  "key_lib_ok lib \<longleftrightarrow> (\<forall>k kb. kl_Marshal lib k = Some kb \<longrightarrow> kl_Unmarshal lib kb = Some k)
     \<and> (\<forall>b. kl_Decode lib (kl_Encode lib b) = Some b \<and> ascii (kl_Encode lib b))"

lemma Wallet_Save_ok:
  assumes "Wallet_Save en lib fs (Some w) p = (fs', None)"
  obtains kb where "kl_Marshal lib (w_PrivKey w) = Some kb"
    and "os_ReadFile fs' p = Some (json_indent (wallet_json
          \<lparr>wd_PeerID = pid_String en (w_PeerID w), wd_PrivKeyHex = kl_Encode lib kb\<rparr>))"
  using assms that
  by (auto simp: Wallet_Save_def dest!: os_WriteFile_read split: prod.splits bool.splits option.splits)

lemma wallet_loads:
  assumes "Wallet_Save en lib fs (Some w) p = (fs', None)" and "wallet_ok lib (Some w)"
    and "key_lib_ok lib" and "utf8_ok (pid_String en (w_PeerID w))"
  obtains data wd kb where "os_ReadFile fs' p = Some data" and "decode_wallet data = Some wd"
    and "kl_Decode lib (wd_PrivKeyHex wd) = Some kb" and "kl_Unmarshal lib kb = Some (w_PrivKey w)"
    and "\<And>s. Wallet_Load lib fs' p s = (Some w, Inr w)"
proof -
  obtain kb where kb: "kl_Marshal lib (w_PrivKey w) = Some kb"
      "os_ReadFile fs' p = Some (json_indent (wallet_json
          \<lparr>wd_PeerID = pid_String en (w_PeerID w), wd_PrivKeyHex = kl_Encode lib kb\<rparr>))"
    using Wallet_Save_ok [OF assms(1)] .
  have lib: "kl_Unmarshal lib kb = Some (w_PrivKey w)" "kl_Decode lib (kl_Encode lib kb) = Some kb"
      "utf8_ok (kl_Encode lib kb)"
    using assms(3) kb(1) by (simp_all add: key_lib_ok_def)
  have "Wallet_Load lib fs' p s = (Some w, Inr w)" for s
    using assms(2,4) lib kb(2) by (cases w) (simp add: Wallet_Load_def decode_wallet_json wallet_ok_def Let_def)
  then show thesis
    using that [OF kb(2)] decode_wallet_json assms(4) lib by simp
qed

text \<open>
  C35. A wallet that was saved is the wallet every service loads from the file, after any
  restart.  Nothing protects it: its private key stands in the file in the plain encoding of
  the library, and any reader of the file decodes it.
\<close>

theorem saved_wallet_loads:
  assumes "Wallet_Save en lib fs (Some w) p = (fs', None)" and "wallet_ok lib (Some w)"
    and "key_lib_ok lib" and "utf8_ok (pid_String en (w_PeerID w))"
  shows "Wallet_Load lib fs' p s = (Some w, Inr w)
    \<and> (\<exists>data wd kb. os_ReadFile fs' p = Some data \<and> decode_wallet data = Some wd
         \<and> kl_Decode lib (wd_PrivKeyHex wd) = Some kb \<and> kl_Unmarshal lib kb = Some (w_PrivKey w))"
  by (rule wallet_loads [OF assms]) blast

section \<open>The keystore\<close>

text \<open>What \<open>Open\<close> compares: the stored tag against that of the ciphertext under a key.\<close>

definition authentic :: "bytes \<Rightarrow> bytes \<Rightarrow> bytes \<Rightarrow> bool" where
  "authentic key nonce sealed \<longleftrightarrow>
     (let s = map to_word8 sealed
      in gcm_tag (map to_word8 key) (map to_word8 nonce) (take (length s - 16) s) = drop (length s - 16) s)"

lemma gcm_Seal_length:
  assumes "gcm_Seal key nonce plain = Some sealed" "aes_key_ok key"
  shows "length nonce = 12" "length sealed = length plain + 16" "length plain \<le> gcm_max"
proof -
  have n: "length nonce = 12" "length plain \<le> gcm_max"
    using assms(1) by (auto simp: gcm_Seal_def gcm_NonceSize_def split: if_splits)
  have k: "length (map to_word8 key) \<in> {16, 24, 32}" "length (map to_word8 nonce) = 12"
    using assms(2) n by (auto simp: aes_key_ok_def)
  show "length nonce = 12" "length plain \<le> gcm_max" by (fact n)+
  show "length sealed = length plain + 16"
    using assms(1) n length_gcm_stream [OF k] length_gcm_tag [OF k]
    by (auto simp: gcm_Seal_def gcm_NonceSize_def Let_def)
qed

lemma gcm_Open_other:
  assumes "length nonce = 12" "16 \<le> length sealed" "length sealed \<le> gcm_max + 16"
  shows "gcm_Open key nonce sealed = Some None \<longleftrightarrow> \<not> authentic key nonce sealed"
    and "gcm_Open key nonce sealed \<noteq> None"
  using assms by (auto simp: gcm_Open_def gcm_NonceSize_def authentic_def Let_def)

lemma SaveKey_ok:
  assumes "SaveKey lib kd fs p (Some salt) (Some nonce) k pass = (fs', None)"
  obtains kb ct where "kl_Marshal lib k = Some kb" and "aes_key_ok (kd pass salt iterations keySize)"
    and "gcm_Seal (kd pass salt iterations keySize) nonce kb = Some ct"
    and "os_ReadFile fs' p = Some (json_indent (encrypted_json \<lparr>ed_Salt = salt, ed_Nonce = nonce, ed_Ciphertext = ct\<rparr>))"
  using assms that
  by (auto simp: SaveKey_def Let_def dest!: os_WriteFile_read split: prod.splits bool.splits option.splits if_splits)

text \<open>
  C18. A key saved in the keystore is loaded with its passphrase.  Any other passphrase reads the
  file without panicking, and it is refused with an error exactly when the tag of the
  ciphertext under the key derived from it is not the stored one.
\<close>

theorem keystore_opens_with_passphrase:
  assumes "SaveKey lib kd fs p (Some salt) (Some nonce) k pass = (fs', None)" and "key_lib_ok lib"
    and "\<forall>q. length (kd q salt iterations keySize) = keySize"
  shows "LoadKey lib kd fs' p pass = Inr k
    \<and> (\<exists>ct. os_ReadFile fs' p = Some (json_indent (encrypted_json \<lparr>ed_Salt = salt, ed_Nonce = nonce, ed_Ciphertext = ct\<rparr>))
         \<and> (\<forall>q. LoadKey lib kd fs' p q \<noteq> Inl KsPanic
           \<and> (LoadKey lib kd fs' p q = Inl KsDecryptFailed
               \<longleftrightarrow> \<not> authentic (kd q salt iterations keySize) nonce ct)))"
proof -
  obtain kb ct where s: "kl_Marshal lib k = Some kb" "aes_key_ok (kd pass salt iterations keySize)"
      "gcm_Seal (kd pass salt iterations keySize) nonce kb = Some ct"
      "os_ReadFile fs' p = Some (json_indent (encrypted_json \<lparr>ed_Salt = salt, ed_Nonce = nonce, ed_Ciphertext = ct\<rparr>))"
    using SaveKey_ok [OF assms(1)] .
  have key: "aes_key_ok (kd q salt iterations keySize)" for q
    using assms(3) by (simp add: aes_key_ok_def keySize_def)
  have load: "LoadKey lib kd fs' p q = (case gcm_Open (kd q salt iterations keySize) nonce ct of
      None \<Rightarrow> Inl KsPanic | Some None \<Rightarrow> Inl KsDecryptFailed
    | Some (Some kb) \<Rightarrow> (case kl_Unmarshal lib kb of None \<Rightarrow> Inl KsUnmarshalFailed | Some k \<Rightarrow> Inr k))" for q
    using key by (simp add: LoadKey_def s(4) decode_encrypted_json Let_def)
  have "kl_Unmarshal lib kb = Some k"
    using assms(2) s(1) by (simp add: key_lib_ok_def)
  then have "LoadKey lib kd fs' p pass = Inr k"
    by (simp add: load gcm_Open_Seal [OF s(3,2)])
  moreover have "LoadKey lib kd fs' p q \<noteq> Inl KsPanic \<and>
      (LoadKey lib kd fs' p q = Inl KsDecryptFailed \<longleftrightarrow> \<not> authentic (kd q salt iterations keySize) nonce ct)" for q
    using gcm_Open_other [of nonce ct "kd q salt iterations keySize"] gcm_Seal_length [OF s(3,2)]
    by (auto simp: load split: option.split)
  ultimately show ?thesis
    using s(4) by blast
qed

text \<open>A file with a nonce of another length makes \<open>LoadKey\<close> panic, whatever the passphrase.\<close>

lemma load_key_panics:
  assumes "os_ReadFile fs p = Some (json_indent (encrypted_json e))" "length (ed_Nonce e) \<noteq> 12"
    and "aes_key_ok (kd q (ed_Salt e) iterations keySize)"
  shows "LoadKey lib kd fs p q = Inl KsPanic"
  using assms by (simp add: LoadKey_def decode_encrypted_json gcm_Open_def gcm_NonceSize_def)

section \<open>Concrete keys\<close>

definition plain_keys :: "(string, string) key_lib" where
  "plain_keys = \<lparr>kl_Public = (\<lambda>k. ''pub-'' @ k), kl_ID = Some, kl_Marshal = Some, kl_Unmarshal = Some,
     kl_Encode = base64, kl_Decode = base64_decode, kl_Sign = (\<lambda>k d. Some d), kl_Verify = (\<lambda>u d s. Some (d = s))\<rparr>"

definition plain_kdf :: kdf where
  "plain_kdf q salt n l = take l (q @ replicate l (CHR 0x00))"

definition home_fs :: fs where
  "home_fs = \<lparr>fs_files = [], fs_dirs = [[]], fs_cwd = [], fs_allow = (\<lambda>p. True), fs_io = []\<rparr>"

lemma plain_keys_ok: "key_lib_ok plain_keys"
  by (simp add: key_lib_ok_def plain_keys_def)

lemma home_fs_dir: "os_MkdirAll home_fs (Dir ''/home/key'') = (home_fs\<lparr>fs_dirs := [[''home''], []]\<rparr>, True)"
  by (simp add: os_MkdirAll_def home_fs_def Dir_def Clean_def rooted_def clean_step_def resolve_def walk_def mkdir_step_def)

lemma home_fs_write:
  obtains fs' where "os_WriteFile (home_fs\<lparr>fs_dirs := [[''home''], []]\<rparr>) ''/home/key'' d = (fs', True)"
proof (rule os_WriteFile_ok [of "''/home/key''" "home_fs\<lparr>fs_dirs := [[''home''], []]\<rparr>" d])
qed (auto simp: file_name_def writable_def resolve_def walk_def rooted_def home_fs_def intro: that)

theorem wallet_stays_consistent_witness:
  "wallet_ok plain_keys (wallet_after plain_keys [CreateCall (Some (''k'', ''pub-k''))])
    \<and> Wallet_GetPeerID (wallet_after plain_keys [CreateCall (Some (''k'', ''pub-k''))]) = ''pub-k''"
proof -
  have "list_all (call_ok plain_keys) [CreateCall (Some (''k'', ''pub-k''))]" "call_ok plain_keys (CreateCall None)"
    by (simp_all add: plain_keys_def)
  from wallet_stays_consistent [OF this] show ?thesis
    by (simp add: wallet_after_def Wallet_Create_def plain_keys_def Wallet_GetPeerID_def NewWalletService_def Let_def)
qed

theorem saved_wallet_loads_witness:
  "\<exists>fs'. Wallet_Load plain_keys fs' ''/home/key'' NewWalletService
     = (Some \<lparr>w_PeerID = ''pub-k'', w_PrivKey = ''k'', w_PubKey = ''pub-k''\<rparr>,
        Inr \<lparr>w_PeerID = ''pub-k'', w_PrivKey = ''k'', w_PubKey = ''pub-k''\<rparr>)"
proof -
  let ?w = "\<lparr>w_PeerID = ''pub-k'', w_PrivKey = ''k'', w_PubKey = ''pub-k''\<rparr>"
  obtain fs' where save: "Wallet_Save plain_env plain_keys home_fs (Some ?w) ''/home/key'' = (fs', None)"
    by (rule home_fs_write [of "json_indent (wallet_json \<lparr>wd_PeerID = ''pub-k'', wd_PrivKeyHex = base64 ''k''\<rparr>)"])
      (simp add: Wallet_Save_def home_fs_dir plain_keys_def plain_env_def)
  have "wallet_ok plain_keys (Some ?w)" "utf8_ok (pid_String plain_env (w_PeerID ?w))"
    by (simp_all add: wallet_ok_def plain_keys_def plain_env_def code_def)
  from saved_wallet_loads [OF save this(1) plain_keys_ok this(2)] show ?thesis
    by blast
qed

theorem keystore_opens_with_passphrase_witness:
  "\<exists>fs'. LoadKey plain_keys plain_kdf fs' ''/home/key'' ''open sesame'' = Inr ''secret''"
proof -
  let ?salt = "replicate 32 (CHR 0x01)" and ?nonce = "replicate 12 (CHR 0x02)"
  have len: "\<forall>q. length (plain_kdf q ?salt iterations keySize) = keySize"
    by (simp add: plain_kdf_def min_def)
  then have key: "aes_key_ok (plain_kdf ''open sesame'' ?salt iterations keySize)"
    unfolding aes_key_ok_def by (simp add: keySize_def)
  obtain ct where ct: "gcm_Seal (plain_kdf ''open sesame'' ?salt iterations keySize) ?nonce ''secret'' = Some ct"
    using gcm_Seal_ok [of ?nonce "''secret''"] by (auto simp: gcm_max_def)
  obtain fs' where save: "SaveKey plain_keys plain_kdf home_fs ''/home/key'' (Some ?salt) (Some ?nonce) ''secret'' ''open sesame''
      = (fs', None)"
    by (rule home_fs_write [of "json_indent (encrypted_json \<lparr>ed_Salt = ?salt, ed_Nonce = ?nonce, ed_Ciphertext = ct\<rparr>)"])
      (use key ct in \<open>simp add: SaveKey_def home_fs_dir plain_keys_def Let_def\<close>)
  from keystore_opens_with_passphrase [OF save plain_keys_ok len] show ?thesis
    by blast
qed

end
