(* ===== verification/Cli.thy ===== *)
theory Cli
  imports Host Wallet CloudService ChatRoom
begin

text \<open>
  The commands of \<open>cmd/p2papp/main.go\<close>, each as the composition of the parts it opens, uses and
  closes, with the lines it prints.  The global \<open>dataDir\<close>, the answers of libp2p and of the
  network, and the input are arguments; \<open>CliMain\<close> has the tree of commands and \<open>main\<close>.
\<close>

section \<open>Text\<close>

text \<open>\<open>fmt\<close>'s \<open>%.1f\<close> of a number that is not negative: the exact value rounded half to even.\<close>

definition digit_text :: "int \<Rightarrow> string" where
  "digit_text t = show_int (t div 10) @ ''.'' @ show_int (t mod 10)"

definition format_1f :: "float64 \<Rightarrow> string" where
  "format_1f x = digit_text (round_even (x * 10))"

definition unit_size :: int where
  "unit_size = 1024"

function unit_loop :: "int \<Rightarrow> int \<Rightarrow> nat \<Rightarrow> int \<times> nat" where
  "unit_loop n d e =
     (if unit_size \<le> n then unit_loop (n sdiv unit_size) (wrap64 (d * unit_size)) (Suc e) else (d, e))"
  by pat_completeness auto
termination
  by (relation "measure (\<lambda>(n, d, e). nat n)")
    (auto simp: unit_size_def signed_divide_int_def sgn_if)

declare unit_loop.simps [simp del]

text \<open>\<open>None\<close> is the panic of an index out of range.\<close>

definition formatBytes :: "int \<Rightarrow> string option" where
  "formatBytes n =
     (if n < unit_size then Some (show_int n @ '' B'')
      else (case unit_loop (n sdiv unit_size) unit_size 0 of
              (d, e) \<Rightarrow>
                if e < 6 then Some (format_1f (f_div (f_of_int n) (f_of_int d)) @ '' '' @ [''KMGTPE'' ! e] @ ''B'')
                else None))"

text \<open>\<open>strings.TrimSpace\<close> on UTF-8 text: the encodings of the white space characters.\<close>

definition space_runes :: "string list" where
  "space_runes = map (\<lambda>c. [char_of c]) [9, 10, 11, 12, 13, 32 :: nat]
     @ map (map char_of) ([[0xC2, 0x85], [0xC2, 0xA0], [0xE1, 0x9A, 0x80], [0xE2, 0x81, 0x9F], [0xE3, 0x80, 0x80],
         [0xE2, 0x80, 0xA8], [0xE2, 0x80, 0xA9], [0xE2, 0x80, 0xAF]] @ map (\<lambda>c. [0xE2, 0x80, c]) [0x80..<0x8B :: nat])"

function trim_with :: "string list \<Rightarrow> string \<Rightarrow> string" where
  "trim_with rs s =
     (case find (\<lambda>r. r \<noteq> [] \<and> take (length r) s = r) rs of
        None \<Rightarrow> s | Some r \<Rightarrow> trim_with rs (drop (length r) s))"
  by pat_completeness auto
termination
proof (relation "measure (\<lambda>(rs, s). length s)")
  fix rs s r
  assume "find (\<lambda>r. r \<noteq> [] \<and> take (length r) s = r) rs = Some r"
  then have "r \<noteq> []" "take (length r) s = r"
    by (auto simp: find_Some_iff)
  then have "s \<noteq> []"
    by auto
  with \<open>r \<noteq> []\<close> show "((rs, drop (length r) s), rs, s) \<in> measure (\<lambda>(rs, s). length s)"
    by (cases r) simp_all
qed simp

declare trim_with.simps [simp del]

definition TrimSpace :: "string \<Rightarrow> string" where
  "TrimSpace s = rev (trim_with (map rev space_runes) (rev (trim_with space_runes s)))"

section \<open>Wallet commands\<close>

datatype cli_error =
    CreateWalletFailed wallet_error | SaveWalletFailed wallet_error | LoadWalletFailed wallet_error
  | HostFailed host_error | CloudFailed | UploadFailed cloud_error | DownloadFailed cloud_error | ListFailed
  | JoinRoomFailed chat_error

definition wallet_path :: "string \<Rightarrow> string" where
  "wallet_path dataDir = Join [dataDir, ''wallet.json'']"

definition tick :: string where "tick = map char_of [0xE2, 0x9C, 0x85 :: nat]"
definition pin :: string where "pin = map char_of [0xF0, 0x9F, 0x93, 0x8D :: nat]"
definition folder :: string where "folder = map char_of [0xF0, 0x9F, 0x93, 0x81 :: nat]"
definition chart :: string where "chart = map char_of [0xF0, 0x9F, 0x93, 0x8A :: nat]"
definition link :: string where "link = map char_of [0xF0, 0x9F, 0x94, 0x97 :: nat]"
definition box :: string where "box = map char_of [0xF0, 0x9F, 0x93, 0xA6 :: nat]"
definition hourglass :: string where "hourglass = map char_of [0xE2, 0x8F, 0xB3 :: nat]"

text \<open>
  \<open>answer\<close> is the line the user types when a wallet exists, \<open>rnd\<close> the key pair of the generator.
  The results: the files, what is printed after the question, and the error.
\<close>

definition walletCreate ::
    "env \<Rightarrow> ('k, 'u) key_lib \<Rightarrow> ('k \<times> 'u) option \<Rightarrow> string \<Rightarrow> fs \<Rightarrow> string \<Rightarrow> fs \<times> string list \<times> cli_error option" where
  "walletCreate en lib rnd answer fs dataDir =
     (let p = wallet_path dataDir
      in if os_Stat fs p \<and> TrimSpace answer \<notin> {''y'', ''Y''} then (fs, [], None)
         else (case Wallet_Create lib rnd NewWalletService of
                 (s, Inl e) \<Rightarrow> (fs, [], Some (CreateWalletFailed e))
               | (s, Inr w) \<Rightarrow>
                   (case Wallet_Save en lib fs (Some w) p of
                      (fs', Some e) \<Rightarrow> (fs', [], Some (SaveWalletFailed e))
                    | (fs', None) \<Rightarrow>
                        (fs', [tick @ '' Wallet created successfully!'', pin @ '' Peer ID: '' @ pid_String en (w_PeerID w),
                               folder @ '' Saved to: '' @ p], None))))"

definition walletShow ::
    "env \<Rightarrow> ('k, 'u) key_lib \<Rightarrow> fs \<Rightarrow> string \<Rightarrow> string list \<times> cli_error option" where
  "walletShow en lib fs dataDir =
     (case Wallet_Load lib fs (wallet_path dataDir) NewWalletService of
        (s, Inl e) \<Rightarrow> ([], Some (LoadWalletFailed e))
      | (s, Inr w) \<Rightarrow>
          ([pin @ '' Peer ID: '' @ pid_String en (w_PeerID w), folder @ '' Wallet path: '' @ wallet_path dataDir], None))"

section \<open>Nodes\<close>

text \<open>How every other command starts: the wallet, then a host with its key.\<close>

definition open_node ::
    "env \<Rightarrow> ('k, 'u) key_lib \<Rightarrow> 'k libp2p \<Rightarrow> peer list \<Rightarrow> fs \<Rightarrow> string \<Rightarrow> cli_error + p2p_host" where
  "open_node en lib lp boot fs dataDir =
     (case Wallet_Load lib fs (wallet_path dataDir) NewWalletService of
        (s, Inl e) \<Rightarrow> Inl (LoadWalletFailed e)
      | (s, Inr w) \<Rightarrow>
          (case NewP2PHost en lp boot (Some ((DefaultConfig boot)\<lparr>hc_PrivKey := Some (w_PrivKey w)\<rparr>)) of
             Inl (e, r) \<Rightarrow> Inl (HostFailed e)
           | Inr h \<Rightarrow> Inr h))"

text \<open>\<open>runInteractive\<close> waits for a signal; the result is the host as it runs and as it is left.\<close>

definition runInteractive ::
    "env \<Rightarrow> ('k, 'u) key_lib \<Rightarrow> 'k libp2p \<Rightarrow> peer list \<Rightarrow> fs \<Rightarrow> string \<Rightarrow> cli_error + p2p_host \<times> p2p_host" where
  "runInteractive en lib lp boot fs dataDir =
     (case open_node en lib lp boot fs dataDir of Inl e \<Rightarrow> Inl e | Inr h \<Rightarrow> Inr (h, Host_Close h))"

section \<open>Cloud commands\<close>

definition open_cloud ::
    "env \<Rightarrow> ('k, 'u) key_lib \<Rightarrow> 'k libp2p \<Rightarrow> peer list \<Rightarrow> fs \<Rightarrow> string \<Rightarrow> fs \<times> (cli_error + p2p_host \<times> cloud_service)" where
  "open_cloud en lib lp boot fs dataDir =
     (case open_node en lib lp boot fs dataDir of
        Inl e \<Rightarrow> (fs, Inl e)
      | Inr h \<Rightarrow>
          (case NewCloudService fs (ph_id h) (ph_dht h) (Join [dataDir, ''cloud'']) of
             (fs1, None) \<Rightarrow> (fs1, Inl CloudFailed)
           | (fs1, Some s) \<Rightarrow> (fs1, Inr (h, s))))"

text \<open>\<open>'n\<close> is the network.  A command that opened its service leaves it and its host closed.\<close>

definition upload_lines :: "file_info \<Rightarrow> string option \<Rightarrow> string list" where
  "upload_lines i shown =
     [tick @ '' File uploaded successfully!'', folder @ '' Name: '' @ fi_Name i]
     @ (case shown of None \<Rightarrow> [] | Some b \<Rightarrow>
         [chart @ '' Size: '' @ b, link @ '' Hash: '' @ fi_Hash i, box @ '' Chunks: '' @ show_int (fi_ChunkCount i)])"

definition cloudUpload ::
    "env \<Rightarrow> ('k, 'u) key_lib \<Rightarrow> 'k libp2p \<Rightarrow> peer list \<Rightarrow> 'n announcer \<Rightarrow> 'n \<Rightarrow> fs \<Rightarrow> string \<Rightarrow> string
      \<Rightarrow> 'n \<times> fs \<times> (cli_error + p2p_host \<times> cloud_service \<times> string list)" where
  "cloudUpload en lib lp boot adv n fs dataDir filePath =
     (case open_cloud en lib lp boot fs dataDir of
        (fs1, Inl e) \<Rightarrow> (n, fs1, Inl e)
      | (fs1, Inr (h, s)) \<Rightarrow>
          (case Cloud_Upload adv n fs1 s filePath of
             (n', fs2, s', Inl e) \<Rightarrow> (n', fs2, Inl (UploadFailed e))
           | (n', fs2, s', Inr i) \<Rightarrow>
               (n', fs2, Inr (Host_Close h, Cloud_Close s', upload_lines i (formatBytes (fi_Size i))))))"

text \<open>The outer \<open>None\<close> is a download that does not return.  The lines are those of a successful run.\<close>

definition cloudDownload ::
    "env \<Rightarrow> ('k, 'u) key_lib \<Rightarrow> 'k libp2p \<Rightarrow> peer list \<Rightarrow> 'n network \<Rightarrow> find_event list option \<Rightarrow> 'n \<Rightarrow> fs \<Rightarrow> string
      \<Rightarrow> string \<Rightarrow> string \<Rightarrow> ('n \<times> fs \<times> (cli_error + p2p_host \<times> cloud_service \<times> string list)) option" where
  "cloudDownload en lib lp boot ask found n fs dataDir hash destPath =
     (case open_cloud en lib lp boot fs dataDir of
        (fs1, Inl e) \<Rightarrow> Some (n, fs1, Inl e)
      | (fs1, Inr (h, s)) \<Rightarrow>
          (case Cloud_Download en ask found n fs1 s hash destPath of
             None \<Rightarrow> None
           | Some (n', fs2, Some e) \<Rightarrow> Some (n', fs2, Inl (DownloadFailed e))
           | Some (n', fs2, None) \<Rightarrow>
               Some (n', fs2, Inr (Host_Close h, Cloud_Close s,
                 [hourglass @ '' Downloading...'', tick @ '' File downloaded to: '' @ destPath]))))"

definition list_lines :: "file_info \<Rightarrow> string list" where
  "list_lines i =
     (case formatBytes (fi_Size i) of
        None \<Rightarrow> [''  '' @ fi_Name i, ''    Hash: '' @ fi_Hash i]
      | Some b \<Rightarrow> [''  '' @ fi_Name i, ''    Hash: '' @ fi_Hash i,
          ''    Size: '' @ b @ '' ('' @ show_int (fi_ChunkCount i) @ '' chunks)'', []])"

definition cloudList ::
    "env \<Rightarrow> ('k, 'u) key_lib \<Rightarrow> 'k libp2p \<Rightarrow> peer list \<Rightarrow> fs \<Rightarrow> string
      \<Rightarrow> fs \<times> (cli_error + p2p_host \<times> cloud_service \<times> string list)" where
  "cloudList en lib lp boot fs dataDir =
     (case open_cloud en lib lp boot fs dataDir of
        (fs1, Inl e) \<Rightarrow> (fs1, Inl e)
      | (fs1, Inr (h, s)) \<Rightarrow>
          (case Cloud_List fs1 s of
             None \<Rightarrow> (fs1, Inl ListFailed)
           | Some is \<Rightarrow> (fs1, Inr (Host_Close h, Cloud_Close s,
               if is = [] then [''No files stored.''] else [folder @ '' Stored files:'', []] @ concat (map list_lines is)))))"

section \<open>The chat command\<close>

text \<open>
  What happens while the input loop runs: a signal, the end of the input, or a line, with the
  clock and whether PubSub publishes; and, beside the loop, a step of another goroutine (a
  message or a peer event arrives, a reader goes on, the display takes a message).
\<close>

datatype chat_input = Signal | InputClosed | InputLine string time bool | Beside chat_act

text \<open>
  \<open>None\<close> is a loop that still waits after the given events, or a schedule that cannot happen.  A
  panic of a goroutine ends the process.
\<close>

fun input_loop :: "env \<Rightarrow> time_codec \<Rightarrow> string \<Rightarrow> chat \<Rightarrow> chat_input list \<Rightarrow> chat option" where
  "input_loop en tc room c [] = None"
| "input_loop en tc room c (Signal # xs) = Some c"
| "input_loop en tc room c (InputClosed # xs) = Some c"
| "input_loop en tc room c (InputLine text now ok # xs) =
     (if TrimSpace text = [] then input_loop en tc room c xs
      else input_loop en tc room (fst (SendMessage en tc now ok c room (TrimSpace text))) xs)"
| "input_loop en tc room c (Beside a # xs) =
     (case goroutine_step en tc c a of
        None \<Rightarrow> None
      | Some c' \<Rightarrow> if ch_panic c' then Some c' else input_loop en tc room c' xs)"

text \<open>
  The deferred \<open>Close\<close> of the service: the goroutines go on while it has cancelled the contexts
  and not yet closed the channel (\<open>closing\<close>), and after it until the process is gone (\<open>late\<close>).
\<close>

definition deferred_Close :: "env \<Rightarrow> time_codec \<Rightarrow> chat \<Rightarrow> chat_act list \<Rightarrow> chat_act list \<Rightarrow> chat option" where
  "deferred_Close en tc c closing late =
     (case goroutines en tc (Close_cancel c) closing of
        None \<Rightarrow> None
      | Some c' \<Rightarrow> if ch_panic c' then Some c' else goroutines en tc (Close_channel c') late)"

text \<open>The host is closed last, unless a panic ended the process before.\<close>

definition chatJoin ::
    "env \<Rightarrow> time_codec \<Rightarrow> ('k, 'u) key_lib \<Rightarrow> 'k libp2p \<Rightarrow> peer list \<Rightarrow> time \<Rightarrow> bool \<Rightarrow> bool \<Rightarrow> fs \<Rightarrow> string \<Rightarrow> string
      \<Rightarrow> chat_input list \<Rightarrow> chat_act list \<Rightarrow> chat_act list \<Rightarrow> (cli_error + p2p_host \<times> chat) option" where
  "chatJoin en tc lib lp boot now joined ok fs dataDir roomID xs closing late =
     (case open_node en lib lp boot fs dataDir of
        Inl e \<Rightarrow> Some (Inl e)
      | Inr h \<Rightarrow>
          (case JoinRoom en tc now joined ok (NewChatService (ph_id h)) roomID of
             (c, Some e) \<Rightarrow> Some (Inl (JoinRoomFailed e))
           | (c, None) \<Rightarrow>
               if ch_panic c then Some (Inr (h, c))
               else (case input_loop en tc roomID c xs of
                       None \<Rightarrow> None
                     | Some c1 \<Rightarrow>
                         if ch_panic c1 then Some (Inr (h, c1))
                         else map_option (\<lambda>c2. Inr (if ch_panic c2 then h else Host_Close h, c2))
                           (deferred_Close en tc c1 closing late))))"

section \<open>Sizes\<close>

lemma unit_loop_result:
  assumes "0 < n" "n = m div 1024 ^ Suc e" "m < 2 ^ 63"
  shows "\<exists>k. unit_loop n (1024 ^ Suc e) e = (1024 ^ Suc k, k) \<and> 1024 ^ Suc k \<le> m \<and> m < 1024 ^ Suc (Suc k)"
  using assms
proof (induction "nat n" arbitrary: n e rule: less_induct)
  case less
  have bounds: "n * 1024 ^ Suc e \<le> m" "m < (n + 1) * 1024 ^ Suc e"
  proof -
    have "m = n * 1024 ^ Suc e + m mod 1024 ^ Suc e"
      unfolding less.prems(2) by (rule div_mult_mod_eq [symmetric])
    moreover have "0 \<le> m mod 1024 ^ Suc e" "m mod 1024 ^ Suc e < 1024 ^ Suc e"
      by simp_all
    ultimately show "n * 1024 ^ Suc e \<le> m" "m < (n + 1) * 1024 ^ Suc e"
      unfolding distrib_right by linarith+
  qed
  show ?case
  proof (cases "1024 \<le> n")
    case False
    have "1 * 1024 ^ Suc e \<le> n * (1024 ^ Suc e :: int)" "(n + 1) * 1024 ^ Suc e \<le> 1024 * (1024 ^ Suc e :: int)"
      using False less.prems(1) by (intro mult_right_mono; simp)+
    then have "1024 ^ Suc e \<le> m" "m < 1024 ^ Suc (Suc e)"
      using bounds unfolding power_Suc [of 1024 "Suc e"] mult_1 by linarith+
    then show ?thesis
      using False by (subst unit_loop.simps) (auto simp: unit_size_def)
  next
    case True
    have n: "n div 1024 = m div 1024 ^ Suc (Suc e)"
      by (simp add: less.prems(2) zdiv_zmult2_eq [symmetric] mult.commute)
    have "1024 * 1024 ^ Suc e \<le> n * (1024 ^ Suc e :: int)"
      using True by (intro mult_right_mono) simp_all
    then have "1024 ^ Suc (Suc e) < (2 ^ 63 :: int)"
      using bounds(1) less.prems(3) unfolding power_Suc [of 1024 "Suc e"] by linarith
    moreover have "- (2 ^ 63) \<le> (1024 ^ Suc (Suc e) :: int)"
      by (rule order_trans [of _ 0]) simp_all
    ultimately have w: "wrap64 (1024 ^ Suc e * 1024) = 1024 ^ Suc (Suc e)"
      unfolding power_Suc2 [symmetric] by (intro wrap64_id) (unfold in64_def, rule conjI)
    have step: "unit_loop n (1024 ^ Suc e) e = unit_loop (n div 1024) (1024 ^ Suc (Suc e)) (Suc e)"
      using True w by (subst unit_loop.simps) (simp add: unit_size_def signed_divide_int_def sgn_if)
    have "0 < n div 1024" "nat (n div 1024) < nat n"
      using True by simp_all
    from less.hyps [OF this(2,1) n less.prems(3)] show ?thesis
      unfolding step .
  qed
qed

lemma round_even_tenth: "\<bar>of_int (round_even (x * 10)) / 10 - x\<bar> \<le> 1 / 20"
  using round_even_near [of "x * 10"] by (simp add: abs_le_iff field_simps)

text \<open>The two roundings of the quotient: converting the size, and dividing.\<close>

lemma near_bounds:
  fixes x q u :: rat
  assumes "\<bar>x - q\<bar> \<le> q * u" "u \<le> 1 / 2" "1 \<le> q" "q \<le> 1024"
  shows "1 / 2 \<le> x" "x \<le> 2048"
proof -
  have "q * u \<le> q * (1 / 2)"
    using assms by (intro mult_left_mono) simp_all
  then show "1 / 2 \<le> x" "x \<le> 2048"
    using assms by linarith+
qed

lemma quotient_error:
  fixes m d :: int
  assumes "0 < d" "d \<le> m" "m < 1024 * d"
  shows "\<bar>f_div (f_of_int m) (of_int d) - of_int m / of_int d\<bar> \<le> 1 / 2 ^ 40"
proof -
  let ?q = "of_int m / of_int d :: rat" and ?u = "1 / 2 ^ 53 :: rat"
  let ?x = "f_of_int m / of_int d"
  have d: "(0::rat) < of_int d" and m: "(1::rat) \<le> of_int m"
    using assms by simp_all
  have q: "1 \<le> ?q" "?q \<le> 1024"
    using assms by (simp_all add: field_simps flip: of_int_mult)
  have "\<bar>f_of_int m - of_int m\<bar> \<le> of_int m * ?u"
    unfolding f_of_int_def by (rule fl_rel_error) (rule order_trans [OF _ m], simp)
  from this have "\<bar>f_of_int m - of_int m\<bar> / of_int d \<le> of_int m * ?u / of_int d"
    using d by (intro divide_right_mono) simp_all
  also have "\<bar>f_of_int m - of_int m\<bar> / of_int d = \<bar>?x - ?q\<bar>"
    unfolding diff_divide_distrib [symmetric] abs_divide using d by (simp only: abs_of_pos)
  also have "of_int m * ?u / of_int d = ?q * ?u"
    by (simp only: times_divide_eq_left)
  finally have x: "\<bar>?x - ?q\<bar> \<le> ?q * ?u" .
  have x2: "1 / 2 \<le> ?x" "?x \<le> 2048"
    using near_bounds [OF x _ q] by simp_all
  have "\<bar>fl ?x - ?x\<bar> \<le> ?x * ?u"
    by (rule fl_rel_error) (rule order_trans [OF _ x2(1)], simp)
  moreover have "?x * ?u \<le> 2048 * ?u" "?q * ?u \<le> 1024 * ?u"
    using x2 q by (intro mult_right_mono; simp)+
  moreover have "2048 * ?u + 1024 * ?u \<le> 1 / 2 ^ 40"
    by simp
  ultimately show ?thesis
    unfolding f_div_def using x by linarith
qed

lemma formatBytes_large:
  assumes n: "1024 \<le> n" and "in64 n"
  shows "\<exists>k t. k < 6 \<and> 1024 ^ Suc k \<le> n \<and> n < 1024 ^ Suc (Suc k)
         \<and> formatBytes n = Some (digit_text t @ '' '' @ [''KMGTPE'' ! k] @ ''B'')
         \<and> \<bar>of_int t / 10 - of_int n / 1024 ^ Suc k :: rat\<bar> \<le> 1 / 20 + 1 / 2 ^ 40"
proof -
  have sd: "n sdiv unit_size = n div 1024 ^ Suc 0"
    using n by (simp add: unit_size_def signed_divide_int_def sgn_if)
  have "0 < n div 1024 ^ Suc 0"
    using n by simp
  then obtain k where k: "unit_loop (n div 1024 ^ Suc 0) (1024 ^ Suc 0) 0 = (1024 ^ Suc k, k)"
      "1024 ^ Suc k \<le> n" "n < 1024 ^ Suc (Suc k)"
    using unit_loop_result [of "n div 1024 ^ Suc 0" n 0] assms(2) by (auto simp: in64_def)
  have k6: "k < 6"
  proof (rule ccontr)
    assume "\<not> k < 6"
    then have "(1024::int) ^ 7 \<le> 1024 ^ Suc k"
      by (intro power_increasing) simp_all
    then show False
      using k(2) assms(2) by (simp add: in64_def)
  qed
  have fd: "f_of_int (1024 ^ Suc k) = of_int (1024 ^ Suc k)"
  proof -
    have "(1024 :: rat) ^ Suc k = 2 ^ (10 * Suc k)"
      unfolding power_mult by simp
    also have "\<dots> = of_int 1 * 2 powi (10 * int (Suc k))"
      unfolding power_int_of_nat [symmetric] by simp
    finally have "(1024 :: rat) ^ Suc k = of_int 1 * 2 powi (10 * int (Suc k))" .
    then show ?thesis
      unfolding f_of_int_def using fl_grid [of 1 "10 * int (Suc k)"] by simp
  qed
  let ?y = "f_div (f_of_int n) (of_int (1024 ^ Suc k))"
  have f: "formatBytes n = Some (digit_text (round_even (?y * 10)) @ '' '' @ [''KMGTPE'' ! k] @ ''B'')"
    using n k(1) k6 unfolding formatBytes_def sd
    by (simp add: unit_size_def format_1f_def fd [unfolded power_Suc] del: of_int_power of_int_mult)
  have "\<bar>?y - of_int n / 1024 ^ Suc k\<bar> \<le> 1 / 2 ^ 40"
    using quotient_error [of "1024 ^ Suc k" n] k(2,3) by simp
  then have "\<bar>of_int (round_even (?y * 10)) / 10 - of_int n / 1024 ^ Suc k :: rat\<bar> \<le> 1 / 20 + 1 / 2 ^ 40"
    using round_even_tenth [of ?y] by linarith
  with k(2,3) k6 f show ?thesis
    by blast
qed

lemma formatBytes_small: "n < 1024 \<Longrightarrow> formatBytes n = Some (show_int n @ '' B'')"
  by (simp add: formatBytes_def unit_size_def)

lemma formatBytes_total: "in64 n \<Longrightarrow> \<exists>b. formatBytes n = Some b"
  using formatBytes_small [of n] formatBytes_large [of n] by (cases "n < 1024") auto

text \<open>
  C20. \<open>formatBytes\<close> never indexes past its units: for every 64-bit size below 1024, negative ones
  included, it prints the bytes, and for a larger one it finds the largest unit that the size
  reaches, from KB to EB, and prints a decimal with one digit whose distance from the exact
  quotient is at most a twentieth, but for the rounding of the floats.
\<close>

theorem format_bytes_correct:
  assumes "in64 n"
  shows "(n < 1024 \<longrightarrow> formatBytes n = Some (show_int n @ '' B''))
    \<and> (1024 \<le> n \<longrightarrow> (\<exists>k t. k < 6 \<and> 1024 ^ Suc k \<le> n \<and> n < 1024 ^ Suc (Suc k)
         \<and> formatBytes n = Some (digit_text t @ '' '' @ [''KMGTPE'' ! k] @ ''B'')
         \<and> \<bar>of_int t / 10 - of_int n / 1024 ^ Suc k :: rat\<bar> \<le> 1 / 20 + 1 / 2 ^ 40))"
  using formatBytes_small [of n] formatBytes_large [of n] assms by blast

theorem format_bytes_correct_witness:
  "\<exists>k t. k < 6 \<and> 1024 ^ Suc k \<le> (1536 :: int) \<and> formatBytes 1536 = Some (digit_text t @ '' '' @ [''KMGTPE'' ! k] @ ''B'')
     \<and> \<bar>of_int t / 10 - 1536 / 1024 ^ Suc k :: rat\<bar> \<le> 1 / 20 + 1 / 2 ^ 40"
proof -
  have "in64 1536"
    by (simp add: in64_def)
  from format_bytes_correct [OF this] show ?thesis
    by auto
qed

section \<open>A created wallet\<close>

lemma walletCreate_ok:
  assumes "walletCreate en lib (Some (k, u)) answer fs dataDir = (fs', out, None)"
    and "\<not> os_Stat fs (wallet_path dataDir) \<or> TrimSpace answer \<in> {''y'', ''Y''}" and "kl_ID lib u = Some i"
  shows "Wallet_Save en lib fs (Some \<lparr>w_PeerID = i, w_PrivKey = k, w_PubKey = u\<rparr>) (wallet_path dataDir) = (fs', None)"
  using assms by (auto simp: walletCreate_def Wallet_Create_def Let_def split: prod.splits option.splits)

lemma os_ReadFile_Stat: "os_ReadFile fs p = Some d \<Longrightarrow> os_Stat fs p"
  by (auto simp: os_ReadFile_def os_Stat_def file_name_def split: if_splits)

text \<open>
  C21. After \<open>wallet create\<close> has made a wallet, \<open>wallet show\<close> prints its peer ID, every node of a
  later command runs under that ID and is closed when the command ends, and the wallet is not
  overwritten unless the user answers y.
\<close>

theorem created_wallet_runs_node:
  assumes create: "walletCreate en lib (Some (k, u)) answer fs dataDir = (fs', out, None)"
      "\<not> os_Stat fs (wallet_path dataDir) \<or> TrimSpace answer \<in> {''y'', ''Y''}"
    and keys: "u = kl_Public lib k" "kl_ID lib u = Some i" "key_lib_ok lib" "utf8_ok (pid_String en i)"
    and host: "\<And>opts j. WithIdentity k \<in> set opts \<Longrightarrow> lp_New lp opts = Some j \<Longrightarrow> j = i"
  shows "walletShow en lib fs' dataDir
      = ([pin @ '' Peer ID: '' @ pid_String en i, folder @ '' Wallet path: '' @ wallet_path dataDir], None)
    \<and> (\<forall>h h'. runInteractive en lib lp boot fs' dataDir = Inr (h, h') \<longrightarrow>
         ph_id h = i \<and> ph_started h \<and> \<not> ph_started h' \<and> ph_closed h' = 1)
    \<and> (TrimSpace answer' \<notin> {''y'', ''Y''} \<longrightarrow> walletCreate en lib rnd answer' fs' dataDir = (fs', [], None))"
proof -
  let ?w = "\<lparr>w_PeerID = i, w_PrivKey = k, w_PubKey = u\<rparr>"
  have save: "Wallet_Save en lib fs (Some ?w) (wallet_path dataDir) = (fs', None)"
    by (rule walletCreate_ok [OF create keys(2)])
  have "wallet_ok lib (Some ?w)"
    using keys by (simp add: wallet_ok_def)
  then have load: "Wallet_Load lib fs' (wallet_path dataDir) s = (Some ?w, Inr ?w)" for s
    using wallet_loads [OF save _ keys(3)] keys(4) by (metis wallet.select_convs(1))
  have stat: "os_Stat fs' (wallet_path dataDir)"
    using Wallet_Save_ok [OF save] os_ReadFile_Stat by metis
  have "ph_id h = i \<and> ph_started h \<and> \<not> ph_started h' \<and> ph_closed h' = 1"
    if run: "runInteractive en lib lp boot fs' dataDir = Inr (h, h')" for h h'
  proof -
    let ?cfg = "(DefaultConfig boot)\<lparr>hc_PrivKey := Some k\<rparr>"
    have h: "NewP2PHost en lp boot (Some ?cfg) = Inr h" "h' = Host_Close h"
      using run by (auto simp: runInteractive_def open_node_def load split: sum.splits)
    have "WithIdentity k \<in> set (host_options ?cfg)"
      by (simp add: host_options_def)
    then have "ph_id h = i"
      using host NewP2PHost_id [OF h(1)] by simp
    then show ?thesis
      using NewP2PHost_started [OF h(1)] by (simp add: h(2) Host_Close_def)
  qed
  moreover have "walletShow en lib fs' dataDir
      = ([pin @ '' Peer ID: '' @ pid_String en i, folder @ '' Wallet path: '' @ wallet_path dataDir], None)"
    unfolding walletShow_def load by simp
  moreover have "walletCreate en lib rnd answer' fs' dataDir = (fs', [], None)" if "TrimSpace answer' \<notin> {''y'', ''Y''}"
    unfolding walletCreate_def Let_def using that stat by (simp only: simp_thms if_True)
  ultimately show ?thesis
    by (intro conjI allI impI) simp_all
qed

section \<open>An uploaded file\<close>

text \<open>
  When \<open>cloud upload\<close> has stored and announced a file and printed its hash, the node is
  gone: its host is closed and it answers no transfer protocol any more.  A node started with
  \<open>run\<close> opens no cloud service, so no command serves the file after that.
\<close>

theorem upload_leaves_no_server:
  assumes "cloudUpload en lib lp boot adv n fs dataDir path = (n', fs', Inr (h, s, out))"
  shows "\<not> ph_started h \<and> ph_closed h = 1 \<and> ph_cancelled h \<and> cl_cancelled s
    \<and> TransferProtocol \<notin> cl_handlers s \<and> NotifyProtocol \<notin> cl_handlers s
    \<and> (\<exists>fs1 d i. Store (cl_storage s) fs1 path = (fs', Inr i) \<and> os_ReadFile fs1 path = Some d
         \<and> fi_Hash i = content_hash d \<and> (int (length d) < 2 ^ 63 \<longrightarrow> link @ '' Hash: '' @ fi_Hash i \<in> set out))"
proof -
  obtain fs1 h0 s0 i s1 where run: "open_cloud en lib lp boot fs dataDir = (fs1, Inr (h0, s0))"
      "Cloud_Upload adv n fs1 s0 path = (n', fs', s1, Inr i)"
      "h = Host_Close h0" "s = Cloud_Close s1" "out = upload_lines i (formatBytes (fi_Size i))"
    using assms by (auto simp: cloudUpload_def split: prod.splits sum.splits)
  have "ph_started h0 \<and> ph_closed h0 = 0"
    using run(1) NewP2PHost_started by (fastforce simp: open_cloud_def open_node_def split: prod.splits sum.splits option.splits)
  moreover have store: "Store (cl_storage s0) fs1 path = (fs', Inr i)" "cl_storage s1 = cl_storage s0"
    using run(2) by (auto simp: Cloud_Upload_def split: prod.splits sum.splits)
  then obtain d where d: "os_ReadFile fs1 path = Some d" "fi_Hash i = content_hash d" "fi_Size i = int (length d)"
    by (auto simp: Store_def Let_def split: option.splits prod.splits bool.splits if_splits)
  moreover have "link @ '' Hash: '' @ fi_Hash i \<in> set out" if "int (length d) < 2 ^ 63"
  proof -
    have "in64 (fi_Size i)"
      using that d(3) by (simp add: in64_def)
    then obtain b where "formatBytes (fi_Size i) = Some b"
      using formatBytes_total by blast
    then show ?thesis
      by (simp add: run(5) upload_lines_def)
  qed
  ultimately show ?thesis
    using store by (intro conjI exI [of _ fs1] exI [of _ d] exI [of _ i])
      (simp_all add: run(3,4) Host_Close_def Cloud_Close_def Transfer_Close_def)
qed

section \<open>A concrete node\<close>

definition plain_net :: "string libp2p" where
  "plain_net = \<lparr>lp_New = (\<lambda>opts. if WithIdentity ''key-of-bob'' \<in> set opts then Some ''pub-key-of-bob'' else None),
     lp_DHT = True, lp_PubSub = True, lp_MDNS = True, lp_Bootstrap = True, lp_Connect = (\<lambda>p. True)\<rparr>"

lemma home_wallet_path: "wallet_path ''/home'' = ''/home/wallet.json''"
  by (simp add: wallet_path_def Join_def Clean_def rooted_def clean_step_def)

lemma home_wallet_dir: "os_MkdirAll home_fs (Dir ''/home/wallet.json'') = (home_fs\<lparr>fs_dirs := [[''home''], []]\<rparr>, True)"
  by (simp add: os_MkdirAll_def home_fs_def Dir_def Clean_def rooted_def clean_step_def resolve_def walk_def mkdir_step_def)

lemma home_wallet_write:
  obtains fs' where "os_WriteFile (home_fs\<lparr>fs_dirs := [[''home''], []]\<rparr>) ''/home/wallet.json'' d = (fs', True)"
proof (rule os_WriteFile_ok [of "''/home/wallet.json''" "home_fs\<lparr>fs_dirs := [[''home''], []]\<rparr>" d])
qed (auto simp: file_name_def writable_def resolve_def walk_def rooted_def home_fs_def intro: that)

theorem created_wallet_runs_node_witness:
  "\<exists>fs' out. walletCreate plain_env plain_keys (Some (''key-of-bob'', ''pub-key-of-bob'')) [] home_fs ''/home'' = (fs', out, None)
     \<and> (\<forall>h h'. runInteractive plain_env plain_keys plain_net [] fs' ''/home'' = Inr (h, h') \<longrightarrow> ph_id h = ''pub-key-of-bob'')"
proof -
  let ?w = "\<lparr>w_PeerID = ''pub-key-of-bob'', w_PrivKey = ''key-of-bob'', w_PubKey = ''pub-key-of-bob''\<rparr>"
  have new: "\<not> os_Stat home_fs (wallet_path ''/home'')"
    by (simp add: home_wallet_path os_Stat_def home_fs_def resolve_def walk_def rooted_def)
  obtain fs' where save: "Wallet_Save plain_env plain_keys home_fs (Some ?w) (wallet_path ''/home'') = (fs', None)"
    by (rule home_wallet_write [of "json_indent (wallet_json \<lparr>wd_PeerID = ''pub-key-of-bob'', wd_PrivKeyHex = base64 ''key-of-bob''\<rparr>)"])
      (simp add: Wallet_Save_def home_wallet_path home_wallet_dir plain_keys_def plain_env_def)
  have lib: "kl_ID plain_keys ''pub-key-of-bob'' = Some ''pub-key-of-bob''"
      "''pub-key-of-bob'' = kl_Public plain_keys ''key-of-bob''" "utf8_ok (pid_String plain_env ''pub-key-of-bob'')"
    by (simp_all add: plain_keys_def plain_env_def code_def)
  obtain out where create: "walletCreate plain_env plain_keys (Some (''key-of-bob'', ''pub-key-of-bob'')) [] home_fs ''/home'' = (fs', out, None)"
    unfolding walletCreate_def Let_def Wallet_Create_def using new save lib(1) by simp
  have "lp_New plain_net opts = Some j \<Longrightarrow> j = ''pub-key-of-bob''" for opts j
    by (simp add: plain_net_def split: if_splits)
  then show ?thesis
    using created_wallet_runs_node [OF create disjI1 [OF new] lib(2,1) plain_keys_ok lib(3), of plain_net "[]"] create
    by blast
qed

definition cloud_home :: fs where
  "cloud_home = \<lparr>fs_files = [([''tmp'', ''in.txt''], ''hello''), ([''home'', ''wallet.json''], json_indent (wallet_json
       \<lparr>wd_PeerID = ''pub-key-of-bob'', wd_PrivKeyHex = base64 ''key-of-bob''\<rparr>))],
     fs_dirs = [[''home'', ''cloud'', ''meta''], [''home'', ''cloud'', ''chunks''], [''home'', ''cloud''], [''home''], [''tmp''], []],
     fs_cwd = [''tmp''], fs_allow = (\<lambda>q. True), fs_io = []\<rparr>"

definition cloud_storage :: storage where
  "cloud_storage = \<lparr>st_baseDir = ''/home/cloud'', st_chunksDir = ''/home/cloud/chunks'', st_metaDir = ''/home/cloud/meta''\<rparr>"

lemma cloud_home_ready: "storage_ready cloud_storage cloud_home"
  by (simp add: storage_ready_def cloud_storage_def cloud_home_def resolve_def walk_def rooted_def)

lemma cloud_home_service:
  "NewCloudService cloud_home i dht (Join [''/home'', ''cloud'']) = (cloud_home, Some
     \<lparr>cl_self = i, cl_storage = cloud_storage, cl_index = NewFileIndex dht, cl_dir = ''/home/cloud'',
      cl_handlers = RegisterHandler {}, cl_cancelled = False\<rparr>)"
  by (simp add: NewCloudService_def NewFileStorage_def cloud_storage_def cloud_home_def os_MkdirAll_def mkdir_step_def
      resolve_def Join_def Clean_def rooted_def clean_step_def walk_def)

lemma cloud_home_node:
  obtains h where "open_node plain_env plain_keys plain_net [] cloud_home ''/home'' = Inr h"
proof -
  let ?w = "\<lparr>w_PeerID = ''pub-key-of-bob'', w_PrivKey = ''key-of-bob'', w_PubKey = ''pub-key-of-bob''\<rparr>"
  have "os_ReadFile cloud_home ''/home/wallet.json'' = Some (json_indent (wallet_json
       \<lparr>wd_PeerID = ''pub-key-of-bob'', wd_PrivKeyHex = base64 ''key-of-bob''\<rparr>))"
    by (simp add: os_ReadFile_def cloud_home_def file_name_def resolve_def walk_def rooted_def)
  moreover have "decode_wallet (json_indent (wallet_json
       \<lparr>wd_PeerID = ''pub-key-of-bob'', wd_PrivKeyHex = base64 ''key-of-bob''\<rparr>))
      = Some \<lparr>wd_PeerID = ''pub-key-of-bob'', wd_PrivKeyHex = base64 ''key-of-bob''\<rparr>"
    by (rule decode_wallet_json) (simp add: code_def, simp only: wallet_data.simps ascii_utf8 ascii_base64)
  ultimately have "Wallet_Load plain_keys cloud_home ''/home/wallet.json'' NewWalletService = (Some ?w, Inr ?w)"
    unfolding Wallet_Load_def by (simp add: plain_keys_def Let_def del: base64.simps)
  then show thesis
    using that by (simp add: open_node_def home_wallet_path NewP2PHost_def plain_net_def host_options_def DefaultConfig_def
        bootstrapDHT_def Let_def)
qed

theorem upload_leaves_no_server_witness:
  "\<exists>fs' h s out. cloudUpload plain_env plain_keys plain_net [] (\<lambda>n x. (n, True)) () cloud_home ''/home'' ''in.txt'' = ((), fs', Inr (h, s, out))
     \<and> \<not> ph_started h \<and> TransferProtocol \<notin> cl_handlers s"
proof -
  obtain h where h: "open_node plain_env plain_keys plain_net [] cloud_home ''/home'' = Inr h"
    by (rule cloud_home_node)
  have src: "os_ReadFile cloud_home ''in.txt'' = Some ''hello''" "utf8_ok (Base ''in.txt'')" "int (length ''hello'') < 2 ^ 63"
    by (simp_all add: os_ReadFile_def cloud_home_def file_name_def resolve_def walk_def rooted_def Base_def code_def)
  obtain f i where "Store cloud_storage cloud_home ''in.txt'' = (f, Inr i)"
    by (rule Store_ok [OF cloud_home_ready src collision_free_single]) (simp add: ChunkSize_def)
  moreover obtain ix e where "Advertise (\<lambda>n x. (n, True)) () (NewFileIndex (ph_dht h)) (fi_Hash i) = ((), ix, e)"
    by (cases "Advertise (\<lambda>n x. (n, True)) () (NewFileIndex (ph_dht h)) (fi_Hash i)") auto
  ultimately obtain fs' s out where run: "cloudUpload plain_env plain_keys plain_net [] (\<lambda>n x. (n, True)) () cloud_home ''/home'' ''in.txt''
      = ((), fs', Inr (Host_Close h, s, out))"
    by (simp add: cloudUpload_def open_cloud_def h cloud_home_service Cloud_Upload_def)
  from upload_leaves_no_server [OF this] this show ?thesis
    by blast
qed

end
