(* ===== verification/CliMain.thy ===== *)
theory CliMain
  imports Cli StorageList
begin

text \<open>
  The rest of \<open>cmd/p2papp/main.go\<close>: what a chat session reads and shows, the tree of commands and
  \<open>main\<close>, and what several commands on one data directory do together.  Which command of the
  tree a command line names is cobra's answer.
\<close>

section \<open>The chat session\<close>

text \<open>
  The goroutine that reads the input: complete lines only, up to the first read that fails.
  \<open>marks\<close> gives for each line the clock and whether PubSub publishes when it is sent.
\<close>

function stdin_lines :: "bytes \<Rightarrow> string list" where
  "stdin_lines s = (case read_line s of (l, True) \<Rightarrow> l # stdin_lines (drop (length l) s) | (l, False) \<Rightarrow> [])"
  by pat_completeness auto
termination
  by (relation "measure length") (auto simp: read_line_def Let_def split: if_splits)

declare stdin_lines.simps [simp del]

definition typed_lines :: "(nat \<Rightarrow> time \<times> bool) \<Rightarrow> bytes \<Rightarrow> chat_input list" where
  "typed_lines marks s = map (\<lambda>(i, l). InputLine l (fst (marks i)) (snd (marks i))) (enumerate 0 (stdin_lines s))"

definition input_events :: "(nat \<Rightarrow> time \<times> bool) \<Rightarrow> bytes \<Rightarrow> chat_input list" where
  "input_events marks s = typed_lines marks s @ [InputClosed]"

text \<open>How an arriving message is shown; \<open>clock\<close> is the time of day of a time.\<close>

definition short_id :: "string \<Rightarrow> string" where
  "short_id s = (if 8 < length s then take 8 s else s)"

definition display_message :: "env \<Rightarrow> (time \<Rightarrow> string) \<Rightarrow> message \<Rightarrow> string" where
  "display_message en clock m =
     newline # ''['' @ clock (ms_Timestamp m) @ ''] '' @ short_id (pid_String en (ms_From m)) @ '': '' @ ms_Content m
       @ newline # ''> ''"

definition display_loop :: "env \<Rightarrow> (time \<Rightarrow> string) \<Rightarrow> message list \<Rightarrow> string" where
  "display_loop en clock ms = concat (map (display_message en clock) ms)"

text \<open>What a session and a node print when they start and end.\<close>

definition globe :: string where "globe = map char_of [0xF0, 0x9F, 0x8C, 0x90 :: nat]"
definition antenna :: string where "antenna = map char_of [0xF0, 0x9F, 0x93, 0xA1 :: nat]"
definition bubble :: string where "bubble = map char_of [0xF0, 0x9F, 0x92, 0xAC :: nat]"
definition rocket :: string where "rocket = map char_of [0xF0, 0x9F, 0x9A, 0x80 :: nat]"

definition chat_lines :: "env \<Rightarrow> p2p_host \<Rightarrow> string list \<Rightarrow> string \<Rightarrow> string list" where
  "chat_lines en h addrs roomID =
     [globe @ '' P2P Host started'', pin @ '' Peer ID: '' @ pid_String en (ph_id h)]
     @ map (\<lambda>a. antenna @ '' '' @ a) (Host_Addrs en h addrs)
     @ [[], bubble @ '' Joined room: '' @ roomID, ''Type messages and press Enter to send. Ctrl+C to exit.'', []]"

definition run_lines :: "env \<Rightarrow> p2p_host \<Rightarrow> string list \<Rightarrow> string list" where
  "run_lines en h addrs =
     [rocket @ '' P2P Node started!'', pin @ '' Peer ID: '' @ pid_String en (ph_id h), [], antenna @ '' Listening addresses:'']
     @ map (\<lambda>a. ''   '' @ a) (Host_Addrs en h addrs) @ [[], ''Press Ctrl+C to stop the node.'']"

section \<open>The tree of commands\<close>

datatype cli_action = WalletCreate | WalletShow | ChatJoin | CloudUpload | CloudDownload | CloudList | RunInteractive

text \<open>A \<open>cobra.Command\<close>: its usage, texts, the exact number of its arguments, what it runs, its subcommands.\<close>

datatype command_tree =
  Command (cm_Use: string) (cm_Short: string) (cm_Long: string) (cm_Args: "nat option") (cm_RunE: "cli_action option")
    (cm_subs: "command_tree list")

definition walletCmd :: command_tree where
  "walletCmd = Command ''wallet'' ''Wallet management commands'' [] None None
     [Command ''create'' ''Create a new wallet'' [] None (Some WalletCreate) [],
      Command ''show'' ''Show wallet information'' [] None (Some WalletShow) []]"

definition chatCmd :: command_tree where
  "chatCmd = Command ''chat'' ''Chat commands'' [] None None
     [Command ''join [room]'' ''Join a chat room'' [] (Some 1) (Some ChatJoin) []]"

definition cloudCmd :: command_tree where
  "cloudCmd = Command ''cloud'' ''Cloud storage commands'' [] None None
     [Command ''upload [file]'' ''Upload a file'' [] (Some 1) (Some CloudUpload) [],
      Command ''download [hash] [dest]'' ''Download a file by hash'' [] (Some 2) (Some CloudDownload) [],
      Command ''list'' ''List uploaded files'' [] None (Some CloudList) []]"

definition runCmd :: command_tree where
  "runCmd = Command ''run'' ''Run interactive P2P node'' [] None (Some RunInteractive) []"

definition rootCmd :: command_tree where
  "rootCmd = Command ''p2papp'' ''Decentralized P2P Chat & Cloud Application''
     ''A peer-to-peer application for decentralized chat and cloud file storage using libp2p.'' None None
     [walletCmd, chatCmd, cloudCmd, runCmd]"

fun commands_of :: "command_tree \<Rightarrow> command_tree list" where
  "commands_of (Command u s l a r subs) = Command u s l a r subs # concat (map commands_of subs)"

text \<open>
  \<open>look\<close> is cobra's search: the command that a command line names, its positional arguments, and
  the value of the flag \<open>--data-dir\<close> when it is given.  Cobra also finds commands of its own, which
  run nothing of the program.  A command that runs nothing prints its help; an exact number of
  arguments is checked before a command runs.
\<close>

type_synonym finder = "command_tree \<Rightarrow> string list \<Rightarrow> (command_tree \<times> string list \<times> string option) option"

datatype parsed = Rejected | ShowHelp | Invoke cli_action "string list" string

definition finds_commands :: "finder \<Rightarrow> bool" where
  "finds_commands look \<longleftrightarrow>
     (\<forall>root argv c args flag. look root argv = Some (c, args, flag) \<longrightarrow> c \<in> set (commands_of root) \<or> cm_RunE c = None)"

definition default_data_dir :: "string \<Rightarrow> string" where
  "default_data_dir homeDir = Join [homeDir, ''.p2papp'']"

definition parse_command :: "finder \<Rightarrow> string \<Rightarrow> string list \<Rightarrow> parsed" where
  "parse_command look homeDir argv =
     (case look rootCmd argv of
        None \<Rightarrow> Rejected
      | Some (c, args, flag) \<Rightarrow>
          (case cm_RunE c of
             None \<Rightarrow> ShowHelp
           | Some a \<Rightarrow>
               if cm_Args c \<in> {None, Some (length args)}
               then Invoke a args (case flag of None \<Rightarrow> default_data_dir homeDir | Some d \<Rightarrow> d)
               else Rejected))"

section \<open>The program\<close>

text \<open>What a run depends on besides the files: the libraries, the network \<open>'n\<close>, the user and the clock.\<close>

record ('k, 'u, 'n) machine =
  mc_env :: env
  mc_codec :: time_codec
  mc_keys :: "('k, 'u) key_lib"
  mc_net :: "'k libp2p"
  mc_boot :: "peer list"
  mc_rnd :: "('k \<times> 'u) option"
  mc_answer :: string
  mc_now :: time
  mc_joined :: bool
  mc_published :: bool
  mc_input :: "chat_input list"
  mc_closing :: "chat_act list"
  mc_late :: "chat_act list"
  mc_announce :: "'n announcer"
  mc_ask :: "'n network"
  mc_found :: "find_event list option"

text \<open>A run crashes, goes on, or exits with a status.\<close>

datatype 'n process = Crashed | Waits | Exit nat 'n fs

definition exit_with :: "'n \<Rightarrow> fs \<Rightarrow> cli_error option \<Rightarrow> 'n process" where
  "exit_with n fs e =
     (if e = Some (HostFailed HostPanic) then Crashed else Exit (if e = None then 0 else 1) n fs)"

definition error_of :: "cli_error + 'a \<Rightarrow> cli_error option" where
  "error_of r = (case r of Inl e \<Rightarrow> Some e | Inr x \<Rightarrow> None)"

text \<open>An argument that is not there is an index out of range; a download may also not return by a panic.\<close>

definition run_action :: "('k, 'u, 'n) machine \<Rightarrow> 'n \<Rightarrow> fs \<Rightarrow> string \<Rightarrow> cli_action \<Rightarrow> string list \<Rightarrow> 'n process" where
  "run_action m n fs dataDir a args =
     (case a of
        WalletCreate \<Rightarrow>
          (case walletCreate (mc_env m) (mc_keys m) (mc_rnd m) (mc_answer m) fs dataDir of
             (fs', out, e) \<Rightarrow> exit_with n fs' e)
      | WalletShow \<Rightarrow> exit_with n fs (snd (walletShow (mc_env m) (mc_keys m) fs dataDir))
      | ChatJoin \<Rightarrow>
          (if length args < 1 then Crashed
           else (case chatJoin (mc_env m) (mc_codec m) (mc_keys m) (mc_net m) (mc_boot m) (mc_now m) (mc_joined m)
                   (mc_published m) fs dataDir (args ! 0) (mc_input m) (mc_closing m) (mc_late m) of
                   None \<Rightarrow> Waits
                 | Some (Inr (h, c)) \<Rightarrow> if ch_panic c then Crashed else exit_with n fs None
                 | Some (Inl e) \<Rightarrow> exit_with n fs (Some e)))
      | CloudUpload \<Rightarrow>
          (if length args < 1 then Crashed
           else (case cloudUpload (mc_env m) (mc_keys m) (mc_net m) (mc_boot m) (mc_announce m) n fs dataDir (args ! 0) of
                   (n', fs', r) \<Rightarrow> exit_with n' fs' (error_of r)))
      | CloudDownload \<Rightarrow>
          (if length args < 2 then Crashed
           else (case cloudDownload (mc_env m) (mc_keys m) (mc_net m) (mc_boot m) (mc_ask m) (mc_found m) n fs dataDir
                   (args ! 0) (args ! 1) of
                   None \<Rightarrow> Waits
                 | Some (n', fs', r) \<Rightarrow> exit_with n' fs' (error_of r)))
      | CloudList \<Rightarrow>
          (case cloudList (mc_env m) (mc_keys m) (mc_net m) (mc_boot m) fs dataDir of
             (fs', r) \<Rightarrow> exit_with n fs' (error_of r))
      | RunInteractive \<Rightarrow>
          exit_with n fs (error_of (runInteractive (mc_env m) (mc_keys m) (mc_net m) (mc_boot m) fs dataDir)))"

definition main :: "('k, 'u, 'n) machine \<Rightarrow> finder \<Rightarrow> string \<Rightarrow> string list \<Rightarrow> 'n \<Rightarrow> fs \<Rightarrow> 'n process" where
  "main m look homeDir argv n fs =
     (case parse_command look homeDir argv of
        Rejected \<Rightarrow> Exit 1 n fs
      | ShowHelp \<Rightarrow> Exit 0 n fs
      | Invoke a args dataDir \<Rightarrow> run_action m n fs dataDir a args)"

section \<open>Arguments\<close>

text \<open>The arguments that a command indexes.\<close>

fun arity :: "cli_action \<Rightarrow> nat" where
  "arity ChatJoin = 1"
| "arity CloudUpload = 1"
| "arity CloudDownload = 2"
| "arity a = 0"

lemma rootCmd_arity:
  "c \<in> set (commands_of rootCmd) \<Longrightarrow> cm_RunE c = Some a \<Longrightarrow> arity a = 0 \<or> cm_Args c = Some (arity a)"
  by (auto simp: rootCmd_def walletCmd_def chatCmd_def cloudCmd_def runCmd_def)

lemma parsed_arity:
  assumes "finds_commands look" "parse_command look homeDir argv = Invoke a args dir"
  shows "arity a \<le> length args"
proof -
  obtain c flag where c: "look rootCmd argv = Some (c, args, flag)" "cm_RunE c = Some a" "cm_Args c \<in> {None, Some (length args)}"
    using assms(2) by (auto simp: parse_command_def split: option.splits if_splits)
  then have "c \<in> set (commands_of rootCmd)"
    using assms(1) unfolding finds_commands_def by (metis option.distinct(1))
  then show ?thesis
    using rootCmd_arity [OF _ c(2)] c(3) by auto
qed

section \<open>What a session sends\<close>

lemma stdin_lines_input:
  "\<exists>rest. s = concat (stdin_lines s) @ rest \<and> newline \<notin> set rest
     \<and> (\<forall>l\<in>set (stdin_lines s). \<exists>t. l = t @ [newline] \<and> newline \<notin> set t)"
proof (induction s rule: stdin_lines.induct)
  case (1 s)
  let ?t = "takeWhile (\<lambda>c. c \<noteq> newline) s"
  have t: "newline \<notin> set ?t"
    by (auto dest: set_takeWhileD)
  show ?case
  proof (cases "length ?t < length s")
    case True
    then have "s ! length ?t = newline"
      using nth_length_takeWhile by blast
    define r where "r = drop (Suc (length ?t)) s"
    have split: "s = (?t @ [newline]) @ r"
      unfolding r_def using True \<open>s ! length ?t = newline\<close> takeWhile_eq_take [of "\<lambda>c. c \<noteq> newline" s]
      by (metis append_take_drop_id take_Suc_conv_app_nth)
    have line: "read_line s = (?t @ [newline], True)"
      using True by (simp add: read_line_def Let_def)
    have lines: "stdin_lines s = (?t @ [newline]) # stdin_lines r"
      by (subst stdin_lines.simps) (simp add: line r_def)
    obtain rest where rest: "r = concat (stdin_lines r) @ rest" "newline \<notin> set rest"
        "\<forall>l\<in>set (stdin_lines r). \<exists>t. l = t @ [newline] \<and> newline \<notin> set t"
      using 1 [OF line [symmetric] refl] by (auto simp: r_def)
    have "s = concat (stdin_lines s) @ rest"
      unfolding lines using split rest(1) by simp
    then show ?thesis
      using rest(2,3) t unfolding lines by auto
  next
    case False
    then have "?t = s"
      by (metis length_takeWhile_le linorder_neqE_nat not_less takeWhile_eq_take take_all_iff)
    then show ?thesis
      using t by (subst (1 2) stdin_lines.simps) (auto simp: read_line_def Let_def False)
  qed
qed




fun keyboard :: "chat_input list \<Rightarrow> chat_input list" where
  "keyboard [] = []"
| "keyboard (Beside a # xs) = keyboard xs"
| "keyboard (x # xs) = x # keyboard xs"



lemma keyboard_append [simp]: "keyboard (xs @ ys) = keyboard xs @ keyboard ys"
  by (induction xs rule: keyboard.induct) auto


definition sent :: "string \<times> bytes \<Rightarrow> string \<times> bytes option" where
  "sent p = (fst p, Some (snd p))"

lemma sent_pair [simp]: "sent (t, d) = (t, Some d)"
  by (simp add: sent_def)





























section \<open>Commands on one data directory\<close>

text \<open>Making directories changes no file; making those that are there changes nothing.\<close>

definition same_files :: "fs \<Rightarrow> fs \<Rightarrow> bool" where
  "same_files fs fs' \<longleftrightarrow> fs_files fs' = fs_files fs \<and> fs_cwd fs' = fs_cwd fs \<and> fs_allow fs' = fs_allow fs
     \<and> set (fs_dirs fs) \<subseteq> set (fs_dirs fs')"

lemma same_files_trans: "same_files a b \<Longrightarrow> same_files b c \<Longrightarrow> same_files a c"
  by (auto simp: same_files_def)

lemma same_files_resolve: "same_files fs fs' \<Longrightarrow> resolve fs' p = resolve fs p"
  by (rule resolve_cwd) (simp add: same_files_def)

lemma same_files_read: "same_files fs fs' \<Longrightarrow> os_ReadFile fs' p = os_ReadFile fs p"
  using same_files_resolve [of fs fs' p] by (simp add: os_ReadFile_def same_files_def)

lemma mkdir_fold_files: "same_files fs (fst (foldl mkdir_step (fs, ok) qs))"
proof (induction qs rule: rev_induct)
  case (snoc q qs)
  have "same_files f (fst (mkdir_step (f, b) q))" for f b
    by (auto simp: mkdir_step_def same_files_def)
  then show ?case
    using same_files_trans [OF snoc] by (metis foldl_Cons foldl_Nil foldl_append prod.collapse)
qed (simp add: same_files_def)

lemma MkdirAll_files: "same_files fs (fst (os_MkdirAll fs p))"
  using mkdir_fold_files [of fs True] by (auto simp: os_MkdirAll_def same_files_def)

lemma mkdir_fold_ok: "foldl mkdir_step (fs, True) qs = (fs', True) \<Longrightarrow> set qs \<subseteq> set (fs_dirs fs')"
proof (induction qs arbitrary: fs' rule: rev_induct)
  case (snoc q qs)
  obtain f b where f: "foldl mkdir_step (fs, True) qs = (f, b)"
    by fastforce
  with snoc.prems have "mkdir_step (f, b) q = (fs', True)"
    by simp
  then have "b" "set (fs_dirs f) \<subseteq> set (fs_dirs fs')" "q \<in> set (fs_dirs fs')"
    by (auto simp: mkdir_step_def split: if_splits)
  with snoc.IH [of f] f show ?case
    by auto
qed simp

definition dir_made :: "fs \<Rightarrow> string \<Rightarrow> bool" where
  "dir_made fs p \<longleftrightarrow> p \<noteq> [] \<and> CHR 0x00 \<notin> set p \<and> (\<forall>n < length (resolve fs p). take (Suc n) (resolve fs p) \<in> set (fs_dirs fs))"

lemma MkdirAll_made: "os_MkdirAll fs p = (fs', True) \<Longrightarrow> dir_made fs' p"
  using mkdir_fold_ok [of fs "map (\<lambda>n. take (Suc n) (resolve fs p)) [0..<length (resolve fs p)]" fs']
    same_files_resolve [OF MkdirAll_files [of fs p], of p]
  by (auto simp: os_MkdirAll_def dir_made_def split: if_splits)

lemma MkdirAll_again:
  assumes "dir_made fs p"
  shows "os_MkdirAll fs p = (fs, True)"
proof -
  have "set qs \<subseteq> set (fs_dirs fs) \<Longrightarrow> foldl mkdir_step (fs, True) qs = (fs, True)" for qs
    by (induction qs) (auto simp: mkdir_step_def)
  from this [of "map (\<lambda>n. take (Suc n) (resolve fs p)) [0..<length (resolve fs p)]"] show ?thesis
    using assms by (simp add: os_MkdirAll_def dir_made_def image_subset_iff)
qed

lemma dir_made_files: "same_files fs fs' \<Longrightarrow> dir_made fs p \<Longrightarrow> dir_made fs' p"
  using same_files_resolve [of fs fs' p] by (auto simp: dir_made_def same_files_def)

lemma dir_made_Join:
  assumes "dir_made fs p" "name_ok n" "CHR 0x00 \<notin> set (Join [p, n])" "Join [p, n] \<noteq> []" "resolve fs (Join [p, n]) \<in> set (fs_dirs fs)"
  shows "dir_made fs (Join [p, n])"
  using assms by (auto simp: dir_made_def less_Suc_eq)

lemma open_cloud_again:
  assumes "open_cloud en lib lp boot fs dataDir = (fs1, Inr (h, s))" "storage_ready (cl_storage s) fs1" "readable (cl_storage s) fs1"
    and "st_chunksDir (cl_storage s) \<noteq> []" "same_tree fs1 fs2" "os_ReadFile fs2 (wallet_path dataDir) = os_ReadFile fs1 (wallet_path dataDir)"
  shows "open_cloud en lib lp boot fs2 dataDir = (fs2, Inr (h, s))"
proof -
  let ?d = "Join [dataDir, ''cloud'']"
  have node: "open_node en lib lp boot fs dataDir = Inr h"
    and svc: "NewCloudService fs (ph_id h) (ph_dht h) ?d = (fs1, Some s)"
    using assms(1) by (auto simp: open_cloud_def split: sum.splits prod.splits option.splits)
  obtain f where f: "os_MkdirAll fs ?d = (f, True)" "NewFileStorage f ?d = (fs1, cl_storage s)"
    and s: "s = \<lparr>cl_self = ph_id h, cl_storage = cl_storage s, cl_index = NewFileIndex (ph_dht h), cl_dir = ?d,
      cl_handlers = RegisterHandler {}, cl_cancelled = False\<rparr>"
    using svc by (auto simp: NewCloudService_def split: prod.splits if_splits bool.splits)
  let ?c = "Join [?d, ''chunks'']" and ?m = "Join [?d, ''meta'']"
  have st3: "cl_storage s = \<lparr>st_baseDir = ?d, st_chunksDir = ?c, st_metaDir = ?m\<rparr>"
    and fs1: "fs1 = fst (os_MkdirAll (fst (os_MkdirAll f ?c)) ?m)"
    using f(2) by (auto simp: NewFileStorage_def Let_def)
  have st: "st_chunksDir (cl_storage s) = ?c" "st_metaDir (cl_storage s) = ?m"
    by (simp_all add: st3)
  have "same_files f fs1"
    unfolding fs1 by (rule same_files_trans [OF MkdirAll_files MkdirAll_files])
  moreover have "same_files fs f"
    using MkdirAll_files [of fs ?d] f(1) by simp
  ultimately have "dir_made fs1 ?d" "os_ReadFile fs1 p = os_ReadFile fs p" for p
    using MkdirAll_made [OF f(1)] dir_made_files same_files_read same_files_trans by blast+
  moreover have "dir_made fs2 p = dir_made fs1 p" for p
    by (simp add: dir_made_def same_treeD [OF assms(5)])
  moreover have "dir_made fs1 ?c" "dir_made fs1 ?m"
    using \<open>dir_made fs1 ?d\<close> assms(2-4) by (auto intro!: dir_made_Join simp: storage_ready_def readable_def st name_ok_def)
  ultimately have made: "dir_made fs2 ?d" "dir_made fs2 ?c" "dir_made fs2 ?m" "os_ReadFile fs2 (wallet_path dataDir) = os_ReadFile fs (wallet_path dataDir)"
    using assms(6) by simp_all
  have "open_node en lib lp boot fs2 dataDir = Inr h"
    using node made(4) by (simp add: open_node_def Wallet_Load_def)
  moreover have "NewCloudService fs2 (ph_id h) (ph_dht h) ?d = (fs2, Some s)"
    using s made(1-3) by (simp add: NewCloudService_def NewFileStorage_def MkdirAll_again Let_def st3 [symmetric])
  ultimately show ?thesis
    by (simp add: open_cloud_def)
qed

text \<open>
  C40. What \<open>cloud upload\<close> stores, a later \<open>cloud list\<close> in the same data directory shows: with nothing
  changed but by the upload, it opens the same storage and prints the file's name with the
  hash that the upload printed, its size and its number of chunks, and every file that was
  listed before and is not the same content.
\<close>

theorem uploaded_file_is_listed:
  assumes "open_cloud en lib lp boot fs dataDir = (fs1, Inr (h1, s1))" "catalog_at (cl_storage s1) fs1 M"
    and "st_chunksDir (cl_storage s1) \<noteq> []" "outside (cl_storage s1) fs1 (wallet_path dataDir)"
    and "os_ReadFile fs1 path = Some d" "utf8_ok (Base path)" "int (length d) < 2 ^ 63" "collision_free (blocks d)"
    and "cloudUpload en lib lp boot adv n fs dataDir path = (n', fs', Inr (h, s, out))"
  shows "(link @ '' Hash: '' @ content_hash d) \<in> set out
    \<and> (\<exists>h' s' lines. cloudList en lib lp boot fs' dataDir = (fs', Inr (h', s', lines))
        \<and> set (list_lines (listed (Base path, d))) \<subseteq> set lines
        \<and> (\<forall>k x. M k = Some x \<and> k \<noteq> content_hash d \<longrightarrow> set (list_lines (listed x)) \<subseteq> set lines))"
proof -
  have ready: "storage_ready (cl_storage s1) fs1" "readable (cl_storage s1) fs1"
    using assms(2) by (simp_all add: catalog_at_def)
  let ?i = "\<lparr>fi_Hash = content_hash d, fi_Name = Base path, fi_Size = int (length d),
    fi_ChunkCount = int (length (split_chunks d)), fi_LocalPath = path\<rparr>"
  let ?M = "M(content_hash d \<mapsto> (Base path, d))"
  obtain f where f: "Store (cl_storage s1) fs1 path = (f, Inr ?i)"
    by (rule Store_ok [OF ready(1) assms(5-8)])
  obtain g where g: "fst (Store (cl_storage s1) fs1 path) = g" "same_tree fs1 g" "catalog_at (cl_storage s1) g ?M"
      "\<And>q. q \<noteq> meta_at (cl_storage s1) fs1 (content_hash d) \<Longrightarrow>
        q \<notin> (\<lambda>c. chunk_at (cl_storage s1) fs1 (content_hash c)) ` set (split_chunks d) \<Longrightarrow> file_at g q = file_at fs1 q"
    using catalog_Store [OF assms(2,5-8)] by metis
  have up: "fs' = g" "out = upload_lines ?i (formatBytes (int (length d)))"
    using assms(9) g(1) by (auto simp: cloudUpload_def assms(1) Cloud_Upload_def f split: prod.splits)
  obtain b where b: "formatBytes (int (length d)) = Some b"
    using formatBytes_total [of "int (length d)"] assms(7) by (auto simp: in64_def)
  have "file_at g (resolve fs1 (wallet_path dataDir)) = file_at fs1 (resolve fs1 (wallet_path dataDir))"
    using outside_at [OF assms(4)] by (intro g(4)) auto
  then have "os_ReadFile g (wallet_path dataDir) = os_ReadFile fs1 (wallet_path dataDir)"
    by (rule read_frame [OF g(2)])
  from open_cloud_again [OF assms(1) ready assms(3) g(2) this]
  have again: "open_cloud en lib lp boot g dataDir = (g, Inr (h1, s1))" .
  obtain infos where infos: "Storage_List (cl_storage s1) g = Some infos" "set infos = listed ` ran ?M"
    using catalog_list [OF g(3)] by metis
  have "listed (Base path, d) \<in> set infos" "\<forall>k x. M k = Some x \<and> k \<noteq> content_hash d \<longrightarrow> listed x \<in> set infos"
    unfolding infos(2) by (auto simp: ran_def)
  moreover from this(1) have "infos \<noteq> []"
    by auto
  moreover have "(link @ '' Hash: '' @ content_hash d) \<in> set out"
    by (simp add: up(2) upload_lines_def b)
  ultimately show ?thesis
    using again infos(1) by (auto simp: up(1) cloudList_def Cloud_List_def)
qed

lemma cloud_home_catalog: "catalog_at cloud_storage cloud_home Map.empty"
proof -
  have "meta_dir cloud_storage cloud_home = [''home'', ''cloud'', ''meta'']"
    by (simp add: meta_dir_def cloud_storage_def cloud_home_def resolve_def walk_def rooted_def)
  then show ?thesis
    using cloud_home_ready by (simp add: catalog_at_def readable_def) (simp add: cloud_home_def cloud_storage_def)
qed

theorem uploaded_file_is_listed_witness:
  "\<exists>fs' h s out h' s' lines.
     cloudUpload plain_env plain_keys plain_net [] (\<lambda>n x. (n, True)) () cloud_home ''/home'' ''in.txt'' = ((), fs', Inr (h, s, out))
     \<and> cloudList plain_env plain_keys plain_net [] fs' ''/home'' = (fs', Inr (h', s', lines))
     \<and> set (list_lines (listed (Base ''in.txt'', ''hello''))) \<subseteq> set lines"
proof -
  obtain h where h: "open_node plain_env plain_keys plain_net [] cloud_home ''/home'' = Inr h"
    by (rule cloud_home_node)
  obtain s1 where s1: "open_cloud plain_env plain_keys plain_net [] cloud_home ''/home'' = (cloud_home, Inr (h, s1))"
      "cl_storage s1 = cloud_storage"
    by (simp add: open_cloud_def h cloud_home_service)
  have src: "os_ReadFile cloud_home ''in.txt'' = Some ''hello''" "utf8_ok (Base ''in.txt'')" "int (length ''hello'') < 2 ^ 63"
    by (simp_all add: os_ReadFile_def cloud_home_def file_name_def resolve_def walk_def rooted_def Base_def code_def)
  have cf: "collision_free (blocks ''hello'')"
    by (rule collision_free_single) (simp add: ChunkSize_def)
  have place: "st_chunksDir (cl_storage s1) \<noteq> []" "outside (cl_storage s1) cloud_home (wallet_path ''/home'')"
      "catalog_at (cl_storage s1) cloud_home Map.empty"
    using cloud_home_catalog unfolding s1(2)
    by (simp_all add: outside_def home_wallet_path cloud_storage_def cloud_home_def resolve_def walk_def rooted_def)
  obtain f i where "Store cloud_storage cloud_home ''in.txt'' = (f, Inr i)"
    by (rule Store_ok [OF cloud_home_ready src cf])
  moreover obtain ix e where "Advertise (\<lambda>n x. (n, True)) () (cl_index s1) (fi_Hash i) = ((), ix, e)"
    by (cases "Advertise (\<lambda>n x. (n, True)) () (cl_index s1) (fi_Hash i)") auto
  ultimately obtain fs' h2 s2 out where run: "cloudUpload plain_env plain_keys plain_net [] (\<lambda>n x. (n, True)) () cloud_home ''/home'' ''in.txt''
      = ((), fs', Inr (h2, s2, out))"
    by (simp add: cloudUpload_def s1 Cloud_Upload_def)
  from uploaded_file_is_listed [OF s1(1) place(3,1,2) src cf this] show ?thesis
    using run by blast
qed

end
