(* ===== verification/Protocol.thy ===== *)
theory Protocol
  imports ChatRoom
begin

text \<open>
  The wire formats that \<open>pkg/protocol\<close> declares, and how they stand to what the program sends and
  reads: no file of the program imports the package, and each component has its own types and
  constants.
\<close>

section \<open>Declarations\<close>

record declared_chat_message =
  pc_Version :: int
  pc_ID :: string
  pc_Type :: string
  pc_From :: peer
  pc_RoomID :: string
  pc_Content :: string
  pc_Timestamp :: time

definition ChatProtocolVersion :: int where "ChatProtocolVersion = 1"
definition ChatTopic :: string where "ChatTopic = ''/p2papp/chat/''"
definition declared_DMProtocol :: string where "declared_DMProtocol = ''/p2papp/dm/1.0.0''"

definition declared_types :: "string list" where
  "declared_types = [''text'', ''join'', ''leave'', ''system'']"

definition CloudProtocolVersion :: int where "CloudProtocolVersion = 1"
definition declared_TransferProtocol :: string where "declared_TransferProtocol = ''/p2papp/transfer/1.0.0''"
definition declared_NotifyProtocol :: string where "declared_NotifyProtocol = ''/p2papp/notify/1.0.0''"
definition declared_ChunkSize :: nat where "declared_ChunkSize = 256 * 1024"

record declared_request =
  pq_Version :: int
  pq_Type :: string
  pq_FileHash :: string
  pq_ChunkHash :: string

record declared_response =
  pr_Success :: bool
  pr_Error :: string
  pr_Data :: bytes

record declared_notification =
  pn_Version :: int
  pn_FileHash :: string
  pn_FileName :: string
  pn_FileSize :: int
  pn_From :: peer

definition RequestMetadata :: string where "RequestMetadata = ''metadata''"
definition RequestChunk :: string where "RequestChunk = ''chunk''"

section \<open>Their JSON texts\<close>

text \<open>As \<open>encoding/json\<close> writes them by their tags.\<close>

definition declared_chat_json :: "env \<Rightarrow> string \<Rightarrow> declared_chat_message \<Rightarrow> json" where
  "declared_chat_json en t m = JObj ([(''version'', JNum (show_int (pc_Version m))), (''id'', JStr (pc_ID m)),
       (''type'', JStr (pc_Type m)), (''from'', JStr (pid_String en (pc_From m)))]
     @ (if pc_RoomID m = [] then [] else [(''room_id'', JStr (pc_RoomID m))])
     @ [(''content'', JStr (pc_Content m)), (''timestamp'', JStr t)])"

definition declared_request_json :: "declared_request \<Rightarrow> json" where
  "declared_request_json q = JObj ([(''version'', JNum (show_int (pq_Version q))), (''type'', JStr (pq_Type q))]
     @ (if pq_FileHash q = [] then [] else [(''file_hash'', JStr (pq_FileHash q))])
     @ (if pq_ChunkHash q = [] then [] else [(''chunk_hash'', JStr (pq_ChunkHash q))]))"

definition declared_response_json :: "declared_response \<Rightarrow> json" where
  "declared_response_json r = JObj ([(''success'', JBool (pr_Success r))]
     @ (if pr_Error r = [] then [] else [(''error'', JStr (pr_Error r))])
     @ (if pr_Data r = [] then [] else [(''data'', JStr (base64 (pr_Data r)))]))"

definition declared_notification_json :: "env \<Rightarrow> declared_notification \<Rightarrow> json" where
  "declared_notification_json en f = JObj [(''version'', JNum (show_int (pn_Version f))), (''file_hash'', JStr (pn_FileHash f)),
     (''file_name'', JStr (pn_FileName f)), (''file_size'', JNum (show_int (pn_FileSize f))),
     (''from'', JStr (pid_String en (pn_From f)))]"

definition declared_chat_field ::
    "env \<Rightarrow> time_codec \<Rightarrow> string \<Rightarrow> json \<Rightarrow> declared_chat_message \<Rightarrow> declared_chat_message option" where
  "declared_chat_field en tc n j m =
     (if n = ''version'' then map_option (\<lambda>i. m\<lparr>pc_Version := i\<rparr>) (as_int64 j (pc_Version m))
      else if n = ''id'' then map_option (\<lambda>s. m\<lparr>pc_ID := s\<rparr>) (as_string j (pc_ID m))
      else if n = ''type'' then map_option (\<lambda>s. m\<lparr>pc_Type := s\<rparr>) (as_string j (pc_Type m))
      else if n = ''from'' then map_option (\<lambda>p. m\<lparr>pc_From := p\<rparr>) (as_peer en j)
      else if n = ''room_id'' then map_option (\<lambda>s. m\<lparr>pc_RoomID := s\<rparr>) (as_string j (pc_RoomID m))
      else if n = ''content'' then map_option (\<lambda>s. m\<lparr>pc_Content := s\<rparr>) (as_string j (pc_Content m))
      else if n = ''timestamp'' then map_option (\<lambda>t. m\<lparr>pc_Timestamp := t\<rparr>) (as_time tc j (pc_Timestamp m))
      else Some m)"

definition zero_declared :: declared_chat_message where
  "zero_declared = \<lparr>pc_Version = 0, pc_ID = [], pc_Type = [], pc_From = [], pc_RoomID = [], pc_Content = [],
     pc_Timestamp = zero_time\<rparr>"

section \<open>The same wire\<close>

text \<open>What the program's types keep of a declared message: all but the version.\<close>

definition to_message :: "declared_chat_message \<Rightarrow> message" where
  "to_message m = \<lparr>ms_ID = pc_ID m, ms_From = pc_From m, ms_Content = pc_Content m, ms_RoomID = pc_RoomID m,
     ms_Timestamp = pc_Timestamp m, ms_Type = type_of_text (pc_Type m)\<rparr>"

definition to_request :: "declared_request \<Rightarrow> transfer_request" where
  "to_request q = \<lparr>tq_Type = pq_Type q, tq_FileHash = pq_FileHash q, tq_ChunkHash = pq_ChunkHash q\<rparr>"

definition to_response :: "declared_response \<Rightarrow> transfer_response" where
  "to_response r = \<lparr>ts_Success = pr_Success r, ts_Error = pr_Error r, ts_Data = pr_Data r\<rparr>"

definition to_notification :: "declared_notification \<Rightarrow> file_notification" where
  "to_notification f = \<lparr>fn_FileHash = pn_FileHash f, fn_FileName = pn_FileName f, fn_FileSize = pn_FileSize f, fn_From = pn_From f\<rparr>"

lemma version_name [simp]: "fold_name ''version'' = ''version''" "utf8_ok ''version''" "utf8_ok ''file_name''" "utf8_ok ''file_size''"
  by (rule fold_name_plain ascii_utf8; simp add: code_def)+

lemma code_constants:
  "topic_name room = ChatTopic @ room" "DMProtocol = declared_DMProtocol" "TransferProtocol = declared_TransferProtocol"
  "NotifyProtocol = declared_NotifyProtocol" "ChunkSize = declared_ChunkSize"
  "map type_text [MsgTypeText, MsgTypeJoin, MsgTypeLeave, MsgTypeSystem] = declared_types"
  by (simp_all add: topic_name_def ChatTopic_def DMProtocol_def declared_DMProtocol_def TransferProtocol_def
      declared_TransferProtocol_def NotifyProtocol_def declared_NotifyProtocol_def ChunkSize_def declared_ChunkSize_def declared_types_def)

definition declared_chat_ok :: "env \<Rightarrow> time_codec \<Rightarrow> string \<Rightarrow> declared_chat_message \<Rightarrow> bool" where
  "declared_chat_ok en tc t m \<longleftrightarrow>
     pid_Decode en (pid_String en (pc_From m)) = Some (pc_From m) \<and> utf8_ok (pid_String en (pc_From m)) \<and>
     tm_text tc (pc_Timestamp m) = Some t \<and> tm_parse tc t = Some (pc_Timestamp m) \<and> utf8_ok t \<and>
     utf8_ok (pc_ID m) \<and> utf8_ok (pc_Content m) \<and> utf8_ok (pc_RoomID m) \<and> utf8_ok (pc_Type m)"

lemma type_text_of [simp]: "type_text (type_of_text s) = s"
  by (simp add: type_of_text_def)

lemma decode_declared_chat:
  assumes "declared_chat_ok en tc t m"
  shows "DecodeMessage en tc (json_text (declared_chat_json en t m)) = Some (to_message m)"
proof -
  have "json_ok (declared_chat_json en t m)"
    using assms by (simp add: declared_chat_json_def declared_chat_ok_def)
  then show ?thesis
    using assms by (simp add: DecodeMessage_def json_parse_text declared_chat_json_def declared_chat_ok_def decode_struct_Cons
        decode_struct_Nil message_field_def as_string_JStr as_peer_def as_time_def zero_message_def to_message_def del: json_text.simps)
qed

lemma decode_as_declared:
  assumes "declared_chat_ok en tc t m"
  shows "\<exists>data. EncodeMessage en tc (to_message m) = Some data
    \<and> Option.bind (json_parse data) (\<lambda>j. decode_struct (declared_chat_field en tc) j zero_declared) = Some (m\<lparr>pc_Version := 0\<rparr>)"
  using assms by (simp add: EncodeMessage_def declared_chat_ok_def to_message_def json_parse_text decode_struct_Cons
      decode_struct_Nil declared_chat_field_def as_string_JStr as_peer_def as_time_def zero_declared_def del: json_text.simps)

lemma decode_declared_request:
  "decode_struct request_field (declared_request_json q) zero_request = Some (to_request q)"
  by (cases q) (simp add: declared_request_json_def request_field_def zero_request_def to_request_def decode_simps)

lemma decode_declared_notification:
  assumes "pid_Decode en (pid_String en (pn_From f)) = Some (pn_From f)" "in64 (pn_FileSize f)"
  shows "decode_struct (notification_field en) (declared_notification_json en f) zero_notification = Some (to_notification f)"
  using assms by (simp add: declared_notification_json_def notification_field_def zero_notification_def to_notification_def as_peer_def decode_simps)

text \<open>
  A peer that spoke the declared formats would be understood: the program reads a declared chat
  message, transfer request and notification as it reads its own, by everything but the
  version, which no handler looks at; its responses are the declared ones byte for byte; and
  its chat messages are declared messages of version 0, which the package does not define.
\<close>

theorem declared_formats_interoperate:
  assumes "declared_chat_ok en tc t m"
    and "utf8_ok (pq_Type q)" "utf8_ok (pq_FileHash q)" "utf8_ok (pq_ChunkHash q)"
    and "pid_Decode en (pid_String en (pn_From f)) = Some (pn_From f)" "in64 (pn_FileSize f)"
    and "utf8_ok (pid_String en (pn_From f))" "utf8_ok (pn_FileHash f)" "utf8_ok (pn_FileName f)"
  shows "DecodeMessage en tc (json_text (declared_chat_json en t m)) = Some (to_message m)
    \<and> (\<exists>data. EncodeMessage en tc (to_message m) = Some data
        \<and> Option.bind (json_parse data) (\<lambda>j. decode_struct (declared_chat_field en tc) j zero_declared) = Some (m\<lparr>pc_Version := 0\<rparr>))
    \<and> handleTransfer st fs (json_text (declared_request_json q) @ [newline])
        = handleTransfer st fs (json_text (request_json (to_request q)) @ [newline])
    \<and> sendResponse (to_response r) = json_text (declared_response_json r) @ [newline]
    \<and> handleNotify en p (json_text (declared_notification_json en f) @ [newline])
        = handleNotify en p (json_text (notification_json en (to_notification f)) @ [newline])"
proof (intro conjI)
  have q: "json_ok (declared_request_json q)" "json_ok (request_json (to_request q))"
    using assms(2-4) by (simp_all add: declared_request_json_def request_json_def to_request_def)
  show "handleTransfer st fs (json_text (declared_request_json q) @ [newline])
      = handleTransfer st fs (json_text (request_json (to_request q)) @ [newline])"
    by (simp add: handleTransfer_def q read_line_text decode_declared_request decode_request)
  have f: "json_ok (declared_notification_json en f)" "json_ok (notification_json en (to_notification f))"
    using assms(7-9) by (simp_all add: declared_notification_json_def notification_json_def to_notification_def)
  have "decode_struct (notification_field en) (notification_json en (to_notification f)) zero_notification = Some (to_notification f)"
    using assms(5,6) by (simp add: notification_json_def notification_field_def zero_notification_def to_notification_def as_peer_def decode_simps)
  then show "handleNotify en p (json_text (declared_notification_json en f) @ [newline])
      = handleNotify en p (json_text (notification_json en (to_notification f)) @ [newline])"
    by (simp add: handleNotify_def f read_line_text decode_declared_notification assms(5,6))
  show "sendResponse (to_response r) = json_text (declared_response_json r) @ [newline]"
    by (simp add: sendResponse_def response_json_def declared_response_json_def to_response_def)
qed (use decode_declared_chat [OF assms(1)] decode_as_declared [OF assms(1)] in simp_all)

theorem declared_formats_interoperate_witness:
  "handleTransfer demo_storage (demo_fs []) (json_text (declared_request_json
       \<lparr>pq_Version = 1, pq_Type = ''metadata'', pq_FileHash = ''ab'', pq_ChunkHash = []\<rparr>) @ [newline])
     = handleTransfer demo_storage (demo_fs []) (json_text (request_json
       \<lparr>tq_Type = ''metadata'', tq_FileHash = ''ab'', tq_ChunkHash = []\<rparr>) @ [newline])"
proof -
  let ?m = "\<lparr>pc_Version = 1, pc_ID = ''1'', pc_Type = ''text'', pc_From = ''peer-bob'', pc_RoomID = ''lobby'', pc_Content = ''hi'', pc_Timestamp = 0\<rparr>"
  let ?q = "\<lparr>pq_Version = 1, pq_Type = ''metadata'', pq_FileHash = ''ab'', pq_ChunkHash = []\<rparr>"
  let ?f = "\<lparr>pn_Version = 1, pn_FileHash = ''ab'', pn_FileName = ''in.txt'', pn_FileSize = 5, pn_From = ''peer-bob''\<rparr>"
  have m: "declared_chat_ok plain_env plain_codec (show_int 0) ?m"
    by (simp add: declared_chat_ok_def plain_env_def code_def in64_def)
  have u: "utf8_ok (pq_Type ?q)" "utf8_ok (pq_FileHash ?q)" "utf8_ok (pq_ChunkHash ?q)"
      "pid_Decode plain_env (pid_String plain_env (pn_From ?f)) = Some (pn_From ?f)" "in64 (pn_FileSize ?f)"
      "utf8_ok (pid_String plain_env (pn_From ?f))" "utf8_ok (pn_FileHash ?f)" "utf8_ok (pn_FileName ?f)"
    by (simp_all add: plain_env_def code_def in64_def)
  show ?thesis
    using declared_formats_interoperate [OF m u, of demo_storage "demo_fs []"]
    unfolding to_request_def declared_request.simps by blast
qed

end
