(* ===== verification/Spec2Isabelle.thy ===== *)
theory Spec2Isabelle
  imports RelayRecovery RaftCluster CloudService StorageList Delivery ChatProgress ChatMembers AppConfig CliMain Protocol
begin

text \<open>
  A model of p2papp, a peer-to-peer application for chat and file storage on libp2p, with the
  theorems that make its parts correct.  The program is written in Go; paths below are under
  \<open>src/\<close>.

  \<^bold>\<open>The program.\<close>  A command (\<open>cmd/p2papp/main.go\<close>) loads a wallet (\<open>internal/wallet\<close>), starts a
  libp2p host with the wallet's key (\<open>internal/core/host.go\<close>) and opens a chat room
  (\<open>internal/chat\<close>) or the cloud service (\<open>internal/cloud\<close>), which stores files in chunks under
  their hashes, announces them in the DHT and transfers them over streams.  A relay node
  (\<open>internal/relay\<close>) keeps messages for absent peers and caches content, with a cache, a queue on
  disk, a rate limiter and a consistent-hash router of its own.  A Raft node
  (\<open>internal/consensus\<close>) replicates a key-value store.

  \<^bold>\<open>Theories and sources.\<close>
    \<^item> \<open>Prelude\<close>: Go's 64-bit integers, decimal text, lists and maps; \<open>GoSlice\<close>: slices over
      shared arrays; \<open>Float64\<close>: IEEE doubles as rationals with rounding to nearest even.
    \<^item> \<open>Json\<close>, \<open>JsonText\<close>, \<open>JsonRoundTrip\<close>, \<open>JsonDecode\<close>, \<open>JsonCompact\<close>, \<open>JsonIndent\<close>,
      \<open>Base64\<close>: \<open>encoding/json\<close> and \<open>encoding/base64\<close> on bytes; the parser reads back what the
      printer writes, also indented, and compaction leaves it as it is.
      \<open>Sha256\<close>, \<open>AesGcm\<close>: SHA-256, AES and GCM as the standards define them.
      \<open>FileSys\<close>: \<open>path/filepath\<close> and \<open>os\<close> on a tree of files.
    \<^item> \<open>CacheSpec\<close>, \<open>StoreSpec\<close>, \<open>RateSpec\<close>, \<open>KvSpec\<close>, \<open>ContentSpec\<close>: the interfaces, as locales
      and abstract specifications, that the components below implement and their clients use.
    \<^item> \<open>LruCache\<close>: \<open>relay/cache.go\<close>.  \<open>MessageQueue\<close>: \<open>relay/queue.go\<close>.  \<open>RateLimiter\<close>:
      \<open>relay/limiter.go\<close>.  \<open>Router\<close>: \<open>relay/router.go\<close>.  \<open>RelayNode\<close>: \<open>relay/node.go\<close>, on the four.
      \<open>RelayRecovery\<close>: a message through a relay that crashes and restarts.
    \<^item> \<open>RaftFsm\<close>: the state machine and the changing calls of \<open>consensus/raft.go\<close>; \<open>RaftCluster\<close>: its
      other calls, and a cluster of replicas that apply, snapshot, restart and install snapshots.
    \<^item> \<open>FileStorage\<close>: \<open>cloud/storage.go\<close>; \<open>StorageList\<close>: what it lists.  \<open>FileTransfer\<close>:
      \<open>cloud/transfer.go\<close>.  \<open>CloudService\<close>: \<open>cloud/index.go\<close> and \<open>cloud/service.go\<close>.
    \<^item> \<open>ChatRoom\<close>: \<open>chat/service.go\<close>, \<open>room.go\<close>, \<open>dm.go\<close>, \<open>pubsub.go\<close>; \<open>ChatProgress\<close>: waiting
      readers and closing; \<open>ChatMembers\<close>: the members of a room.  \<open>Delivery\<close>: direct messages and
      notifications of shared files between two nodes.
    \<^item> \<open>Wallet\<close>: \<open>wallet/wallet.go\<close>, \<open>identity.go\<close>, \<open>keystore.go\<close>.  \<open>AppConfig\<close>:
      \<open>core/config.go\<close>.  \<open>Host\<close>: \<open>core/host.go\<close>.  \<open>Cli\<close>: the commands of \<open>cmd/p2papp/main.go\<close>;
      \<open>CliMain\<close>: its goroutines, its tree of commands and \<open>main\<close>.
    \<^item> \<open>Protocol\<close>: the declarations of \<open>pkg/protocol\<close>, against the types that are used.

  \<^bold>\<open>How state and operations correspond.\<close>  A struct is a record with the fields of the code, a
  method a function that takes the record and returns the new one with its result; a method
  of the code whose name clashes carries its type in front (\<open>LRU_Get\<close>, \<open>Room_Close\<close>).  An
  error return is a sum or an option; a panic is a flag of the state or an outer option and
  always visible in a theorem.  The clock, random bytes, map iteration orders and the answers
  of other nodes and of third-party packages are arguments: single outcomes, functions, or
  lists of events, and the theorems hold for all of them.  What such a package promises is a
  hypothesis of a theorem (\<open>pid_ok\<close>, \<open>key_lib_ok\<close>, the laws of the hash ring), with a concrete
  instance in the witness.  Methods under a mutex are atomic.  The goroutines of a chat room,
  which do not hold the lock when they wait, are states of their own in the step relation
  \<open>chat_step\<close>, and run beside the command's input loop and its deferred \<open>Close\<close> as the function
  \<open>goroutine_step\<close>; tickers are sequences of ticks.

  \<^bold>\<open>What is shown.\<close>
    \<^item> Cache: any history of calls keeps the list, the key map and the byte count consistent and
      refines a list specification; evictions are minimal and in order; hits are last writes.
    \<^item> Queue: any history refines a map from peers to lists, its files hold the indented
      JSON of the messages, and a restart recovers those that decode and loses the whole file
      of a peer for one that does not; cleanup is exact whatever the map order.
    \<^item> Limiter: bounds on what is granted in total and per peer in double arithmetic, with the
      rounding accounted for, a peer's bound also over the relay's cleanups, but not over a
      reset; refill liveness; connection counts within bounds.
    \<^item> Router: routes lead to registered healthy nodes, replicas are distinct, and nodes that
      know the same peers build their rings from the same virtual nodes.  Relay: no step but
      the cleanup loses a message, except to another one under its ID; admitted messages go out
      or are queued, one for an absent peer survives a crash byte for byte, and where delivery
      goes wrong.
    \<^item> Consensus: a replica follows its log without panicking, a snapshot replaces the log, and the
      replicas of a cluster agree whatever they snapshot, restart and install.
    \<^item> Cloud: stored files come back and are listed until they are deleted, an upload on one node is downloaded intact by another, the
      search for providers ends, and what the protocol does not check.
    \<^item> Chat: the channel is a bounded queue that keeps each room's order in every interleaving, a
      message arrives as it was sent, waiting readers are served in turn, the members are those
      who joined last, the race of \<open>Close\<close> with the readers and the order that avoids it.
    \<^item> Wallet, keystore, configuration, commands: round trips through the files, the identity
      under which every command runs, what a chat session publishes while messages arrive, and
      what can end it with a panic, an upload that a later
      command lists, and the printing of sizes.

  \<^bold>\<open>Bounds and fuel.\<close>  The JSON parser runs on fuel of twice the length of its input plus two:
  each value and each separator consumes a byte, and \<open>json_parse_text\<close> and its variants show
  that it is enough for every text the program writes.  The chunk loops recurse on the bytes
  that are left and the loop of \<open>formatBytes\<close> on its quotient; both are proved to end.  The
  search for providers and the input loop of the chat may wait for ever and give \<open>None\<close> until
  an ending event.  Integers are kept at 64 bits by \<open>in64\<close> and \<open>wrap64\<close>.

  \<^bold>\<open>Not modelled.\<close>  The packages of libp2p (hosts, streams, PubSub, DHT, mDNS), hashicorp/raft,
  the hash ring, PBKDF2 and cobra are not part of the sources; the log that the replicas of a
  cluster share, and when the library snapshots and restarts, stand for what hashicorp/raft
  promises.  Dialling timeouts are part of the outcome of a connection, and the time of day of
  a message is an argument.  Data races of the code are findings, not behaviours of the model.  There are
  no symbolic links in the file system, and a write that fails writes nothing.
\<close>

end
